(* ===== verification/HK_Prelude.thy ===== *)
theory HK_Prelude
  imports Main "HOL-Library.Word"
begin

text \<open>
  Shared vocabulary of the development: the machine types of the C and C++ sources, memory as
  lists of bytes (a C \<open>char\<close> is Isabelle's 8-bit \<open>char\<close>), little-endian storage of words, C
  strings and \<open>strncpy\<close>, decimal printing, and the interface of a fixed-width byte codec.
\<close>

section \<open>Machine types\<close>

type_synonym byte = char
type_synonym mem = "byte list"
type_synonym u16 = "16 word"
type_synonym u32 = "32 word"
type_synonym pid_t = "32 word"
  \<comment> \<open>two's complement: \<open>sint\<close> reads the C value\<close>
type_synonym fd = int

text \<open>
  Collections of rewrite rules: \<open>bytes_simps\<close> for storage of words in memory, \<open>os_simps\<close> for the
  descriptor table, \<open>heap_simps\<close> for the packet heap.
\<close>

named_theorems bytes_simps
named_theorems os_simps
named_theorems heap_simps

lemmas option_case_defs = option.case_eq_if

section \<open>Little-endian words\<close>

fun le_bytes :: "nat \<Rightarrow> nat \<Rightarrow> mem" where
  "le_bytes 0 x = []"
| "le_bytes (Suc k) x = char_of x # le_bytes k (x div 256)"

fun le_val :: "mem \<Rightarrow> nat" where
  "le_val [] = 0"
| "le_val (c # cs) = of_char c + 256 * le_val cs"

lemma length_le_bytes [simp, bytes_simps]: "length (le_bytes k x) = k"
  by (induction k arbitrary: x) auto

lemma le_val_le_bytes: "le_val (le_bytes k x) = x mod 256 ^ k"
proof (induction k arbitrary: x)
  case (Suc k)
  have "le_val (le_bytes (Suc k) x) = x mod 256 + 256 * ((x div 256) mod 256 ^ k)"
    by (simp add: Suc.IH)
  also have "\<dots> = x mod (256 * 256 ^ k)"
    by (metis add.commute mod_mult2_eq)
  finally show ?case by simp
qed simp

lemma of_char_less_256: "(of_char c :: nat) < 256"
  by (metis mod_less_divisor of_char_mod_256 zero_less_numeral)

lemma le_val_bound: "le_val bs < 256 ^ length bs"
proof (induction bs)
  case (Cons c cs)
  have c: "(of_char c :: nat) < 256"
    by (rule of_char_less_256)
  have "of_char c + 256 * le_val cs < 256 + 256 * le_val cs"
    using c by simp
  also have "\<dots> = 256 * Suc (le_val cs)"
    by simp
  also have "\<dots> \<le> 256 * 256 ^ length cs"
    using Cons.IH by (simp only: mult_le_mono2 Suc_leI)
  finally show ?case by simp
qed simp

lemma le_bytes_le_val: "le_bytes (length bs) (le_val bs) = bs"
proof (induction bs)
  case (Cons c cs)
  have c: "(of_char c :: nat) < 256"
    by (rule of_char_less_256)
  then have "(of_char c + 256 * le_val cs) div 256 = le_val cs"
    by simp
  moreover have "char_of (of_char c + 256 * le_val cs :: nat) = c"
  proof -
    have "(of_char c + 256 * le_val cs) mod 256 = (of_char c :: nat)"
      using c by simp
    then show ?thesis by (metis char_of_mod_256 char_of_char)
  qed
  ultimately show ?case using Cons.IH by simp
qed simp

definition word_bytes :: "'a::len word \<Rightarrow> mem" where
  "word_bytes w = le_bytes (LENGTH('a) div 8) (unat w)"

definition bytes_word :: "mem \<Rightarrow> 'a::len word" where
  "bytes_word bs = word_of_nat (le_val bs)"

lemma length_word_bytes [simp, bytes_simps]:
  "length (word_bytes (w :: 'a::len word)) = LENGTH('a) div 8"
  by (simp add: word_bytes_def)

lemma bytes_word_bytes:
  assumes "8 dvd LENGTH('a::len)"
  shows "bytes_word (word_bytes (w :: 'a word)) = w"
proof -
  have "(256::nat) ^ (LENGTH('a) div 8) = 2 ^ LENGTH('a)"
    using assms power_mult [of "2::nat" 8 "LENGTH('a) div 8"] by simp
  then show ?thesis
    by (simp add: bytes_word_def word_bytes_def le_val_le_bytes)
qed

lemma word_bytes_word:
  assumes "8 dvd LENGTH('a::len)" and "length bs = LENGTH('a) div 8"
  shows "word_bytes (bytes_word bs :: 'a word) = bs"
proof -
  have "(256::nat) ^ (LENGTH('a) div 8) = 2 ^ LENGTH('a)"
    using assms power_mult [of "2::nat" 8 "LENGTH('a) div 8"] by simp
  with le_val_bound [of bs] have "le_val bs < 2 ^ LENGTH('a)"
    by (simp add: assms)
  then have "unat (word_of_nat (le_val bs) :: 'a word) = le_val bs"
    by (simp add: unat_of_nat)
  then show ?thesis
    using le_bytes_le_val [of bs] by (simp add: bytes_word_def word_bytes_def assms)
qed

lemma bytes_word_u32 [simp, bytes_simps]: "bytes_word (word_bytes (w :: u32)) = w"
  by (rule bytes_word_bytes) simp

lemma bytes_word_u16 [simp, bytes_simps]: "bytes_word (word_bytes (w :: u16)) = w"
  by (rule bytes_word_bytes) simp

section \<open>Loads and stores\<close>

definition load :: "nat \<Rightarrow> nat \<Rightarrow> mem \<Rightarrow> mem" where
  "load off n m = take n (drop off m)"

definition store :: "nat \<Rightarrow> mem \<Rightarrow> mem \<Rightarrow> mem" where
  "store off bs m = take off m @ bs @ drop (off + length bs) m"

lemma length_store [simp, bytes_simps]:
  "off + length bs \<le> length m \<Longrightarrow> length (store off bs m) = length m"
  by (simp add: store_def)

lemma load_store_same:
  "off + length bs \<le> length m \<Longrightarrow> n = length bs \<Longrightarrow> load off n (store off bs m) = bs"
  by (simp add: load_def store_def)

lemma load_store_below:
  "off' + n \<le> off \<Longrightarrow> off + length bs \<le> length m \<Longrightarrow>
    load off' n (store off bs m) = load off' n m"
  by (simp add: load_def store_def drop_take)

lemma load_store_above:
  "off + length bs \<le> off' \<Longrightarrow> off + length bs \<le> length m \<Longrightarrow>
    load off' n (store off bs m) = load off' n m"
  by (simp add: load_def store_def drop_drop)

lemmas load_store = load_store_same load_store_below load_store_above
declare load_store [bytes_simps]

lemma length_load [simp, bytes_simps]: "off + n \<le> length m \<Longrightarrow> length (load off n m) = n"
  by (simp add: load_def)

lemma load_append_left [bytes_simps]:
  "off + n \<le> length m \<Longrightarrow> load off n (m @ m') = load off n m"
  by (simp add: load_def)

section \<open>C strings\<close>

definition nul :: byte where
  "nul = CHR 0x00"

text \<open>
  Reading a C string from a buffer: the bytes before the first NUL. A buffer with no NUL would be
  read past its end, which is \<open>None\<close>.
\<close>

definition c_string :: "mem \<Rightarrow> string option" where
  "c_string m = (if nul \<in> set m then Some (takeWhile (\<lambda>c. c \<noteq> nul) m) else None)"

text \<open>\<open>strncpy(dst, src, n)\<close>: at most \<open>n\<close> bytes of the C string \<open>src\<close>, padded with NULs to \<open>n\<close>.\<close>

definition strncpy :: "string \<Rightarrow> nat \<Rightarrow> mem" where
  "strncpy s n =
     (let t = take n (takeWhile (\<lambda>c. c \<noteq> nul) s) in t @ replicate (n - length t) nul)"

lemma length_strncpy [simp, bytes_simps]: "length (strncpy s n) = n"
  by (simp add: strncpy_def Let_def)

lemma c_string_terminated [bytes_simps]:
  "nul \<notin> set s \<Longrightarrow> c_string (s @ nul # m) = Some s"
proof -
  assume s: "nul \<notin> set s"
  then have "\<And>c. c \<in> set s \<Longrightarrow> c \<noteq> nul" by blast
  then have "takeWhile (\<lambda>c. c \<noteq> nul) (s @ nul # m) = s"
    by (simp add: takeWhile_append2)
  then show ?thesis by (simp add: c_string_def)
qed

lemma c_string_strncpy:
  "c_string (strncpy s n @ nul # m) = Some (take n (takeWhile (\<lambda>c. c \<noteq> nul) s))"
proof -
  let ?t = "take n (takeWhile (\<lambda>c. c \<noteq> nul) s)"
  have nin: "nul \<notin> set ?t"
    using set_take_subset set_takeWhileD by fastforce
  show ?thesis
  proof (cases "n - length ?t")
    case 0
    then show ?thesis
      using nin by (simp add: strncpy_def c_string_terminated)
  next
    case (Suc k)
    then have "strncpy s n @ nul # m = ?t @ nul # (replicate k nul @ nul # m)"
      by (simp only: strncpy_def Let_def replicate_Suc append_assoc append_Cons)
    then show ?thesis using nin by (simp add: c_string_terminated)
  qed
qed

lemma le_bytes_0: "le_bytes k 0 = replicate k nul"
  by (induction k) (simp_all add: nul_def char_of_def)

lemma word_bytes_0 [bytes_simps]: "word_bytes (0 :: 'a::len word) = replicate (LENGTH('a) div 8) nul"
  by (simp add: word_bytes_def le_bytes_0)

section \<open>Decimal numerals\<close>

definition digit_char :: "nat \<Rightarrow> char" where
  "digit_char d = char_of (48 + d)"

fun dec_nat :: "nat \<Rightarrow> string" where
  "dec_nat n = (if n < 10 then [digit_char n] else dec_nat (n div 10) @ [digit_char (n mod 10)])"

declare dec_nat.simps [simp del]

definition dec_int :: "int \<Rightarrow> string" where
  "dec_int i = (if i < 0 then CHR ''-'' # dec_nat (nat (- i)) else dec_nat (nat i))"

definition digit_val :: "char \<Rightarrow> nat" where
  "digit_val c = of_char c - 48"

definition dec_val :: "string \<Rightarrow> nat" where
  "dec_val s = foldl (\<lambda>n c. 10 * n + digit_val c) 0 s"

definition is_digit :: "char \<Rightarrow> bool" where
  "is_digit c \<longleftrightarrow> (48 \<le> (of_char c :: nat) \<and> (of_char c :: nat) \<le> 57)"

lemma digit_val_digit_char [simp]: "d < 10 \<Longrightarrow> digit_val (digit_char d) = d"
  by (simp add: digit_val_def digit_char_def)

lemma is_digit_digit_char [simp]: "d < 10 \<Longrightarrow> is_digit (digit_char d)"
  by (simp add: is_digit_def digit_char_def)

lemma dec_val_snoc: "dec_val (s @ [c]) = 10 * dec_val s + digit_val c"
  by (simp add: dec_val_def)

lemma dec_nat_nonempty [simp]: "dec_nat n \<noteq> []"
  by (subst dec_nat.simps) simp

lemma dec_nat_digits: "\<forall>c \<in> set (dec_nat n). is_digit c"
proof (induction n rule: dec_nat.induct)
  case (1 n)
  then show ?case by (subst dec_nat.simps) auto
qed

lemma dec_val_dec_nat [simp]: "dec_val (dec_nat n) = n"
proof (induction n rule: dec_nat.induct)
  case (1 n)
  show ?case
  proof (cases "n < 10")
    case True
    then show ?thesis by (subst dec_nat.simps) (simp add: dec_val_def)
  next
    case False
    then have "dec_val (dec_nat n) = 10 * (n div 10) + n mod 10"
      using "1.IH" by (subst dec_nat.simps) (simp add: dec_val_snoc)
    then show ?thesis by simp
  qed
qed

lemma dec_nat_inject [simp]: "dec_nat m = dec_nat n \<longleftrightarrow> m = n"
  by (metis dec_val_dec_nat)

section \<open>Invariants of transition systems\<close>

locale transition_invariant =
  fixes init :: "'s \<Rightarrow> bool" and step :: "'s \<Rightarrow> 's \<Rightarrow> bool" and inv :: "'s \<Rightarrow> bool"
  assumes inv_init: "init s \<Longrightarrow> inv s"
    and inv_step: "step s t \<Longrightarrow> inv s \<Longrightarrow> inv t"
begin

lemma inv_steps: "step\<^sup>*\<^sup>* s t \<Longrightarrow> inv s \<Longrightarrow> inv t"
  by (induction rule: rtranclp_induct) (auto intro: inv_step)

lemma inv_reachable: "init s \<Longrightarrow> step\<^sup>*\<^sup>* s t \<Longrightarrow> inv t"
  using inv_steps inv_init by blast

end

section \<open>Fixed-width byte codecs\<close>

text \<open>
  What both ends of a byte stream rely on: encodings have one width, and decoding and encoding
  are inverse on blocks of that width.
\<close>

locale byte_codec =
  fixes enc :: "'a \<Rightarrow> mem" and dec :: "mem \<Rightarrow> 'a" and width :: nat
  assumes enc_width: "length (enc a) = width"
    and dec_enc: "dec (enc a) = a"
    and enc_dec: "length bs = width \<Longrightarrow> enc (dec bs) = bs"
begin

lemma enc_inj: "enc a = enc b \<longleftrightarrow> a = b"
  by (metis dec_enc)

lemma take_enc: "take width (enc a @ rest) = enc a"
  by (simp add: enc_width)

lemma drop_enc: "drop width (enc a @ rest) = rest"
  by (simp add: enc_width)

lemma dec_take: "dec (take width (enc a @ rest)) = a"
  by (simp only: take_enc dec_enc)

end

interpretation codec_u16: byte_codec "word_bytes :: u16 \<Rightarrow> mem" bytes_word 2
  by unfold_locales (simp_all add: word_bytes_word)

interpretation codec_u32: byte_codec "word_bytes :: u32 \<Rightarrow> mem" bytes_word 4
  by unfold_locales (simp_all add: word_bytes_word)

end
