(* ===== verification/ThreadSafeMap.thy ===== *)
theory ThreadSafeMap
  imports HK_Prelude
begin

text \<open>
  \<^verbatim>\<open>shared/thread_safe_unordered_map/ThreadSafeUnorderedMap.h\<close>. \<open>get\<close> returns a pointer to the
  element inside the container, after the lock is released. A \<open>std::unordered_map\<close> keeps every
  element in a node of its own, whose address is stable until that element is erased, so the model
  keeps the nodes: \<open>ts_index\<close> finds the node of a key and \<open>ts_nodes\<close> holds the values. A pointer
  to a node that is gone is dangling (\<open>ts_deref\<close> is \<open>None\<close>). Every method body runs under the
  map's mutex and is one atomic step.
\<close>

record ('k, 'v) ts_map =
  ts_index :: "'k \<Rightarrow> nat option"
  ts_nodes :: "nat \<Rightarrow> 'v option"
  ts_next :: nat

definition ts_init :: "('k, 'v) ts_map" where
  "ts_init = \<lparr>ts_index = (\<lambda>_. None), ts_nodes = (\<lambda>_. None), ts_next = 0\<rparr>"

definition ts_insertOrAssign :: "'k \<Rightarrow> 'v \<Rightarrow> ('k, 'v) ts_map \<Rightarrow> ('k, 'v) ts_map" where
  "ts_insertOrAssign k v m =
     (case ts_index m k of
        Some n \<Rightarrow> m\<lparr>ts_nodes := (ts_nodes m)(n \<mapsto> v)\<rparr>
      | None \<Rightarrow>
          m\<lparr>ts_index := (ts_index m)(k \<mapsto> ts_next m),
            ts_nodes := (ts_nodes m)(ts_next m \<mapsto> v),
            ts_next := ts_next m + 1\<rparr>)"

definition ts_get :: "('k, 'v) ts_map \<Rightarrow> 'k \<Rightarrow> nat option" where
  "ts_get m k = (if ts_index m k \<noteq> None then ts_index m k else None)"

definition ts_deref :: "('k, 'v) ts_map \<Rightarrow> nat \<Rightarrow> 'v option" where
  "ts_deref m n = ts_nodes m n"

definition ts_erase :: "'k \<Rightarrow> ('k, 'v) ts_map \<Rightarrow> ('k, 'v) ts_map" where
  "ts_erase k m =
     (case ts_index m k of
        None \<Rightarrow> m
      | Some n \<Rightarrow> m\<lparr>ts_index := (ts_index m)(k := None), ts_nodes := (ts_nodes m)(n := None)\<rparr>)"

definition ts_clear :: "('k, 'v) ts_map \<Rightarrow> ('k, 'v) ts_map" where
  "ts_clear m = m\<lparr>ts_index := (\<lambda>_. None), ts_nodes := (\<lambda>_. None)\<rparr>"

definition ts_getMap :: "('k, 'v) ts_map \<Rightarrow> 'k \<Rightarrow> 'v option" where
  "ts_getMap m k = (case ts_index m k of None \<Rightarrow> None | Some n \<Rightarrow> ts_nodes m n)"

lemmas ts_defs =
  ts_init_def ts_insertOrAssign_def ts_get_def ts_deref_def ts_erase_def ts_clear_def ts_getMap_def

section \<open>Well-formed containers\<close>

text \<open>Every key has a node of its own, every node belongs to a key, and node names are fresh.\<close>

definition ts_wf :: "('k, 'v) ts_map \<Rightarrow> bool" where
  "ts_wf m \<longleftrightarrow>
     (\<forall>k k' n. ts_index m k = Some n \<longrightarrow> ts_index m k' = Some n \<longrightarrow> k = k') \<and>
     (\<forall>k n. ts_index m k = Some n \<longrightarrow> ts_nodes m n \<noteq> None) \<and>
     (\<forall>n. ts_nodes m n \<noteq> None \<longrightarrow> n < ts_next m \<and> (\<exists>k. ts_index m k = Some n))"

lemma ts_wf_inj: "ts_wf m \<Longrightarrow> ts_index m k = Some n \<Longrightarrow> ts_index m k' = Some n \<Longrightarrow> k = k'"
  unfolding ts_wf_def by blast

lemma ts_wf_node: "ts_wf m \<Longrightarrow> ts_index m k = Some n \<Longrightarrow> \<exists>v. ts_nodes m n = Some v"
  unfolding ts_wf_def by blast

lemma ts_wf_owner: "ts_wf m \<Longrightarrow> ts_nodes m n = Some v \<Longrightarrow> n < ts_next m \<and> (\<exists>k. ts_index m k = Some n)"
  unfolding ts_wf_def by blast

lemma ts_wf_index_less: "ts_wf m \<Longrightarrow> ts_index m k = Some n \<Longrightarrow> n < ts_next m"
  using ts_wf_node ts_wf_owner by metis

lemma ts_wfI:
  assumes "\<And>k k' n. ts_index m k = Some n \<Longrightarrow> ts_index m k' = Some n \<Longrightarrow> k = k'"
    and "\<And>k n. ts_index m k = Some n \<Longrightarrow> \<exists>v. ts_nodes m n = Some v"
    and "\<And>n v. ts_nodes m n = Some v \<Longrightarrow> n < ts_next m \<and> (\<exists>k. ts_index m k = Some n)"
  shows "ts_wf m"
  unfolding ts_wf_def using assms(1) assms(2) assms(3) by (metis option.distinct(1) option.exhaust)

lemma ts_wf_init: "ts_wf ts_init"
  by (simp add: ts_wf_def ts_init_def)

lemma ts_wf_clear: "ts_wf (ts_clear m)"
  by (simp add: ts_wf_def ts_clear_def)

lemma ts_wf_insert:
  assumes wf: "ts_wf m"
  shows "ts_wf (ts_insertOrAssign k v m)"
proof (cases "ts_index m k")
  case None
  have fresh: "\<And>k'. ts_index m k' \<noteq> Some (ts_next m)"
    using ts_wf_index_less [OF wf] by blast
  have owner: "n < Suc (ts_next m) \<and> (\<exists>k'. k' \<noteq> k \<and> ts_index m k' = Some n)"
    if "ts_nodes m n = Some v" for n v
    using ts_wf_owner [OF wf that] None by (metis less_SucI option.distinct(1))
  show ?thesis
    unfolding ts_insertOrAssign_def None option.case
  proof (rule ts_wfI, goal_cases)
    case (1 k1 k2 n)
    then show ?case using fresh ts_wf_inj [OF wf] by (auto split: if_splits)
  next
    case (2 k1 n)
    then show ?case using ts_wf_node [OF wf] by (auto split: if_splits)
  next
    case (3 n w)
    then show ?case using owner [of n w] by (cases "n = ts_next m") auto
  qed
next
  case (Some n)
  have "n < ts_next m"
    using ts_wf_index_less [OF wf Some] .
  then show ?thesis
    using wf Some by (simp add: ts_wf_def ts_insertOrAssign_def)
qed

lemma ts_wf_erase:
  assumes wf: "ts_wf m"
  shows "ts_wf (ts_erase k m)"
proof (cases "ts_index m k")
  case None
  with wf show ?thesis by (simp add: ts_erase_def)
next
  case (Some n)
  have other: "\<And>k'. ts_index m k' = Some n \<Longrightarrow> k' = k"
    using ts_wf_inj [OF wf _ Some] .
  have owner: "n' < ts_next m \<and> (\<exists>k'. k' \<noteq> k \<and> ts_index m k' = Some n')"
    if "ts_nodes m n' = Some v" "n' \<noteq> n" for n' v
    using ts_wf_owner [OF wf that(1)] that(2) Some by (metis option.inject)
  show ?thesis
    unfolding ts_erase_def Some option.case
  proof (rule ts_wfI, goal_cases)
    case (1 k1 k2 n')
    then show ?case using ts_wf_inj [OF wf] by (auto split: if_splits)
  next
    case (2 k1 n')
    then show ?case using other ts_wf_node [OF wf] by (auto split: if_splits)
  next
    case (3 n' w)
    then show ?case using owner [of n' w] by (auto split: if_splits)
  qed
qed

section \<open>The map it implements\<close>

text \<open>The contract of a key-value map, and what a client may conclude from it.\<close>

datatype ('k, 'v) map_op = Put 'k 'v | Del 'k | Clr

fun spec_op :: "('k, 'v) map_op \<Rightarrow> ('k \<Rightarrow> 'v option) \<Rightarrow> ('k \<Rightarrow> 'v option)" where
  "spec_op (Put k v) f = f(k \<mapsto> v)"
| "spec_op (Del k) f = f(k := None)"
| "spec_op Clr f = (\<lambda>_. None)"

fun exec_op ::
  "('k \<Rightarrow> 'v \<Rightarrow> 'm \<Rightarrow> 'm) \<Rightarrow> ('k \<Rightarrow> 'm \<Rightarrow> 'm) \<Rightarrow> ('m \<Rightarrow> 'm) \<Rightarrow> ('k, 'v) map_op \<Rightarrow> 'm \<Rightarrow> 'm" where
  "exec_op ins del clr (Put k v) m = ins k v m"
| "exec_op ins del clr (Del k) m = del k m"
| "exec_op ins del clr Clr m = clr m"

locale key_map =
  fixes empty :: 'm
    and insert_op :: "'k \<Rightarrow> 'v \<Rightarrow> 'm \<Rightarrow> 'm"
    and erase_op :: "'k \<Rightarrow> 'm \<Rightarrow> 'm"
    and clear_op :: "'m \<Rightarrow> 'm"
    and view :: "'m \<Rightarrow> 'k \<Rightarrow> 'v option"
    and invar :: "'m \<Rightarrow> bool"
  assumes view_empty: "view empty = (\<lambda>_. None)"
    and view_insert: "invar m \<Longrightarrow> view (insert_op k v m) = (view m)(k \<mapsto> v)"
    and view_erase: "invar m \<Longrightarrow> view (erase_op k m) = (view m)(k := None)"
    and view_clear: "invar m \<Longrightarrow> view (clear_op m) = (\<lambda>_. None)"
    and invar_empty: "invar empty"
    and invar_insert: "invar m \<Longrightarrow> invar (insert_op k v m)"
    and invar_erase: "invar m \<Longrightarrow> invar (erase_op k m)"
    and invar_clear: "invar m \<Longrightarrow> invar (clear_op m)"
begin

lemma view_exec_op:
  "invar m \<Longrightarrow> invar (exec_op insert_op erase_op clear_op op m) \<and>
    view (exec_op insert_op erase_op clear_op op m) = spec_op op (view m)"
  by (cases op)
    (simp_all add: view_insert view_erase view_clear invar_insert invar_erase invar_clear)

lemma view_run:
  "invar m \<Longrightarrow> invar (fold (exec_op insert_op erase_op clear_op) ops m) \<and>
    view (fold (exec_op insert_op erase_op clear_op) ops m) = fold spec_op ops (view m)"
proof (induction ops arbitrary: m)
  case (Cons op ops)
  then show ?case using view_exec_op [OF Cons.prems, of op] by simp
qed simp

end

lemma ts_getMap_insert: "ts_wf m \<Longrightarrow> ts_getMap (ts_insertOrAssign k v m) = (ts_getMap m)(k \<mapsto> v)"
  by (rule ext)
    (auto simp: ts_getMap_def ts_insertOrAssign_def split: option.splits
       dest: ts_wf_inj ts_wf_index_less)

lemma ts_getMap_erase: "ts_wf m \<Longrightarrow> ts_getMap (ts_erase k m) = (ts_getMap m)(k := None)"
  by (rule ext)
    (auto simp: ts_getMap_def ts_erase_def split: option.splits dest: ts_wf_inj)

lemma ts_getMap_empty: "ts_getMap ts_init = (\<lambda>_. None)" "ts_getMap (ts_clear m) = (\<lambda>_. None)"
  by (rule ext, simp add: ts_getMap_def ts_init_def ts_clear_def)+

interpretation tsm: key_map ts_init ts_insertOrAssign ts_erase ts_clear ts_getMap ts_wf
  by unfold_locales
    (simp_all add: ts_getMap_insert ts_getMap_erase ts_getMap_empty
       ts_wf_insert ts_wf_erase ts_wf_clear ts_wf_init)

abbreviation ts_run :: "('k, 'v) map_op list \<Rightarrow> ('k, 'v) ts_map \<Rightarrow> ('k, 'v) ts_map" where
  "ts_run \<equiv> fold (exec_op ts_insertOrAssign ts_erase ts_clear)"

text \<open>
  C23: Every sequence of the container's mutating methods refines the same sequence on a plain
  map: the content a client sees through \<open>getMap\<close> after it is that of the abstract map.
\<close>

theorem ts_map_refines: "ts_getMap (ts_run ops ts_init) = fold spec_op ops (\<lambda>_. None)"
  using tsm.view_run [OF ts_wf_init, of ops] by (simp add: ts_getMap_empty)

section \<open>Pointers returned by get\<close>

lemma ts_get_none_iff: "ts_wf m \<Longrightarrow> ts_get m k = None \<longleftrightarrow> ts_getMap m k = None"
  by (auto simp: ts_get_def ts_getMap_def split: option.splits dest: ts_wf_node)

lemma ts_deref_get: "ts_wf m \<Longrightarrow> ts_get m k = Some n \<Longrightarrow> ts_deref m n = ts_getMap m k"
  by (auto simp: ts_get_def ts_getMap_def ts_deref_def split: if_splits)

definition keeps_key :: "'k \<Rightarrow> ('k, 'v) map_op \<Rightarrow> bool" where
  "keeps_key k op \<longleftrightarrow> (case op of Put _ _ \<Rightarrow> True | Del k' \<Rightarrow> k' \<noteq> k | Clr \<Rightarrow> False)"

lemma ts_index_keep:
  "ts_index m k = Some n \<Longrightarrow> keeps_key k op \<Longrightarrow>
    ts_index (exec_op ts_insertOrAssign ts_erase ts_clear op m) k = Some n"
  by (cases op)
    (auto simp: keeps_key_def ts_insertOrAssign_def ts_erase_def split: option.splits)

lemma ts_run_wf: "ts_wf m \<Longrightarrow> ts_wf (ts_run ops m)"
  using tsm.view_run by blast

lemma ts_index_run:
  "ts_index m k = Some n \<Longrightarrow> list_all (keeps_key k) ops \<Longrightarrow> ts_index (ts_run ops m) k = Some n"
proof (induction ops arbitrary: m)
  case (Cons op ops)
  then show ?case using ts_index_keep [of m k n op] by simp
qed simp

text \<open>
  A pointer returned by \<open>get\<close> stays valid while other threads insert or assign any keys and
  erase other keys: it always reads the current value of its key. Erasing its key leaves it
  dangling, which is the lifetime the caller has to respect.
\<close>

theorem ts_get_pointer_stable:
  assumes "ts_wf m" and "ts_get m k = Some n" and "list_all (keeps_key k) ops"
  shows "ts_deref (ts_run ops m) n = ts_getMap (ts_run ops m) k \<and>
    ts_deref (ts_run ops m) n \<noteq> None \<and>
    ts_deref (ts_erase k (ts_run ops m)) n = None"
proof (intro conjI)
  have idx: "ts_index (ts_run ops m) k = Some n"
    using assms by (auto simp: ts_get_def split: if_splits intro: ts_index_run)
  then show "ts_deref (ts_run ops m) n = ts_getMap (ts_run ops m) k"
    by (simp add: ts_deref_def ts_getMap_def)
  show "ts_deref (ts_run ops m) n \<noteq> None"
    using ts_wf_node [OF ts_run_wf [OF assms(1)] idx] by (auto simp: ts_deref_def)
  show "ts_deref (ts_erase k (ts_run ops m)) n = None"
    using idx by (simp add: ts_erase_def ts_deref_def)
qed

theorem ts_get_pointer_stable_witness:
  "ts_getMap (ts_run [Put 2 20, Put 1 (11 :: nat)] (ts_insertOrAssign (1 :: nat) 10 ts_init)) 1 =
     Some 11 \<and>
   ts_deref (ts_run [Put 2 20, Put 1 (11 :: nat)] (ts_insertOrAssign (1 :: nat) 10 ts_init)) 0 =
     Some 11"
proof -
  let ?m = "ts_insertOrAssign (1 :: nat) (10 :: nat) ts_init"
  let ?ops = "[Put 2 20, Put 1 11] :: (nat, nat) map_op list"
  have wf: "ts_wf ?m" by (rule ts_wf_insert [OF ts_wf_init])
  have get: "ts_get ?m 1 = Some 0" by (simp add: ts_defs)
  have keep: "list_all (keeps_key 1) ?ops" by (simp add: keeps_key_def)
  have now: "ts_getMap (ts_run ?ops ?m) 1 = Some 11" by (simp add: ts_defs)
  show ?thesis using ts_get_pointer_stable [OF wf get keep] now by simp
qed

end
