(* ===== verification/Daemonize.thy ===== *)
theory Daemonize
  imports HK_Prelude
begin

text \<open>
  \<open>daemonize\<close> of \<^verbatim>\<open>daemon/src/main.cpp\<close>, which no function calls. A process is what the calls
  change of it; a \<open>fork\<close> fails or makes a child with a new id. The result lists the processes that
  exited, with their exit codes, and the process that returns from the function, if any. The
  results of \<open>chdir\<close> and \<open>freopen\<close> are ignored by the code; the model takes the case that they
  succeed.
\<close>

record process =
  proc_id :: int
  session :: int
  cwd :: string
  std_files :: "string list"
    \<comment> \<open>files of the standard input, output and error\<close>

datatype fork_result = ForkFailed | Forked int

definition EXIT_SUCCESS :: int where
  "EXIT_SUCCESS = 0"

definition EXIT_FAILURE :: int where
  "EXIT_FAILURE = 1"

definition session_leader :: "process \<Rightarrow> bool" where
  "session_leader p \<longleftrightarrow> session p = proc_id p"

definition daemonize ::
  "fork_result \<Rightarrow> bool \<Rightarrow> fork_result \<Rightarrow> process \<Rightarrow> (int \<times> int) list \<times> process option" where
  "daemonize fork1 setsid_ok fork2 p =
     (case fork1 of
        ForkFailed \<Rightarrow> ([(proc_id p, EXIT_FAILURE)], None)
      | Forked pid \<Rightarrow>
          let exited = [(proc_id p, EXIT_SUCCESS)]; p = p\<lparr>proc_id := pid\<rparr> in
          if \<not> setsid_ok then (exited @ [(proc_id p, EXIT_FAILURE)], None)
          else
            let p = p\<lparr>session := proc_id p\<rparr> in
            case fork2 of
              ForkFailed \<Rightarrow> (exited @ [(proc_id p, EXIT_FAILURE)], None)
            | Forked pid2 \<Rightarrow>
                let exited = exited @ [(proc_id p, EXIT_SUCCESS)]; p = p\<lparr>proc_id := pid2\<rparr>
                in (exited, Some (p\<lparr>cwd := ''/'', std_files := replicate 3 ''/dev/null''\<rparr>)))"

text \<open>
  One process comes back, if any: the grandchild, in the session of the child that has exited, so
  that it can never acquire a terminal as a session leader would. Otherwise the process whose call
  failed has exited with an error. The function leaves all other open files as they were.
\<close>

theorem daemonize_detaches:
  assumes "proc_id p \<notin> {c1, c2}" and "c1 \<noteq> c2"
    and "fork1 \<in> {ForkFailed, Forked c1}" and "fork2 \<in> {ForkFailed, Forked c2}"
  shows "case daemonize fork1 setsid_ok fork2 p of
      (exited, Some d) \<Rightarrow> exited = [(proc_id p, EXIT_SUCCESS), (c1, EXIT_SUCCESS)] \<and>
        proc_id d = c2 \<and> session d = c1 \<and> \<not> session_leader d \<and> cwd d = ''/'' \<and>
        set (std_files d) = {''/dev/null''}
    | (exited, None) \<Rightarrow> snd (last exited) = EXIT_FAILURE \<and>
        (fork1 = ForkFailed \<or> \<not> setsid_ok \<or> fork2 = ForkFailed)"
proof -
  consider "fork1 = ForkFailed" | "fork1 = Forked c1" "\<not> setsid_ok"
    | "fork1 = Forked c1" "setsid_ok" "fork2 = ForkFailed"
    | "fork1 = Forked c1" "setsid_ok" "fork2 = Forked c2"
    using assms by blast
  then show ?thesis
    using assms(2) by cases (simp_all add: daemonize_def session_leader_def Let_def)
qed

end
