(* ===== verification/PacketInfo.thy ===== *)
theory PacketInfo
  imports HK_Prelude
begin

text \<open>
  The wire data of \<^verbatim>\<open>shared/config/NetLinkConfig.h\<close>: the struct \<open>pckt_info\<close>, its layout in memory
  (natural alignment, little-endian words, as on x86-64 Linux), the netlink header in front of
  every message, and the size macros of \<^verbatim>\<open>linux/netlink.h\<close> that the sources use. A struct in memory
  is a block of bytes: the sender stores its fields one by one into a block that held something
  before, so bytes that no store covers keep their old value.
\<close>

section \<open>struct pckt\_info\<close>

record pckt_info =
  src_ip :: u32
  dst_ip :: u32
  src_port :: u16
  dst_port :: u16
  payload_size :: u32
  proto :: char

definition PROTO_TCP :: char where "PROTO_TCP = CHR ''T''"
definition PROTO_UDP :: char where "PROTO_UDP = CHR ''U''"
definition NETLINK_USER :: nat where "NETLINK_USER = 31"
definition MAX_PAYLOAD :: nat where "MAX_PAYLOAD = 1024"

text \<open>Offsets and size follow from the field sizes by natural alignment.\<close>

definition align_up :: "nat \<Rightarrow> nat \<Rightarrow> nat" where
  "align_up a n = ((n + a - 1) div a) * a"

fun field_offsets :: "nat \<Rightarrow> nat list \<Rightarrow> nat list" where
  "field_offsets off [] = []"
| "field_offsets off (s # ss) = (let o' = align_up s off in o' # field_offsets (o' + s) ss)"

definition pckt_fields :: "nat list" where
  "pckt_fields = [4, 4, 2, 2, 4, 1]"

definition sizeof_pckt_info :: nat where
  "sizeof_pckt_info =
     align_up (Max (set pckt_fields)) (last (field_offsets 0 pckt_fields) + last pckt_fields)"

lemma pckt_layout: "field_offsets 0 pckt_fields = [0, 4, 8, 10, 12, 16]"
  by (simp add: pckt_fields_def align_up_def Let_def)

lemma sizeof_pckt_info [simp, bytes_simps]: "sizeof_pckt_info = 20"
  by (simp add: sizeof_pckt_info_def pckt_layout align_up_def) (simp add: pckt_fields_def)

text \<open>Reading a struct out of memory, field by field.\<close>

definition pckt_of_mem :: "mem \<Rightarrow> pckt_info" where
  "pckt_of_mem m =
     \<lparr>src_ip = bytes_word (load 0 4 m), dst_ip = bytes_word (load 4 4 m),
      src_port = bytes_word (load 8 2 m), dst_port = bytes_word (load 10 2 m),
      payload_size = bytes_word (load 12 4 m), proto = m ! 16\<rparr>"

text \<open>The block of a struct whose three padding bytes are \<open>pad\<close>.\<close>

definition pckt_mem :: "mem \<Rightarrow> pckt_info \<Rightarrow> mem" where
  "pckt_mem pad p =
     word_bytes (src_ip p) @ word_bytes (dst_ip p) @ word_bytes (src_port p) @
     word_bytes (dst_port p) @ word_bytes (payload_size p) @ [proto p] @ pad"

lemma length_pckt_mem [simp, bytes_simps]:
  "length pad = 3 \<Longrightarrow> length (pckt_mem pad p) = sizeof_pckt_info"
  by (simp add: pckt_mem_def)

lemma pckt_of_mem_append [bytes_simps]:
  "length m = sizeof_pckt_info \<Longrightarrow> pckt_of_mem (m @ m') = pckt_of_mem m"
  by (simp add: pckt_of_mem_def load_def nth_append)

lemma pckt_of_mem_mem [simp]: "pckt_of_mem (pckt_mem pad p) = p"
proof -
  have "bytes_word (load 0 4 (pckt_mem pad p)) = src_ip p"
    and "bytes_word (load 4 4 (pckt_mem pad p)) = dst_ip p"
    and "bytes_word (load 8 2 (pckt_mem pad p)) = src_port p"
    and "bytes_word (load 10 2 (pckt_mem pad p)) = dst_port p"
    and "bytes_word (load 12 4 (pckt_mem pad p)) = payload_size p"
    and "pckt_mem pad p ! 16 = proto p"
    by (simp_all add: pckt_mem_def load_def nth_append)
  then show ?thesis by (simp add: pckt_of_mem_def)
qed

text \<open>The fields by which packets are told apart: everything but the payload size.\<close>

type_synonym pckt_key = "u32 \<times> u32 \<times> u16 \<times> u16 \<times> char"

definition pckt_key :: "pckt_info \<Rightarrow> pckt_key" where
  "pckt_key p = (src_ip p, dst_ip p, src_port p, dst_port p, proto p)"

section \<open>The netlink header\<close>

record nlmsghdr =
  nlmsg_len :: u32
  nlmsg_type :: u16
  nlmsg_flags :: u16
  nlmsg_seq :: u32
  nlmsg_pid :: u32

definition NLMSG_HDRLEN :: nat where "NLMSG_HDRLEN = align_up 4 16"
definition NLMSG_LENGTH :: "nat \<Rightarrow> nat" where "NLMSG_LENGTH n = n + NLMSG_HDRLEN"
definition NLMSG_SPACE :: "nat \<Rightarrow> nat" where "NLMSG_SPACE n = align_up 4 (NLMSG_LENGTH n)"
definition NLMSG_DONE :: u16 where "NLMSG_DONE = 3"

lemma NLMSG_HDRLEN [simp, bytes_simps]: "NLMSG_HDRLEN = 16"
  by (simp add: NLMSG_HDRLEN_def align_up_def)

lemma NLMSG_SPACE_MAX [simp, bytes_simps]: "NLMSG_SPACE MAX_PAYLOAD = 1040"
  by (simp add: NLMSG_SPACE_def NLMSG_LENGTH_def MAX_PAYLOAD_def align_up_def)

definition hdr_mem :: "nlmsghdr \<Rightarrow> mem" where
  "hdr_mem h =
     word_bytes (nlmsg_len h) @ word_bytes (nlmsg_type h) @ word_bytes (nlmsg_flags h) @
     word_bytes (nlmsg_seq h) @ word_bytes (nlmsg_pid h)"

definition hdr_of_mem :: "mem \<Rightarrow> nlmsghdr" where
  "hdr_of_mem m =
     \<lparr>nlmsg_len = bytes_word (load 0 4 m), nlmsg_type = bytes_word (load 4 2 m),
      nlmsg_flags = bytes_word (load 6 2 m), nlmsg_seq = bytes_word (load 8 4 m),
      nlmsg_pid = bytes_word (load 12 4 m)\<rparr>"

lemma length_hdr_mem [simp, bytes_simps]: "length (hdr_mem h) = NLMSG_HDRLEN"
  by (simp add: hdr_mem_def)

lemma hdr_of_mem_mem [simp, bytes_simps]: "hdr_of_mem (hdr_mem h @ m) = h"
proof -
  have "bytes_word (load 0 4 (hdr_mem h @ m)) = nlmsg_len h"
    and "bytes_word (load 4 2 (hdr_mem h @ m)) = nlmsg_type h"
    and "bytes_word (load 6 2 (hdr_mem h @ m)) = nlmsg_flags h"
    and "bytes_word (load 8 4 (hdr_mem h @ m)) = nlmsg_seq h"
    and "bytes_word (load 12 4 (hdr_mem h @ m)) = nlmsg_pid h"
    by (simp_all add: hdr_mem_def load_def)
  then show ?thesis by (simp add: hdr_of_mem_def)
qed

definition nlmsg_data :: "mem \<Rightarrow> mem" where
  "nlmsg_data m = drop NLMSG_HDRLEN m"

lemma nlmsg_data_hdr [simp, bytes_simps]: "nlmsg_data (hdr_mem h @ m) = m"
  by (simp add: nlmsg_data_def)

section \<open>The terminate message\<close>

text \<open>
  A packet whose addresses and ports are all zero tells a receiver to stop; the protocol and the
  payload size are not looked at.
\<close>

definition is_stop_pckt :: "pckt_info \<Rightarrow> bool" where
  "is_stop_pckt p \<longleftrightarrow> dst_ip p = 0 \<and> src_ip p = 0 \<and> src_port p = 0 \<and> dst_port p = 0"

end
