(* ===== verification/Sniffer.thy ===== *)
theory Sniffer
  imports PacketInfo
begin

unbundle bit_operations_syntax

text \<open>
  \<^verbatim>\<open>kernel_module/sniffer.c\<close>: the netfilter hook that reports every TCP or UDP packet delivered to
  this host, and the netlink input function that subscribes and unsubscribes the two clients. The
  static variables of the module are the record \<open>kernel\<close>. Calls into the Linux kernel are
  arguments: one \<open>knl_env\<close> holds what the calls of one message return (the block \<open>kmalloc\<close> finds,
  with whatever it held before; whether \<open>nlmsg_new\<close> and \<open>nlmsg_put\<close> succeed; the result of
  \<open>netlink_unicast\<close>), and a \<open>sk_buff\<close> is what the accessors \<open>ip_hdr\<close>, \<open>tcp_hdr\<close>, \<open>udp_hdr\<close> and
  \<open>skb_transport_offset\<close> read from it; the code checks the length of the packet for the IP header only, and
  a transport header beyond its end is here whatever the accessor reads. A fault of the hook is thus
  the use of a null pointer. The record also keeps the messages handed to
  \<open>netlink_unicast\<close>, the log, and the numbers of memory blocks and socket buffers held.
\<close>

section \<open>State\<close>

datatype kernel_fault = NullDeref | OverRead

datatype klog_entry =
    KMallocFailed | SkbAllocFailed | HeaderFailed | UnicastFailed int
  | NullSkb | ReceivedMessage string
  | HunterSubscribed u32 | HunterUnsubscribed | DaemonSubscribed u32 | DaemonUnsubscribed
  | UnknownCommand string
  | PacketTooShort | UnsupportedProtocol "8 word"
  | PacketSeen char u32 u32 u16 u16 u32 | PacketInfoSent u32
  | ModuleLoaded | SocketFailed | SocketCreated | SocketReleased | ModuleUnloaded

record knl_env =
  env_kmalloc :: "mem option"
  env_nlmsg_new :: bool
  env_nlmsg_put :: bool
  env_unicast :: int

record kernel =
  nl_sk :: bool
  nl_sock_open :: bool
  hook_registered :: bool
  packet_hunter_subscribed :: bool
  daemon_subscribed :: bool
  packet_hunter_pid :: u32
  daemon_pid :: u32
  unicasts :: "(u32 \<times> mem \<times> int) list"
  kmallocs :: int
  skbs :: int
  klog :: "klog_entry list"

text \<open>
  \<open>nl_sk\<close> says that the pointer is not NULL, \<open>nl_sock_open\<close> and \<open>hook_registered\<close> what the kernel
  holds for the module. The static initialisers:
\<close>

definition kernel_static :: kernel where
  "kernel_static =
     \<lparr>nl_sk = False, nl_sock_open = False, hook_registered = False,
      packet_hunter_subscribed = False, daemon_subscribed = False,
      packet_hunter_pid = 0, daemon_pid = 0,
      unicasts = [], kmallocs = 0, skbs = 0, klog = []\<rparr>"

definition pr :: "klog_entry \<Rightarrow> kernel \<Rightarrow> kernel" where
  "pr e k = k\<lparr>klog := klog k @ [e]\<rparr>"

definition kfree :: "mem option \<Rightarrow> kernel \<Rightarrow> kernel" where
  "kfree b k = (if b = None then k else k\<lparr>kmallocs := kmallocs k - 1\<rparr>)"

section \<open>Building and sending a message\<close>

definition create_message ::
  "knl_env \<Rightarrow> u32 \<Rightarrow> u32 \<Rightarrow> u16 \<Rightarrow> u16 \<Rightarrow> char \<Rightarrow> kernel \<Rightarrow> mem option \<times> kernel" where
  "create_message env sip dip sport dport pr_t k =
     (case env_kmalloc env of
        None \<Rightarrow> (None, pr KMallocFailed k)
      | Some block \<Rightarrow>
          (Some (store 16 [pr_t]
            (store 10 (word_bytes dport)
              (store 8 (word_bytes sport)
                (store 4 (word_bytes dip)
                  (store 0 (word_bytes sip) block))))),
           k\<lparr>kmallocs := kmallocs k + 1\<rparr>))"

definition nlmsg_put_hdr :: nlmsghdr where
  "nlmsg_put_hdr =
     \<lparr>nlmsg_len = word_of_nat (NLMSG_LENGTH sizeof_pckt_info), nlmsg_type = NLMSG_DONE,
      nlmsg_flags = 0, nlmsg_seq = 0, nlmsg_pid = 0\<rparr>"

definition send_packet_info_to_user ::
  "knl_env \<Rightarrow> u32 \<Rightarrow> mem option \<Rightarrow> kernel \<Rightarrow> kernel_fault + kernel" where
  "send_packet_info_to_user env pid msg k =
     (if \<not> env_nlmsg_new env then Inr (pr SkbAllocFailed k)
      else
        let k1 = k\<lparr>skbs := skbs k + 1\<rparr> in
        if \<not> env_nlmsg_put env then Inr ((pr HeaderFailed k1)\<lparr>skbs := skbs k1 - 1\<rparr>)
        else
          case msg of
            None \<Rightarrow> Inl NullDeref
          | Some m \<Rightarrow>
              let res = env_unicast env;
                  k2 = k1\<lparr>unicasts := unicasts k1 @
                            [(pid, hdr_mem nlmsg_put_hdr @ load 0 sizeof_pckt_info m, res)],
                          skbs := skbs k1 - 1\<rparr>
              in Inr (if res < 0 then pr (UnicastFailed res) k2 else k2))"

definition send_stop_msg :: "knl_env \<Rightarrow> u32 \<Rightarrow> kernel \<Rightarrow> kernel_fault + kernel" where
  "send_stop_msg env pid k =
     (let (msg, k1) = create_message env 0 0 0 0 nul k in
      case send_packet_info_to_user env pid msg k1 of
        Inl f \<Rightarrow> Inl f
      | Inr k2 \<Rightarrow> Inr (kfree msg k2))"

section \<open>The netlink input function\<close>

text \<open>
  \<open>skb\<close> is the message (\<open>None\<close> for a NULL buffer). The header and the command string are read
  without a check of the length: reading past the message is the fault \<open>OverRead\<close>.
\<close>

definition nl_recv_msg :: "knl_env \<Rightarrow> mem option \<Rightarrow> kernel \<Rightarrow> kernel_fault + kernel" where
  "nl_recv_msg env skb k =
     (case skb of
        None \<Rightarrow> Inr (pr NullSkb k)
      | Some data \<Rightarrow>
          let nlh = hdr_of_mem data in
          (case c_string (nlmsg_data data) of
             None \<Rightarrow> Inl OverRead
           | Some user_msg \<Rightarrow>
               let k = pr (ReceivedMessage user_msg) k in
               if user_msg = ''packet_hunter_subscribe'' \<and> \<not> packet_hunter_subscribed k then
                 Inr (pr (HunterSubscribed (nlmsg_pid nlh))
                   (k\<lparr>packet_hunter_subscribed := True, packet_hunter_pid := nlmsg_pid nlh\<rparr>))
               else if user_msg = ''packet_hunter_unsubscribe'' then
                 (case send_stop_msg env (packet_hunter_pid k) k of
                    Inl f \<Rightarrow> Inl f
                  | Inr k \<Rightarrow> Inr (pr HunterUnsubscribed
                      (k\<lparr>packet_hunter_subscribed := False, packet_hunter_pid := 0\<rparr>)))
               else if user_msg = ''daemon_subscribe'' \<and> \<not> daemon_subscribed k then
                 Inr (pr (DaemonSubscribed (nlmsg_pid nlh))
                   (k\<lparr>daemon_subscribed := True, daemon_pid := nlmsg_pid nlh\<rparr>))
               else if user_msg = ''daemon_unsubscribe'' then
                 (case send_stop_msg env (daemon_pid k) k of
                    Inl f \<Rightarrow> Inl f
                  | Inr k \<Rightarrow> Inr (pr DaemonUnsubscribed
                      (k\<lparr>daemon_subscribed := False, daemon_pid := 0\<rparr>)))
               else Inr (pr (UnknownCommand user_msg) k)))"

section \<open>The netfilter hook\<close>

record iphdr =
  saddr :: u32
  daddr :: u32
  protocol :: "8 word"

record tcphdr =
  tcp_source :: u16
  tcp_dest :: u16
  doff :: "4 word"

record udphdr =
  udp_source :: u16
  udp_dest :: u16

record sk_buff =
  skb_len :: u32
  ip_hdr :: "iphdr option"
  tcp_hdr :: tcphdr
  udp_hdr :: udphdr
  skb_transport_offset :: u32

definition IPPROTO_TCP :: "8 word" where "IPPROTO_TCP = 6"
definition IPPROTO_UDP :: "8 word" where "IPPROTO_UDP = 17"
definition NF_DROP :: nat where "NF_DROP = 0"
definition NF_ACCEPT :: nat where "NF_ACCEPT = 1"
definition sizeof_iphdr :: u32 where "sizeof_iphdr = 20"
definition sizeof_udphdr :: u32 where "sizeof_udphdr = 8"

text \<open>Network to host byte order on a little-endian machine: the two bytes change places.\<close>

definition ntohs :: "u16 \<Rightarrow> u16" where
  "ntohs w = push_bit 8 w OR drop_bit 8 w"

text \<open>Ports, protocol letter and payload size of a packet of a supported protocol.\<close>

definition hook_ports :: "iphdr \<Rightarrow> sk_buff \<Rightarrow> (u16 \<times> u16 \<times> char \<times> u32) option" where
  "hook_ports iph skb =
     (if protocol iph = IPPROTO_TCP then
        Some (ntohs (tcp_source (tcp_hdr skb)), ntohs (tcp_dest (tcp_hdr skb)), PROTO_TCP,
              skb_len skb - skb_transport_offset skb - ucast (doff (tcp_hdr skb)) * 4)
      else if protocol iph = IPPROTO_UDP then
        Some (ntohs (udp_source (udp_hdr skb)), ntohs (udp_dest (udp_hdr skb)), PROTO_UDP,
              skb_len skb - skb_transport_offset skb - sizeof_udphdr)
      else None)"

text \<open>
  One notification of the hook: \<open>False\<close> in the result is the early return when the message could
  not be allocated.
\<close>

definition hook_notify ::
  "knl_env \<Rightarrow> u32 \<Rightarrow> u32 \<Rightarrow> u32 \<Rightarrow> u16 \<Rightarrow> u16 \<Rightarrow> char \<Rightarrow> kernel \<Rightarrow> kernel_fault + (bool \<times> kernel)"
where
  "hook_notify env pid sip dip sport dport pr_t k =
     (let (msg, k1) = create_message env sip dip sport dport pr_t k in
      if msg = None then Inr (False, k1)
      else
        case send_packet_info_to_user env pid msg k1 of
          Inl f \<Rightarrow> Inl f
        | Inr k2 \<Rightarrow> Inr (True, pr (PacketInfoSent pid) (kfree msg k2)))"

definition packet_sniffer_hook ::
  "knl_env \<Rightarrow> knl_env \<Rightarrow> sk_buff option \<Rightarrow> kernel \<Rightarrow> kernel_fault + (nat \<times> kernel)" where
  "packet_sniffer_hook env_d env_h skb_opt k =
     (case skb_opt of
        None \<Rightarrow> Inr (NF_ACCEPT, pr PacketTooShort k)
      | Some skb \<Rightarrow>
          if skb_len skb < sizeof_iphdr then Inr (NF_ACCEPT, pr PacketTooShort k)
          else
            case ip_hdr skb of
              None \<Rightarrow> Inr (NF_ACCEPT, k)
            | Some iph \<Rightarrow>
                case hook_ports iph skb of
                  None \<Rightarrow> Inr (NF_ACCEPT, pr (UnsupportedProtocol (protocol iph)) k)
                | Some (sport, dport, pr_t, payload) \<Rightarrow>
                    let sip = saddr iph; dip = daddr iph;
                        k = pr (PacketSeen pr_t sip dip sport dport payload) k
                    in
                    case (if daemon_subscribed k \<and> daemon_pid k \<noteq> 0
                          then hook_notify env_d (daemon_pid k) sip dip sport dport pr_t k
                          else Inr (True, k)) of
                      Inl f \<Rightarrow> Inl f
                    | Inr (False, k) \<Rightarrow> Inr (NF_ACCEPT, k)
                    | Inr (True, k) \<Rightarrow>
                        case (if packet_hunter_subscribed k \<and> packet_hunter_pid k \<noteq> 0
                              then hook_notify env_h (packet_hunter_pid k) sip dip sport dport pr_t k
                              else Inr (True, k)) of
                          Inl f \<Rightarrow> Inl f
                        | Inr (_, k) \<Rightarrow> Inr (NF_ACCEPT, k))"

section \<open>Loading and unloading\<close>

definition ENOMEM :: int where "ENOMEM = 12"

definition sniffer_init :: "bool \<Rightarrow> bool \<Rightarrow> kernel \<Rightarrow> int \<times> kernel" where
  "sniffer_init sock_ok reg_ok k =
     (let k1 = (pr ModuleLoaded k)\<lparr>nl_sk := sock_ok, nl_sock_open := sock_ok\<rparr> in
      if \<not> nl_sk k1 then (- ENOMEM, pr SocketFailed k1)
      else (0, (pr SocketCreated k1)\<lparr>hook_registered := reg_ok\<rparr>))"

definition sniffer_exit :: "kernel \<Rightarrow> kernel" where
  "sniffer_exit k =
     (let k1 = k\<lparr>hook_registered := False\<rparr>;
          k2 = (if nl_sk k1 then pr SocketReleased (k1\<lparr>nl_sock_open := False\<rparr>) else k1)
      in pr ModuleUnloaded k2)"


section \<open>The message on the wire\<close>

lemma create_message_some:
  assumes "env_kmalloc env = Some block" and "length block = sizeof_pckt_info"
  shows "\<exists>m. create_message env sip dip sport dport pr_t k = (Some m, k\<lparr>kmallocs := kmallocs k + 1\<rparr>) \<and>
     length m = sizeof_pckt_info \<and>
     pckt_of_mem m =
       \<lparr>src_ip = sip, dst_ip = dip, src_port = sport, dst_port = dport,
        payload_size = payload_size (pckt_of_mem block), proto = pr_t\<rparr> \<and>
     drop 17 m = drop 17 block"
proof -
  let ?m0 = "store 0 (word_bytes sip) block"
  let ?m1 = "store 4 (word_bytes dip) ?m0"
  let ?m2 = "store 8 (word_bytes sport) ?m1"
  let ?m3 = "store 10 (word_bytes dport) ?m2"
  let ?m4 = "store 16 [pr_t] ?m3"
  have len: "length ?m0 = 20" "length ?m1 = 20" "length ?m2 = 20" "length ?m3 = 20" "length ?m4 = 20"
    using assms(2) by (simp_all add: bytes_simps)
  have l0: "load 0 4 ?m4 = word_bytes sip"
    using assms(2) len by (simp add: load_store)
  have l1: "load 4 4 ?m4 = word_bytes dip"
    using assms(2) len by (simp add: load_store)
  have l2: "load 8 2 ?m4 = word_bytes sport"
    using assms(2) len by (simp add: load_store)
  have l3: "load 10 2 ?m4 = word_bytes dport"
    using assms(2) len by (simp add: load_store)
  have l4: "load 12 4 ?m4 = load 12 4 block"
    using assms(2) len by (simp add: load_store)
  have l5: "?m4 ! 16 = pr_t"
    using len by (simp add: store_def nth_append)
  have l6: "drop 17 ?m4 = drop 17 block"
    using assms(2) by (simp add: store_def)
  show ?thesis
    using assms len(5) l0 l1 l2 l3 l4 l5 l6
    by (simp add: create_message_def pckt_of_mem_def)
qed

lemma nlmsg_put_hdr_len: "nlmsg_len nlmsg_put_hdr = 36"
  by (simp add: nlmsg_put_hdr_def NLMSG_LENGTH_def)

text \<open>What one message carries, as the receiver decodes it.\<close>

definition unicast_key :: "u32 \<times> mem \<times> int \<Rightarrow> u32 \<times> pckt_key" where
  "unicast_key u = (case u of (pid, m, r) \<Rightarrow> (pid, pckt_key (pckt_of_mem (nlmsg_data m))))"

definition env_ok :: "knl_env \<Rightarrow> bool" where
  "env_ok env \<longleftrightarrow> (\<exists>b. env_kmalloc env = Some b \<and> length b = sizeof_pckt_info) \<and>
     env_nlmsg_new env \<and> env_nlmsg_put env"

text \<open>The part of the state that subscribing and loading write and sending does not.\<close>

definition same_subs :: "kernel \<Rightarrow> kernel \<Rightarrow> bool" where
  "same_subs k k' \<longleftrightarrow>
     packet_hunter_subscribed k' = packet_hunter_subscribed k \<and>
     daemon_subscribed k' = daemon_subscribed k \<and>
     packet_hunter_pid k' = packet_hunter_pid k \<and> daemon_pid k' = daemon_pid k \<and>
     nl_sk k' = nl_sk k \<and> nl_sock_open k' = nl_sock_open k \<and>
     hook_registered k' = hook_registered k"

definition balanced :: "kernel \<Rightarrow> kernel \<Rightarrow> bool" where
  "balanced k k' \<longleftrightarrow> kmallocs k' = kmallocs k \<and> skbs k' = skbs k"

lemmas frame_defs = same_subs_def balanced_def pr_def kfree_def

lemma send_frame:
  "send_packet_info_to_user env pid msg k = Inr k' \<Longrightarrow> same_subs k k' \<and> balanced k k'"
  by (auto simp: send_packet_info_to_user_def frame_defs Let_def split: if_splits option.splits)

lemma send_fault_iff:
  "send_packet_info_to_user env pid msg k = Inl f \<longleftrightarrow>
     f = NullDeref \<and> msg = None \<and> env_nlmsg_new env \<and> env_nlmsg_put env"
  by (auto simp: send_packet_info_to_user_def Let_def split: if_splits option.splits)

lemma send_ok:
  assumes "env_nlmsg_new env" and "env_nlmsg_put env" and "length m = sizeof_pckt_info"
  shows "\<exists>k'. send_packet_info_to_user env pid (Some m) k = Inr k' \<and>
     unicasts k' = unicasts k @ [(pid, hdr_mem nlmsg_put_hdr @ m, env_unicast env)]"
  using assms by (simp add: send_packet_info_to_user_def Let_def pr_def load_def)

lemma stop_frame: "send_stop_msg env pid k = Inr k' \<Longrightarrow> same_subs k k' \<and> balanced k k'"
  by (auto simp: send_stop_msg_def create_message_def frame_defs split: option.splits sum.splits
      dest!: send_frame)

lemma stop_fault_iff:
  "send_stop_msg env pid k = Inl f \<longleftrightarrow>
     f = NullDeref \<and> env_kmalloc env = None \<and> env_nlmsg_new env \<and> env_nlmsg_put env"
  by (auto simp: send_stop_msg_def create_message_def split: option.splits sum.splits
      dest: send_fault_iff [THEN iffD1])
   (simp_all add: send_packet_info_to_user_def Let_def)

lemma stop_null:
  "env_kmalloc env = None \<Longrightarrow> env_nlmsg_new env \<Longrightarrow> env_nlmsg_put env \<Longrightarrow>
    send_stop_msg env pid k = Inl NullDeref"
  by (simp add: stop_fault_iff)

lemma stop_ok:
  assumes "env_ok env"
  shows "\<exists>k' m. send_stop_msg env pid k = Inr k' \<and>
     unicasts k' = unicasts k @ [(pid, m, env_unicast env)] \<and>
     is_stop_pckt (pckt_of_mem (nlmsg_data m)) \<and> length m = 36 \<and> nlmsg_len (hdr_of_mem m) = 36"
proof -
  from assms obtain b where b: "env_kmalloc env = Some b" "length b = sizeof_pckt_info"
    and e: "env_nlmsg_new env" "env_nlmsg_put env"
    by (auto simp: env_ok_def)
  obtain m where m: "create_message env 0 0 0 0 nul k = (Some m, k\<lparr>kmallocs := kmallocs k + 1\<rparr>)"
      "length m = sizeof_pckt_info"
      "pckt_of_mem m = \<lparr>src_ip = 0, dst_ip = 0, src_port = 0, dst_port = 0,
         payload_size = payload_size (pckt_of_mem b), proto = nul\<rparr>"
    using create_message_some [OF b] by blast
  obtain k' where k': "send_packet_info_to_user env pid (Some m) (k\<lparr>kmallocs := kmallocs k + 1\<rparr>) = Inr k'"
      "unicasts k' = unicasts k @ [(pid, hdr_mem nlmsg_put_hdr @ m, env_unicast env)]"
    using send_ok [OF e m(2), of pid "k\<lparr>kmallocs := kmallocs k + 1\<rparr>"] by auto
  then show ?thesis
    using m by (simp add: send_stop_msg_def kfree_def is_stop_pckt_def nlmsg_put_hdr_len)
qed

section \<open>What the hook does\<close>

lemma notify_frame:
  "hook_notify env pid sip dip sport dport c k = Inr (b, k') \<Longrightarrow> same_subs k k' \<and> balanced k k'"
  by (auto simp: hook_notify_def create_message_def frame_defs split: option.splits sum.splits if_splits
      dest!: send_frame)

lemma notify_no_fault: "hook_notify env pid sip dip sport dport c k \<noteq> Inl f"
  by (auto simp: hook_notify_def create_message_def split: option.splits sum.splits if_splits
      dest: send_fault_iff [THEN iffD1])

lemma notify_ok:
  assumes "env_ok env"
  shows "\<exists>k' u. hook_notify env pid sip dip sport dport c k = Inr (True, k') \<and>
     unicasts k' = unicasts k @ [u] \<and> unicast_key u = (pid, sip, dip, sport, dport, c)"
proof -
  from assms obtain b where b: "env_kmalloc env = Some b" "length b = sizeof_pckt_info"
    and e: "env_nlmsg_new env" "env_nlmsg_put env"
    by (auto simp: env_ok_def)
  let ?k = "k\<lparr>kmallocs := kmallocs k + 1\<rparr>"
  obtain m where m: "create_message env sip dip sport dport c k = (Some m, ?k)"
      "length m = sizeof_pckt_info" "pckt_key (pckt_of_mem m) = (sip, dip, sport, dport, c)"
    using create_message_some [OF b, of sip dip sport dport c k] by (auto simp: pckt_key_def)
  obtain k' where "send_packet_info_to_user env pid (Some m) ?k = Inr k'"
      "unicasts k' = unicasts ?k @ [(pid, hdr_mem nlmsg_put_hdr @ m, env_unicast env)]"
    using send_ok [OF e m(2)] by blast
  then show ?thesis
    using m by (simp add: hook_notify_def kfree_def pr_def unicast_key_def)
qed

lemma same_subs_trans: "same_subs a b \<Longrightarrow> same_subs b c \<Longrightarrow> same_subs a c"
  and balanced_trans: "balanced a b \<Longrightarrow> balanced b c \<Longrightarrow> balanced a c"
  by (auto simp: same_subs_def balanced_def)

lemma same_subs_pr [simp]: "same_subs k (pr e k)"
  and balanced_pr [simp]: "balanced k (pr e k)"
  and same_subs_refl [simp]: "same_subs k k"
  and balanced_refl [simp]: "balanced k k"
  by (simp_all add: frame_defs)

lemma hook_accepts:
  "\<exists>k'. packet_sniffer_hook env_d env_h skb k = Inr (NF_ACCEPT, k') \<and> same_subs k k' \<and> balanced k k'"
proof (cases "skb = None \<or> (\<exists>s. skb = Some s \<and> (skb_len s < sizeof_iphdr \<or> ip_hdr s = None))")
  case True
  then show ?thesis by (auto simp: packet_sniffer_hook_def)
next
  case False
  then obtain s iph where "skb = Some s" "\<not> skb_len s < sizeof_iphdr" "ip_hdr s = Some iph" by auto
  then show ?thesis
    by (auto simp: packet_sniffer_hook_def Let_def notify_no_fault
        split: option.splits sum.splits bool.splits
        dest!: notify_frame intro: same_subs_trans [OF same_subs_pr] balanced_trans [OF balanced_pr]
          same_subs_trans balanced_trans)
qed

text \<open>
  C25: The sniffer is passive. Whatever packet arrives and however the kernel's allocations and
  sends turn out, the hook accepts the packet, never dereferences NULL, leaves the subscriptions
  alone, and gives back every memory block and socket buffer it took.
\<close>

theorem hook_passive:
  "\<exists>k'. packet_sniffer_hook env_d env_h skb k = Inr (NF_ACCEPT, k') \<and> same_subs k k' \<and> balanced k k'"
  by (rule hook_accepts)

text \<open>
  The specification of the report: the ports are the big-endian reading of the two bytes in the
  transport header.
\<close>

definition be16 :: "u16 \<Rightarrow> u16" where
  "be16 w = bytes_word (rev (word_bytes w))"

lemma ntohs_be16: "ntohs w = be16 w"
proof -
  let ?n = "unat w"
  have n: "?n < 2 ^ 16" using unsigned_less [of w, where 'a = nat] by simp
  have "unat (push_bit 8 w) = (?n * 256) mod 2 ^ 16"
    by (simp add: push_bit_eq_mult unat_word_ariths)
  moreover have "unat (drop_bit 8 w) = ?n div 256"
    by (simp add: drop_bit_eq_div unat_div_distrib)
  moreover have "ntohs w = push_bit 8 w + drop_bit 8 w"
    unfolding ntohs_def
    by (rule disjunctive_add [symmetric]) (auto simp: bit_simps dest: bit_imp_le_length)
  ultimately have "unat (ntohs w) = ((?n * 256) mod 2 ^ 16 + ?n div 256) mod 2 ^ 16"
    by (simp add: unat_word_ariths)
  also have "(?n * 256) mod 2 ^ 16 = (?n mod 256) * 256"
    by (simp add: mult_mod_left)
  also have "((?n mod 256) * 256 + ?n div 256) mod 2 ^ 16 = unat (be16 w)"
  proof -
    have "word_bytes w = [char_of ?n, char_of (?n div 256)]"
      by (simp add: word_bytes_def numeral_2_eq_2)
    then have "le_val (rev (word_bytes w)) = ?n div 256 mod 256 + 256 * (?n mod 256)"
      by simp
    moreover have "?n div 256 mod 256 = ?n div 256" using n by simp
    ultimately have "unat (be16 w) = (?n div 256 + 256 * (?n mod 256)) mod 2 ^ 16"
      by (simp only: be16_def bytes_word_def unat_of_nat len_num1 len_bit0 mult_1_right) simp
    then show ?thesis by (simp add: algebra_simps)
  qed
  finally show ?thesis by (simp add: word_unat_eq_iff)
qed

definition packet_report :: "sk_buff option \<Rightarrow> pckt_key option" where
  "packet_report skb =
     (case skb of
        None \<Rightarrow> None
      | Some s \<Rightarrow>
          if skb_len s < sizeof_iphdr then None
          else case ip_hdr s of
            None \<Rightarrow> None
          | Some iph \<Rightarrow>
              if protocol iph = IPPROTO_TCP then
                Some (saddr iph, daddr iph, be16 (tcp_source (tcp_hdr s)), be16 (tcp_dest (tcp_hdr s)),
                      PROTO_TCP)
              else if protocol iph = IPPROTO_UDP then
                Some (saddr iph, daddr iph, be16 (udp_source (udp_hdr s)), be16 (udp_dest (udp_hdr s)),
                      PROTO_UDP)
              else None)"

definition recipients :: "kernel \<Rightarrow> u32 list" where
  "recipients k =
     (if daemon_subscribed k \<and> daemon_pid k \<noteq> 0 then [daemon_pid k] else []) @
     (if packet_hunter_subscribed k \<and> packet_hunter_pid k \<noteq> 0 then [packet_hunter_pid k] else [])"

lemma maybe_notify_ok:
  assumes "env_ok env"
  shows "\<exists>k' us.
     (if subscribed \<and> pid \<noteq> 0 then hook_notify env pid sip dip sport dport c k else Inr (True, k)) =
       Inr (True, k') \<and>
     unicasts k' = unicasts k @ us \<and> same_subs k k' \<and>
     map unicast_key us =
       map (\<lambda>pid. (pid, sip, dip, sport, dport, c)) (if subscribed \<and> pid \<noteq> 0 then [pid] else [])"
proof (cases "subscribed \<and> pid \<noteq> 0")
  case True
  obtain k' u where n: "hook_notify env pid sip dip sport dport c k = Inr (True, k')"
      "unicasts k' = unicasts k @ [u]" "unicast_key u = (pid, sip, dip, sport, dport, c)"
    using notify_ok [OF assms] by blast
  then show ?thesis
    using True notify_frame [OF n(1)] by auto
next
  case False
  then show ?thesis by (simp only: if_False) simp
qed

lemma hook_sends:
  assumes "env_ok env_d" and "env_ok env_h"
    and "\<not> skb_len s < sizeof_iphdr" and "ip_hdr s = Some iph"
    and "hook_ports iph s = Some (sport, dport, c, pl)"
  shows "\<exists>k' us. packet_sniffer_hook env_d env_h (Some s) k = Inr (NF_ACCEPT, k') \<and>
     unicasts k' = unicasts k @ us \<and>
     map unicast_key us = map (\<lambda>pid. (pid, saddr iph, daddr iph, sport, dport, c)) (recipients k)"
proof -
  let ?k1 = "pr (PacketSeen c (saddr iph) (daddr iph) sport dport pl) k"
  let ?keys = "map (\<lambda>pid. (pid, saddr iph, daddr iph, sport, dport, c))"
  obtain k2 us1 where d: "(if daemon_subscribed ?k1 \<and> daemon_pid ?k1 \<noteq> 0
        then hook_notify env_d (daemon_pid ?k1) (saddr iph) (daddr iph) sport dport c ?k1
        else Inr (True, ?k1)) = Inr (True, k2)"
      "unicasts k2 = unicasts ?k1 @ us1" "same_subs ?k1 k2"
      "map unicast_key us1 =
         ?keys (if daemon_subscribed ?k1 \<and> daemon_pid ?k1 \<noteq> 0 then [daemon_pid ?k1] else [])"
    using maybe_notify_ok [OF assms(1)] by blast
  obtain k3 us2 where h: "(if packet_hunter_subscribed k2 \<and> packet_hunter_pid k2 \<noteq> 0
        then hook_notify env_h (packet_hunter_pid k2) (saddr iph) (daddr iph) sport dport c k2
        else Inr (True, k2)) = Inr (True, k3)"
      "unicasts k3 = unicasts k2 @ us2"
      "map unicast_key us2 = ?keys (if packet_hunter_subscribed k2 \<and> packet_hunter_pid k2 \<noteq> 0
         then [packet_hunter_pid k2] else [])"
    using maybe_notify_ok [OF assms(2)] by blast
  have "packet_sniffer_hook env_d env_h (Some s) k = Inr (NF_ACCEPT, k3)"
    using assms(3-5) d(1) h(1) by (simp add: packet_sniffer_hook_def Let_def)
  moreover have "unicasts k3 = unicasts k @ us1 @ us2"
    using d(2) h(2) by (simp add: pr_def)
  moreover have "map unicast_key (us1 @ us2) = ?keys (recipients k)"
    using d(3,4) h(3) by (simp add: recipients_def same_subs_def pr_def)
  ultimately show ?thesis by blast
qed

lemma hook_reports_eq:
  assumes "env_ok env_d" and "env_ok env_h"
  shows "\<exists>k' us. packet_sniffer_hook env_d env_h skb k = Inr (NF_ACCEPT, k') \<and>
     unicasts k' = unicasts k @ us \<and>
     map unicast_key us =
       (case packet_report skb of None \<Rightarrow> [] | Some key \<Rightarrow> map (\<lambda>pid. (pid, key)) (recipients k))"
proof (cases skb)
  case None
  then show ?thesis by (simp add: packet_sniffer_hook_def packet_report_def pr_def)
next
  case (Some s)
  show ?thesis
  proof (cases "ip_hdr s")
    case None
    then show ?thesis using Some by (simp add: packet_sniffer_hook_def packet_report_def pr_def)
  next
    case iph: (Some iph)
    show ?thesis
    proof (cases "skb_len s < sizeof_iphdr \<or> hook_ports iph s = None")
      case True
      then show ?thesis
        using Some iph
        by (auto simp: packet_sniffer_hook_def packet_report_def pr_def hook_ports_def split: if_splits)
    next
      case False
      then obtain sport dport c pl where p: "hook_ports iph s = Some (sport, dport, c, pl)" by auto
      then have "packet_report skb = Some (saddr iph, daddr iph, sport, dport, c)"
        using False Some iph
        by (auto simp: packet_report_def hook_ports_def ntohs_be16 split: if_splits)
      then show ?thesis
        using hook_sends [OF assms _ iph p, of k] False Some by simp
    qed
  qed
qed

text \<open>
  C4: When the allocations succeed, the hook sends each subscribed client exactly one message for
  every TCP or UDP packet (the daemon first), and none for any other packet. The receiver decodes
  from it the packet's addresses as they are in the IP header, its ports in host order and its
  protocol letter.
\<close>

theorem hook_reports:
  assumes "env_ok env_d" and "env_ok env_h"
  shows "\<exists>k' us. packet_sniffer_hook env_d env_h skb k = Inr (NF_ACCEPT, k') \<and>
     unicasts k' = unicasts k @ us \<and>
     map unicast_key us =
       (case packet_report skb of None \<Rightarrow> [] | Some key \<Rightarrow> map (\<lambda>pid. (pid, key)) (recipients k))"
  by (rule hook_reports_eq [OF assms])

section \<open>Subscriptions\<close>

text \<open>
  The abstract service: a table with one slot per client program. A subscription takes a free slot
  and is ignored while the slot is taken; an unsubscription frees the slot.
\<close>

datatype client = DaemonClient | HunterClient

datatype command = Subscribe client | Unsubscribe client | OtherCommand

type_synonym sub_table = "client \<Rightarrow> u32 option"

definition parse_command :: "string \<Rightarrow> command" where
  "parse_command s =
     (if s = ''packet_hunter_subscribe'' then Subscribe HunterClient
      else if s = ''packet_hunter_unsubscribe'' then Unsubscribe HunterClient
      else if s = ''daemon_subscribe'' then Subscribe DaemonClient
      else if s = ''daemon_unsubscribe'' then Unsubscribe DaemonClient
      else OtherCommand)"

fun sub_spec :: "command \<Rightarrow> u32 \<Rightarrow> sub_table \<Rightarrow> sub_table" where
  "sub_spec (Subscribe c) pid t = (if t c = None then t(c \<mapsto> pid) else t)"
| "sub_spec (Unsubscribe c) pid t = t(c := None)"
| "sub_spec OtherCommand pid t = t"

fun subs_of :: "kernel \<Rightarrow> sub_table" where
  "subs_of k DaemonClient = (if daemon_subscribed k then Some (daemon_pid k) else None)"
| "subs_of k HunterClient = (if packet_hunter_subscribed k then Some (packet_hunter_pid k) else None)"

lemma subs_of_cong: "same_subs k k' \<Longrightarrow> subs_of k' = subs_of k"
proof (rule ext)
  fix c
  assume "same_subs k k'"
  then show "subs_of k' c = subs_of k c" by (cases c) (simp_all add: same_subs_def)
qed

lemma subs_of_eqI:
  "subs_of k DaemonClient = t DaemonClient \<Longrightarrow> subs_of k HunterClient = t HunterClient \<Longrightarrow>
    subs_of k = t"
  by (rule ext) (metis client.exhaust)

text \<open>
  The input function on a terminated message, one case per command: the guards of the source
  collapsed to the parsed command.
\<close>

lemma nl_recv_cases:
  fixes k :: kernel
  assumes "c_string (nlmsg_data data) = Some s"
  defines "kr \<equiv> pr (ReceivedMessage s) k" and "sender \<equiv> nlmsg_pid (hdr_of_mem data)"
  shows "nl_recv_msg env (Some data) k =
    (case parse_command s of
       Subscribe HunterClient \<Rightarrow>
         Inr (if packet_hunter_subscribed k then pr (UnknownCommand s) kr
              else pr (HunterSubscribed sender)
                (kr\<lparr>packet_hunter_subscribed := True, packet_hunter_pid := sender\<rparr>))
     | Unsubscribe HunterClient \<Rightarrow>
         (case send_stop_msg env (packet_hunter_pid k) kr of
            Inl f \<Rightarrow> Inl f
          | Inr k' \<Rightarrow> Inr (pr HunterUnsubscribed
              (k'\<lparr>packet_hunter_subscribed := False, packet_hunter_pid := 0\<rparr>)))
     | Subscribe DaemonClient \<Rightarrow>
         Inr (if daemon_subscribed k then pr (UnknownCommand s) kr
              else pr (DaemonSubscribed sender)
                (kr\<lparr>daemon_subscribed := True, daemon_pid := sender\<rparr>))
     | Unsubscribe DaemonClient \<Rightarrow>
         (case send_stop_msg env (daemon_pid k) kr of
            Inl f \<Rightarrow> Inl f
          | Inr k' \<Rightarrow> Inr (pr DaemonUnsubscribed
              (k'\<lparr>daemon_subscribed := False, daemon_pid := 0\<rparr>)))
     | OtherCommand \<Rightarrow> Inr (pr (UnknownCommand s) kr))"
  using assms
  by (auto simp: nl_recv_msg_def Let_def parse_command_def pr_def split: sum.splits)

lemma same_subs_sel:
  "same_subs k k' \<Longrightarrow> packet_hunter_subscribed k' = packet_hunter_subscribed k \<and>
     daemon_subscribed k' = daemon_subscribed k \<and>
     packet_hunter_pid k' = packet_hunter_pid k \<and> daemon_pid k' = daemon_pid k"
  by (simp add: same_subs_def)

lemma nl_recv_subs:
  assumes "c_string (nlmsg_data data) = Some s"
    and "nl_recv_msg env (Some data) k = Inr k'"
  shows "subs_of k' = sub_spec (parse_command s) (nlmsg_pid (hdr_of_mem data)) (subs_of k)"
  using assms(2)
  by (intro subs_of_eqI)
    (auto simp: nl_recv_cases [OF assms(1)] pr_def split: command.splits client.splits
       if_splits sum.splits dest!: stop_frame [THEN conjunct1] same_subs_sel)

text \<open>
  C3: The netlink input function implements the subscription table: on every message that is a
  terminated string, whatever the message and the outcome of the kernel's calls, the table it
  leaves is the one the specification gives for the command and the sender's \<open>nlmsg_pid\<close>, unless
  the module faults. In particular a client that is subscribed cannot be displaced by another
  subscription.
\<close>

theorem nl_recv_refines:
  assumes "c_string (nlmsg_data data) = Some s"
    and "nl_recv_msg env (Some data) k = Inr k'"
  shows "subs_of k' = sub_spec (parse_command s) (nlmsg_pid (hdr_of_mem data)) (subs_of k)"
  by (rule nl_recv_subs [OF assms])

text \<open>Concrete inputs: fresh allocations and the bytes of the four commands.\<close>

definition good_env :: knl_env where
  "good_env =
     \<lparr>env_kmalloc = Some (replicate 20 CHR ''x''), env_nlmsg_new = True, env_nlmsg_put = True,
      env_unicast = 36\<rparr>"

definition cmd_bytes :: "u32 \<Rightarrow> string \<Rightarrow> mem" where
  "cmd_bytes pid s =
     hdr_mem \<lparr>nlmsg_len = 1040, nlmsg_type = 0, nlmsg_flags = 0, nlmsg_seq = 0, nlmsg_pid = pid\<rparr> @
     s @ [nul]"

lemma env_ok_good [simp]: "env_ok good_env"
  by (simp add: env_ok_def good_env_def)

lemma cmd_bytes_simps [simp]:
  "nlmsg_data (cmd_bytes pid s) = s @ [nul]"
  "nlmsg_pid (hdr_of_mem (cmd_bytes pid s)) = pid"
  by (simp_all add: cmd_bytes_def)

definition dns_reply :: sk_buff where
  "dns_reply =
     \<lparr>skb_len = 76, ip_hdr = Some \<lparr>saddr = 0x0302000A, daddr = 0x0F02000A, protocol = 17\<rparr>,
      tcp_hdr = \<lparr>tcp_source = 0, tcp_dest = 0, doff = 0\<rparr>,
      udp_hdr = \<lparr>udp_source = 0x3500, udp_dest = 0xF8AC\<rparr>, skb_transport_offset = 20\<rparr>"

lemma be16_dns: "be16 0x3500 = 53" "be16 0xF8AC = 44280"
  by (simp_all flip: ntohs_be16 add: ntohs_def)

theorem hook_reports_witness:
  "\<exists>k' us. packet_sniffer_hook good_env good_env (Some dns_reply)
       (kernel_static\<lparr>daemon_subscribed := True, daemon_pid := 812\<rparr>) = Inr (NF_ACCEPT, k') \<and>
     unicasts k' = us \<and>
     map unicast_key us = [(812, 0x0302000A, 0x0F02000A, 53, 44280, CHR ''U'')]"
  using hook_reports [OF env_ok_good env_ok_good, of "Some dns_reply"
      "kernel_static\<lparr>daemon_subscribed := True, daemon_pid := 812\<rparr>"]
  by (simp add: packet_report_def dns_reply_def sizeof_iphdr_def IPPROTO_TCP_def IPPROTO_UDP_def
      be16_dns recipients_def kernel_static_def PROTO_UDP_def)

theorem nl_recv_refines_witness:
  "\<exists>k'. nl_recv_msg good_env (Some (cmd_bytes 812 ''daemon_subscribe'')) kernel_static = Inr k' \<and>
     subs_of k' = (\<lambda>c. if c = DaemonClient then Some 812 else None)"
proof -
  let ?d = "cmd_bytes 812 ''daemon_subscribe''"
  have s: "c_string (nlmsg_data ?d) = Some ''daemon_subscribe''"
    by (simp add: c_string_def nul_def)
  obtain k' where k': "nl_recv_msg good_env (Some ?d) kernel_static = Inr k'"
    by (simp add: nl_recv_cases [OF s] parse_command_def)
  have "subs_of kernel_static c = None" for c
    by (cases c) (simp_all add: kernel_static_def)
  moreover have "\<not> daemon_subscribed kernel_static"
    by (simp add: kernel_static_def)
  ultimately have "subs_of k' = (\<lambda>c. if c = DaemonClient then Some 812 else None)"
    using nl_recv_refines [OF s k'] by (auto simp: parse_command_def)
  with k' show ?thesis by blast
qed

lemma nl_recv_faults:
  "nl_recv_msg env (Some data) k = Inl f \<longleftrightarrow>
     (case c_string (nlmsg_data data) of
        None \<Rightarrow> f = OverRead
      | Some s \<Rightarrow> parse_command s \<in> range Unsubscribe \<and> f = NullDeref \<and>
          env_kmalloc env = None \<and> env_nlmsg_new env \<and> env_nlmsg_put env)"
proof (cases "c_string (nlmsg_data data)")
  case None
  then show ?thesis by (auto simp: nl_recv_msg_def Let_def)
next
  case (Some s)
  show ?thesis
  proof (cases "parse_command s")
    case (Unsubscribe c)
    then show ?thesis
      using Some
      by (cases c) (auto simp: nl_recv_cases [OF Some] stop_fault_iff stop_null split: sum.splits)
  qed (auto simp: Some nl_recv_cases [OF Some] split: client.splits)
qed

text \<open>
  C36: Exactly when the input function faults: on a message with no terminating NUL, which any
  process can send, and on an unsubscription while \<open>kmalloc\<close> fails and the socket buffer can be
  had, because \<open>send_stop_msg\<close> does not check what \<open>create_message\<close> returns.
\<close>

theorem nl_recv_fault_iff:
  "nl_recv_msg env (Some data) k = Inl f \<longleftrightarrow>
     (case c_string (nlmsg_data data) of
        None \<Rightarrow> f = OverRead
      | Some s \<Rightarrow> parse_command s \<in> range Unsubscribe \<and> f = NullDeref \<and>
          env_kmalloc env = None \<and> env_nlmsg_new env \<and> env_nlmsg_put env)"
  by (rule nl_recv_faults)

definition slot_pid :: "client \<Rightarrow> kernel \<Rightarrow> u32" where
  "slot_pid c k = (case c of DaemonClient \<Rightarrow> daemon_pid k | HunterClient \<Rightarrow> packet_hunter_pid k)"

lemma nl_recv_stop:
  assumes "c_string (nlmsg_data data) = Some s" and "parse_command s = Unsubscribe c" and "env_ok env"
  shows "\<exists>k' m. nl_recv_msg env (Some data) k = Inr k' \<and> subs_of k' c = None \<and>
     unicasts k' = unicasts k @ [(slot_pid c k, m, env_unicast env)] \<and>
     is_stop_pckt (pckt_of_mem (nlmsg_data m)) \<and> length m = 36 \<and> nlmsg_len (hdr_of_mem m) = 36"
proof -
  obtain k1 m where "send_stop_msg env (slot_pid c k) (pr (ReceivedMessage s) k) = Inr k1"
      "unicasts k1 = unicasts k @ [(slot_pid c k, m, env_unicast env)]"
      "is_stop_pckt (pckt_of_mem (nlmsg_data m)) \<and> length m = 36 \<and> nlmsg_len (hdr_of_mem m) = 36"
    using stop_ok [OF assms(3), of "slot_pid c k" "pr (ReceivedMessage s) k"]
    by (auto simp: pr_def)
  then show ?thesis
    using assms(2) by (cases c) (simp_all add: nl_recv_cases [OF assms(1)] slot_pid_def pr_def)
qed

text \<open>
  An unsubscription tells the subscriber to stop: one message goes to the port of the slot,
  and the receiver decodes it as the all-zero packet on which its receive loop ends.
\<close>

theorem unsubscribe_sends_stop:
  assumes "c_string (nlmsg_data data) = Some s" and "parse_command s = Unsubscribe c" and "env_ok env"
  shows "\<exists>k' m. nl_recv_msg env (Some data) k = Inr k' \<and> subs_of k' c = None \<and>
     unicasts k' = unicasts k @ [(slot_pid c k, m, env_unicast env)] \<and>
     is_stop_pckt (pckt_of_mem (nlmsg_data m))"
  using nl_recv_stop [OF assms, of k] by blast

theorem unsubscribe_sends_stop_witness:
  "\<exists>k' m. nl_recv_msg good_env (Some (cmd_bytes 812 ''daemon_unsubscribe''))
       (kernel_static\<lparr>daemon_subscribed := True, daemon_pid := 812\<rparr>) = Inr k' \<and>
     unicasts k' = [(812, m, 36)] \<and> is_stop_pckt (pckt_of_mem (nlmsg_data m))"
proof -
  have s: "c_string (nlmsg_data (cmd_bytes 812 ''daemon_unsubscribe'')) = Some ''daemon_unsubscribe''"
    by (simp add: c_string_def nul_def)
  have p: "parse_command ''daemon_unsubscribe'' = Unsubscribe DaemonClient"
    by (simp add: parse_command_def)
  show ?thesis
    using unsubscribe_sends_stop [OF s p env_ok_good,
        of "kernel_static\<lparr>daemon_subscribed := True, daemon_pid := 812\<rparr>"]
    by (auto simp: slot_pid_def kernel_static_def good_env_def)
qed

text \<open>
  \<open>create_message\<close> stores five of the six fields. The message carries them exactly, but its
  payload size and its padding bytes are whatever the kernel memory block held before, and reach
  the user process.
\<close>

theorem create_message_contents:
  assumes "env_kmalloc env = Some block" and "length block = sizeof_pckt_info"
  shows "\<exists>m. fst (create_message env sip dip sport dport pr_t k) = Some m \<and>
     pckt_key (pckt_of_mem m) = (sip, dip, sport, dport, pr_t) \<and>
     payload_size (pckt_of_mem m) = payload_size (pckt_of_mem block) \<and>
     drop 17 m = drop 17 block"
  using create_message_some [OF assms, of sip dip sport dport pr_t k] by (auto simp: pckt_key_def)

theorem create_message_contents_witness:
  "\<exists>m. fst (create_message good_env 1 2 3 4 CHR ''T'' kernel_static) = Some m \<and>
     payload_size (pckt_of_mem m) = 0x78787878 \<and> drop 17 m = ''xxx''"
proof -
  have r: "replicate 20 CHR ''x'' = ''xxxxxxxxxxxxxxxxxxxx''"
    by (simp add: numeral_eq_Suc)
  have "payload_size (pckt_of_mem (replicate 20 CHR ''x'')) = 0x78787878"
    unfolding r by (simp add: pckt_of_mem_def load_def bytes_word_def)
  moreover have "drop 17 (replicate 20 CHR ''x'') = ''xxx''"
    unfolding r by simp
  ultimately show ?thesis
    using create_message_contents [of good_env "replicate 20 CHR ''x''" 1 2 3 4 "CHR ''T''" kernel_static]
    by (auto simp: good_env_def)
qed

section \<open>Runs of the module\<close>

text \<open>
  \<open>kmalloc\<close> returns blocks of the size it is asked for. A run starts with a successful
  \<open>sniffer_init\<close>; then netlink messages and packets arrive in any order, and the module may be
  unloaded.
\<close>

definition env_sized :: "knl_env \<Rightarrow> bool" where
  "env_sized env \<longleftrightarrow>
     (case env_kmalloc env of None \<Rightarrow> True | Some b \<Rightarrow> length b = sizeof_pckt_info)"

definition kernel_loaded :: "kernel \<Rightarrow> bool" where
  "kernel_loaded k \<longleftrightarrow>
     k \<in> {snd (sniffer_init True True kernel_static), snd (sniffer_init True False kernel_static)}"

inductive kstep :: "kernel \<Rightarrow> kernel \<Rightarrow> bool" where
  recv: "nl_sock_open k \<Longrightarrow> env_sized env \<Longrightarrow> nl_recv_msg env skb k = Inr k' \<Longrightarrow> kstep k k'"
| packet: "hook_registered k \<Longrightarrow> env_sized e1 \<Longrightarrow> env_sized e2 \<Longrightarrow>
    packet_sniffer_hook e1 e2 p k = Inr (v, k') \<Longrightarrow> kstep k k'"
| unload: "kstep k (sniffer_exit k)"

inductive_cases kstepE: "kstep k k'"

definition well_formed_unicast :: "u32 \<times> mem \<times> int \<Rightarrow> bool" where
  "well_formed_unicast u \<longleftrightarrow>
     (case u of (pid, m, r) \<Rightarrow> length m = 36 \<and> nlmsg_len (hdr_of_mem m) = 36)"

definition kernel_inv :: "kernel \<Rightarrow> bool" where
  "kernel_inv k \<longleftrightarrow>
     (\<not> packet_hunter_subscribed k \<longrightarrow> packet_hunter_pid k = 0) \<and>
     (\<not> daemon_subscribed k \<longrightarrow> daemon_pid k = 0) \<and>
     kmallocs k = 0 \<and> skbs k = 0 \<and>
     (hook_registered k \<longrightarrow> nl_sock_open k) \<and> (nl_sock_open k \<longrightarrow> nl_sk k) \<and>
     list_all well_formed_unicast (unicasts k)"

lemma create_message_length:
  "env_sized env \<Longrightarrow> create_message env sip dip sp dp c k = (Some m, k') \<Longrightarrow> length m = 20"
  using create_message_some [of env _ sip dip sp dp c k]
  by (auto simp: env_sized_def create_message_def split: option.splits)

lemma send_unicasts:
  "send_packet_info_to_user env pid msg k = Inr k' \<Longrightarrow> (\<And>m. msg = Some m \<Longrightarrow> length m = 20) \<Longrightarrow>
    list_all well_formed_unicast (unicasts k) \<Longrightarrow> list_all well_formed_unicast (unicasts k')"
  by (auto simp: send_packet_info_to_user_def Let_def pr_def well_formed_unicast_def load_def
      nlmsg_put_hdr_len split: if_splits option.splits)

lemma create_message_unicasts: "unicasts (snd (create_message env sip dip sp dp c k)) = unicasts k"
  by (simp add: create_message_def pr_def split: option.split)

lemma stop_unicasts:
  assumes "env_sized env" and "send_stop_msg env pid k = Inr k'"
    and "list_all well_formed_unicast (unicasts k)"
  shows "list_all well_formed_unicast (unicasts k')"
proof -
  obtain msg k1 where c: "create_message env 0 0 0 0 nul k = (msg, k1)" by fastforce
  with assms(2) obtain k2 where s: "send_packet_info_to_user env pid msg k1 = Inr k2"
      and k': "k' = kfree msg k2"
    by (auto simp: send_stop_msg_def split: sum.splits)
  have "list_all well_formed_unicast (unicasts k1)"
    using create_message_unicasts [of env 0 0 0 0 nul k] c assms(3) by simp
  then have "list_all well_formed_unicast (unicasts k2)"
    using send_unicasts [OF s] create_message_length [OF assms(1)] c by blast
  then show ?thesis by (simp add: k' kfree_def)
qed

lemma notify_unicasts:
  assumes "env_sized env" and "hook_notify env pid sip dip sp dp c k = Inr (b, k')"
    and "list_all well_formed_unicast (unicasts k)"
  shows "list_all well_formed_unicast (unicasts k')"
proof -
  obtain msg k1 where c: "create_message env sip dip sp dp c k = (msg, k1)" by fastforce
  have 1: "list_all well_formed_unicast (unicasts k1)"
    using create_message_unicasts [of env sip dip sp dp c k] c assms(3) by simp
  show ?thesis
  proof (cases msg)
    case None
    then show ?thesis using assms(2) c 1 by (simp add: hook_notify_def)
  next
    case (Some m)
    with assms(2) c obtain k2 where s: "send_packet_info_to_user env pid msg k1 = Inr k2"
        and k': "k' = pr (PacketInfoSent pid) (kfree msg k2)"
      by (auto simp: hook_notify_def split: sum.splits)
    have "list_all well_formed_unicast (unicasts k2)"
      using send_unicasts [OF s _ 1] create_message_length [OF assms(1)] c by blast
    then show ?thesis by (simp add: k' kfree_def pr_def)
  qed
qed

lemma notify_unicasts_imp:
  "hook_notify env pid sip dip sp dp c k = Inr (b, k') \<Longrightarrow> env_sized env \<Longrightarrow>
    list_all well_formed_unicast (unicasts k) \<longrightarrow> list_all well_formed_unicast (unicasts k')"
  using notify_unicasts by blast

lemma unicasts_pr [simp]: "unicasts (pr e k) = unicasts k"
  by (simp add: pr_def)

lemma hook_unicasts:
  assumes "env_sized e1" and "env_sized e2" and "packet_sniffer_hook e1 e2 p k = Inr (v, k')"
    and "list_all well_formed_unicast (unicasts k)"
  shows "list_all well_formed_unicast (unicasts k')"
  using assms
  by (auto simp: packet_sniffer_hook_def Let_def notify_no_fault
      split: option.splits if_splits sum.splits bool.splits dest!: notify_unicasts_imp)

lemma kernel_inv_loaded: "kernel_loaded k \<Longrightarrow> kernel_inv k"
  by (auto simp: kernel_loaded_def kernel_inv_def sniffer_init_def kernel_static_def pr_def)

lemma kernel_inv_frame:
  "kernel_inv k \<Longrightarrow> same_subs k k' \<Longrightarrow> balanced k k' \<Longrightarrow>
    list_all well_formed_unicast (unicasts k') \<Longrightarrow> kernel_inv k'"
  by (simp add: kernel_inv_def same_subs_def balanced_def)

lemma kernel_inv_pr: "kernel_inv (pr e k) = kernel_inv k"
  by (simp add: kernel_inv_def pr_def)

lemma kernel_inv_stop:
  "kernel_inv k \<Longrightarrow> env_sized env \<Longrightarrow> send_stop_msg env pid k = Inr k' \<Longrightarrow> kernel_inv k'"
  using kernel_inv_frame stop_frame stop_unicasts by (metis kernel_inv_def)

lemma kernel_inv_stop_pr:
  "send_stop_msg env pid (pr e k) = Inr k' \<Longrightarrow> kernel_inv k \<Longrightarrow> env_sized env \<Longrightarrow> kernel_inv k'"
  using kernel_inv_stop kernel_inv_pr by blast

lemma kernel_inv_subs:
  "kernel_inv k \<Longrightarrow> kernel_inv (k\<lparr>packet_hunter_subscribed := True, packet_hunter_pid := p\<rparr>)"
  "kernel_inv k \<Longrightarrow> kernel_inv (k\<lparr>packet_hunter_subscribed := False, packet_hunter_pid := 0\<rparr>)"
  "kernel_inv k \<Longrightarrow> kernel_inv (k\<lparr>daemon_subscribed := True, daemon_pid := p\<rparr>)"
  "kernel_inv k \<Longrightarrow> kernel_inv (k\<lparr>daemon_subscribed := False, daemon_pid := 0\<rparr>)"
  by (simp_all add: kernel_inv_def)

lemma kernel_inv_recv:
  assumes "kernel_inv k" and "env_sized env" and "nl_recv_msg env skb k = Inr k'"
  shows "kernel_inv k'"
proof (cases skb)
  case None
  then show ?thesis using assms by (auto simp: nl_recv_msg_def kernel_inv_pr)
next
  case (Some data)
  then obtain s where s: "c_string (nlmsg_data data) = Some s"
    using assms(3) by (cases "c_string (nlmsg_data data)") (auto simp: nl_recv_msg_def Let_def)
  show ?thesis
    using assms Some
    by (auto simp: nl_recv_cases [OF s] kernel_inv_pr kernel_inv_subs
        split: command.splits client.splits sum.splits if_splits
        dest: kernel_inv_stop_pr)
qed

lemma kernel_inv_hook:
  assumes "kernel_inv k" and "env_sized e1" and "env_sized e2"
    and "packet_sniffer_hook e1 e2 p k = Inr (v, k')"
  shows "kernel_inv k'"
proof -
  have "same_subs k k' \<and> balanced k k'"
    using hook_accepts [of e1 e2 p k] assms(4) by auto
  moreover have "list_all well_formed_unicast (unicasts k')"
    using hook_unicasts [OF assms(2-4)] assms(1) by (simp add: kernel_inv_def)
  ultimately show ?thesis
    using kernel_inv_frame [OF assms(1)] by blast
qed

lemma kernel_inv_exit: "kernel_inv k \<Longrightarrow> kernel_inv (sniffer_exit k)"
  by (auto simp: kernel_inv_def sniffer_exit_def Let_def pr_def)

interpretation knl: transition_invariant kernel_loaded kstep kernel_inv
  by unfold_locales
    (auto elim!: kstepE intro: kernel_inv_loaded kernel_inv_recv kernel_inv_hook kernel_inv_exit)

text \<open>
  C26: In every reachable state of the loaded module a free slot holds port 0, so the hook never
  sends to a stale client; no memory block or socket buffer is held between two calls; the hook is
  only registered while the netlink socket is open; and every message ever sent has the length and
  the header length that the user-space receiver insists on.
\<close>

theorem kernel_invariant:
  assumes "kernel_loaded k0" and "kstep\<^sup>*\<^sup>* k0 k"
  shows "(\<not> packet_hunter_subscribed k \<longrightarrow> packet_hunter_pid k = 0) \<and>
    (\<not> daemon_subscribed k \<longrightarrow> daemon_pid k = 0) \<and>
    kmallocs k = 0 \<and> skbs k = 0 \<and>
    (hook_registered k \<longrightarrow> nl_sock_open k) \<and>
    (\<forall>(pid, m, r) \<in> set (unicasts k). length m = 36 \<and> nlmsg_len (hdr_of_mem m) = 36)"
  using knl.inv_reachable [OF assms]
  by (auto simp: kernel_inv_def list_all_iff well_formed_unicast_def)

theorem kernel_invariant_witness:
  "\<exists>k. kernel_loaded (snd (sniffer_init True True kernel_static)) \<and>
     kstep\<^sup>*\<^sup>* (snd (sniffer_init True True kernel_static)) k \<and>
     daemon_subscribed k \<and> packet_hunter_pid k = 0 \<and> kmallocs k = 0"
proof -
  let ?k0 = "snd (sniffer_init True True kernel_static)"
  have s: "c_string (nlmsg_data (cmd_bytes 812 ''daemon_subscribe'')) = Some ''daemon_subscribe''"
    by (simp add: c_string_def nul_def)
  have l: "kernel_loaded ?k0" by (simp add: kernel_loaded_def)
  have sock: "nl_sock_open ?k0" "\<not> daemon_subscribed ?k0" "\<not> packet_hunter_subscribed ?k0"
    by (simp_all add: sniffer_init_def kernel_static_def pr_def)
  obtain k where k: "nl_recv_msg good_env (Some (cmd_bytes 812 ''daemon_subscribe'')) ?k0 = Inr k"
      "daemon_subscribed k" "\<not> packet_hunter_subscribed k"
    using sock(2,3) by (auto simp: nl_recv_cases [OF s] parse_command_def pr_def)
  have "env_sized good_env" by (simp add: env_sized_def good_env_def)
  then have "kstep\<^sup>*\<^sup>* ?k0 k"
    using kstep.recv [OF sock(1) _ k(1)] by blast
  then show ?thesis using kernel_invariant [OF l] l k(2,3) by blast
qed

end
