(* ===== verification/SnifferMessages.thy ===== *)
theory SnifferMessages
  imports Sniffer
begin

text \<open>
  What the kernel module adds to the messages it has sent, for every outcome of its allocations:
  at most one report per recipient from the hook, at most one terminate message from the input
  function, and only on an unsubscription.
\<close>

definition adds :: "(u32 \<times> mem \<times> int \<Rightarrow> bool) \<Rightarrow> kernel \<Rightarrow> kernel \<Rightarrow> bool" where
  "adds P k k' \<longleftrightarrow> (\<exists>us. unicasts k' = unicasts k @ us \<and> (\<forall>u \<in> set us. P u))"

lemma adds_refl: "unicasts k' = unicasts k \<Longrightarrow> adds P k k'"
  by (simp add: adds_def)

lemma adds_trans: "adds P a b \<Longrightarrow> adds P b c \<Longrightarrow> adds P a c"
  by (auto simp: adds_def)

lemma adds_mono: "adds P a b \<Longrightarrow> (\<And>u. P u \<Longrightarrow> Q u) \<Longrightarrow> adds Q a b"
  by (auto simp: adds_def)

lemma adds_cong: "adds P a b \<Longrightarrow> unicasts a' = unicasts a \<Longrightarrow> unicasts b' = unicasts b \<Longrightarrow> adds P a' b'"
  by (simp add: adds_def)

lemma adds_set: "adds P a b \<Longrightarrow> u \<in> set (unicasts b) \<Longrightarrow> u \<in> set (unicasts a) \<or> P u"
  by (auto simp: adds_def)

lemma send_adds:
  "send_packet_info_to_user env pid msg k = Inr k' \<Longrightarrow> (\<And>m. msg = Some m \<Longrightarrow> length m = 20) \<Longrightarrow>
    adds (\<lambda>(q, d, r). q = pid \<and> (\<exists>m. msg = Some m \<and> nlmsg_data d = m)) k k'"
  by (auto simp: send_packet_info_to_user_def Let_def pr_def adds_def load_def
      split: if_splits option.splits)

lemma created:
  assumes "env_sized env" and "create_message env sip dip sp dp c k = (Some m, k')"
  shows "length m = 20 \<and> pckt_key (pckt_of_mem m) = (sip, dip, sp, dp, c)"
proof -
  obtain b where b: "env_kmalloc env = Some b" "length b = sizeof_pckt_info"
    using assms by (auto simp: env_sized_def create_message_def split: option.splits)
  show ?thesis
    using create_message_some [OF b, of sip dip sp dp c k] assms(2) by (auto simp: pckt_key_def)
qed

text \<open>Creating and sending one message, as the hook and the input function both do it.\<close>

lemma created_and_sent:
  assumes "env_sized env" and c: "create_message env sip dip sp dp c k = (msg, k1)"
    and s: "send_packet_info_to_user env pid msg k1 = Inr k2"
  shows "adds (\<lambda>u. unicast_key u = (pid, sip, dip, sp, dp, c)) k k2"
proof -
  have m: "msg = Some m \<Longrightarrow> length m = 20 \<and> pckt_key (pckt_of_mem m) = (sip, dip, sp, dp, c)" for m
    using created [OF assms(1)] c by blast
  have "unicasts k1 = unicasts k"
    using create_message_unicasts [of env sip dip sp dp c k] c by simp
  moreover have "adds (\<lambda>(q, d, r). q = pid \<and> (\<exists>m. msg = Some m \<and> nlmsg_data d = m)) k1 k2"
    using send_adds [OF s] m by blast
  ultimately show ?thesis
    using m by (elim adds_mono [OF adds_cong]) (auto simp: unicast_key_def)
qed

lemma notify_adds:
  assumes "hook_notify env pid sip dip sp dp c k = Inr (b, k')" and "env_sized env"
  shows "adds (\<lambda>u. unicast_key u = (pid, sip, dip, sp, dp, c)) k k'"
proof -
  obtain msg k1 where c: "create_message env sip dip sp dp c k = (msg, k1)" by fastforce
  show ?thesis
  proof (cases msg)
    case None
    have "unicasts k1 = unicasts k"
      using create_message_unicasts [of env sip dip sp dp c k] c by simp
    then show ?thesis
      using assms(1) c None by (auto simp: hook_notify_def intro: adds_refl)
  next
    case (Some m)
    with assms(1) c obtain k2 where s: "send_packet_info_to_user env pid msg k1 = Inr k2"
        and k': "k' = pr (PacketInfoSent pid) (kfree msg k2)"
      by (auto simp: hook_notify_def split: sum.splits)
    show ?thesis
      using created_and_sent [OF assms(2) c s] k' by (auto elim: adds_cong simp: kfree_def)
  qed
qed

lemma stop_adds:
  assumes "send_stop_msg env pid k = Inr k'" and "env_sized env"
  shows "adds (\<lambda>u. unicast_key u = (pid, 0, 0, 0, 0, nul)) k k'"
proof -
  obtain msg k1 where c: "create_message env 0 0 0 0 nul k = (msg, k1)" by fastforce
  with assms(1) obtain k2 where s: "send_packet_info_to_user env pid msg k1 = Inr k2"
      and k': "k' = kfree msg k2"
    by (auto simp: send_stop_msg_def split: sum.splits)
  show ?thesis
    using created_and_sent [OF assms(2) c s] k' by (auto elim: adds_cong simp: kfree_def)
qed

text \<open>One of the two reports of the hook.\<close>

lemma maybe_notify_adds:
  assumes "(if subscribed \<and> pid \<noteq> 0 then hook_notify env pid sip dip sp dp c k else Inr (True, k)) =
      Inr (b, k')" and "env_sized env"
  shows "adds (\<lambda>u. unicast_key u = (pid, sip, dip, sp, dp, c) \<and> subscribed \<and> pid \<noteq> 0) k k' \<and>
    same_subs k k'"
proof (cases "subscribed \<and> pid \<noteq> 0")
  case True
  with assms have n: "hook_notify env pid sip dip sp dp c k = Inr (b, k')" by simp
  show ?thesis
    using adds_mono [OF notify_adds [OF n assms(2)]] True notify_frame [OF n] by simp
next
  case False
  then have "(True, k) = (b, k')" using assms(1) by (simp only: if_False sum.inject)
  then show ?thesis by (simp add: adds_refl same_subs_def)
qed

text \<open>What the hook does with a packet it reports: the daemon's message, then the hunter's.\<close>

lemma hook_notifies:
  assumes h: "packet_sniffer_hook e1 e2 skb k = Inr (v, k')"
    and r: "packet_report skb = Some (sip, dip, sport, dport, c)"
  obtains k1 b k2 where "same_subs k k1" "unicasts k1 = unicasts k"
    "(if daemon_subscribed k1 \<and> daemon_pid k1 \<noteq> 0
      then hook_notify e1 (daemon_pid k1) sip dip sport dport c k1 else Inr (True, k1)) = Inr (b, k2)"
    "if b then \<exists>b'. (if packet_hunter_subscribed k2 \<and> packet_hunter_pid k2 \<noteq> 0
        then hook_notify e2 (packet_hunter_pid k2) sip dip sport dport c k2 else Inr (True, k2)) = Inr (b', k')
     else k' = k2"
proof -
  obtain s iph pl where p: "skb = Some s" "\<not> skb_len s < sizeof_iphdr"
      "ip_hdr s = Some iph" "hook_ports iph s = Some (sport, dport, c, pl)" "sip = saddr iph" "dip = daddr iph"
    using r by (auto simp: packet_report_def hook_ports_def ntohs_be16 split: option.splits if_splits)
  let ?k1 = "pr (PacketSeen c sip dip sport dport pl) k"
  obtain b k2 where d: "(if daemon_subscribed ?k1 \<and> daemon_pid ?k1 \<noteq> 0
        then hook_notify e1 (daemon_pid ?k1) sip dip sport dport c ?k1
        else Inr (True, ?k1)) = Inr (b, k2)"
    using h p notify_no_fault
    by (fastforce simp: packet_sniffer_hook_def Let_def split: sum.splits)
  have "if b then \<exists>b'. (if packet_hunter_subscribed k2 \<and> packet_hunter_pid k2 \<noteq> 0
        then hook_notify e2 (packet_hunter_pid k2) sip dip sport dport c k2 else Inr (True, k2)) = Inr (b', k')
     else k' = k2"
    using h p d by (auto simp: packet_sniffer_hook_def Let_def split: sum.splits prod.splits)
  then show thesis
    using that [OF _ _ d] by (simp add: same_subs_def pr_def)
qed

lemma hook_adds:
  assumes "packet_sniffer_hook e1 e2 skb k = Inr (v, k')" and "env_sized e1" and "env_sized e2"
  shows "adds (\<lambda>u. \<exists>pid \<in> set (recipients k). \<exists>key. packet_report skb = Some key \<and>
    unicast_key u = (pid, key)) k k'"
proof (cases "packet_report skb")
  case None
  then have "unicasts k' = unicasts k"
    using assms(1)
    by (auto simp: packet_sniffer_hook_def packet_report_def hook_ports_def
        split: option.splits if_splits)
  then show ?thesis by (rule adds_refl)
next
  case (Some key)
  obtain sip dip sport dport c where key: "key = (sip, dip, sport, dport, c)" by (cases key) auto
  let ?P = "\<lambda>u. \<exists>pid \<in> set (recipients k). \<exists>key. packet_report skb = Some key \<and> unicast_key u = (pid, key)"
  obtain k1 b k2 where k1: "same_subs k k1" "unicasts k1 = unicasts k"
    and d: "(if daemon_subscribed k1 \<and> daemon_pid k1 \<noteq> 0
      then hook_notify e1 (daemon_pid k1) sip dip sport dport c k1 else Inr (True, k1)) = Inr (b, k2)"
    and rest: "if b then \<exists>b'. (if packet_hunter_subscribed k2 \<and> packet_hunter_pid k2 \<noteq> 0
        then hook_notify e2 (packet_hunter_pid k2) sip dip sport dport c k2 else Inr (True, k2)) = Inr (b', k')
      else k' = k2"
    using hook_notifies [OF assms(1) Some [unfolded key]] .
  note 1 = maybe_notify_adds [OF d assms(2)]
  have "adds ?P k1 k2"
    by (rule adds_mono [OF conjunct1 [OF 1]])
      (use Some key k1(1) in \<open>auto simp: recipients_def same_subs_def\<close>)
  then have P1: "adds ?P k k2"
    by (rule adds_cong) (simp_all add: k1(2))
  show ?thesis
  proof (cases b)
    case False
    then show ?thesis using P1 rest by simp
  next
    case True
    then obtain b' where h: "(if packet_hunter_subscribed k2 \<and> packet_hunter_pid k2 \<noteq> 0
        then hook_notify e2 (packet_hunter_pid k2) sip dip sport dport c k2 else Inr (True, k2)) = Inr (b', k')"
      using rest by auto
    have "adds ?P k2 k'"
      by (rule adds_mono [OF conjunct1 [OF maybe_notify_adds [OF h assms(3)]]])
        (use Some key k1(1) 1 in \<open>auto simp: recipients_def same_subs_def\<close>)
    then show ?thesis using P1 by (rule adds_trans [rotated])
  qed
qed

lemma recv_adds:
  assumes "nl_recv_msg env (Some data) k = Inr k'" and "env_sized env"
    and s: "c_string (nlmsg_data data) = Some s"
  shows "adds (\<lambda>u. \<exists>c. parse_command s = Unsubscribe c \<and> unicast_key u = (slot_pid c k, 0, 0, 0, 0, nul)) k k'"
proof -
  let ?P = "\<lambda>c u. unicast_key u = (slot_pid c k, 0, 0, 0, 0, nul)"
  have stop: "adds (?P c) k k1" if "send_stop_msg env (slot_pid c k) (pr e k) = Inr k1" for c e k1
    using stop_adds [OF that assms(2)] by (auto elim: adds_cong)
  show ?thesis
  proof (cases "parse_command s")
    case (Unsubscribe c)
    then obtain k1 where "send_stop_msg env (slot_pid c k) (pr (ReceivedMessage s) k) = Inr k1"
        "unicasts k' = unicasts k1"
      using assms(1)
      by (cases c) (auto simp: nl_recv_cases [OF s] slot_pid_def pr_def split: sum.splits)
    then show ?thesis
      using adds_cong [OF stop] Unsubscribe by (simp add: adds_def)
  qed (use assms(1) in \<open>auto simp: nl_recv_cases [OF s] pr_def adds_def split: client.splits\<close>)
qed

end
