(* ===== verification/RegexSearch.thy ===== *)
theory RegexSearch
  imports HK_Prelude
begin

text \<open>
  The part of \<open>std::regex\<close> (ECMAScript grammar) that \<^verbatim>\<open>daemon/src/ScanFiles.cpp\<close> uses: a sequence
  of character classes, each once, repeated a fixed number of times, or greedily many times, with
  capture groups around fixed repetitions. \<open>re_match\<close> is the backtracking matcher anchored at one
  position, \<open>regex_search\<close> tries the positions from left to right. Both are proved against the
  language of the expression.
\<close>

section \<open>Characters\<close>

definition is_space :: "char \<Rightarrow> bool" where
  "is_space c \<longleftrightarrow> c = CHR '' '' \<or> (9 \<le> (of_char c :: nat) \<and> (of_char c :: nat) \<le> 13)"

definition is_upper_hex :: "char \<Rightarrow> bool" where
  "is_upper_hex c \<longleftrightarrow> is_digit c \<or> (65 \<le> (of_char c :: nat) \<and> (of_char c :: nat) \<le> 70)"

definition is_word :: "char \<Rightarrow> bool" where
  "is_word c \<longleftrightarrow> is_digit c \<or> (65 \<le> (of_char c :: nat) \<and> (of_char c :: nat) \<le> 90) \<or>
     (97 \<le> (of_char c :: nat) \<and> (of_char c :: nat) \<le> 122) \<or> c = CHR ''_''"

lemma is_digit_not_space: "is_digit c \<Longrightarrow> \<not> is_space c"
  by (auto simp: is_digit_def is_space_def)

lemma is_word_not_space: "is_word c \<Longrightarrow> \<not> is_space c"
  by (auto simp: is_word_def is_digit_def is_space_def)

lemma is_upper_hex_word: "is_upper_hex c \<Longrightarrow> is_word c"
  by (auto simp: is_upper_hex_def is_word_def)

lemma is_digit_word: "is_digit c \<Longrightarrow> is_word c"
  by (simp add: is_word_def)

section \<open>Expressions and the matcher\<close>

datatype re_item =
    One "char \<Rightarrow> bool"
  | Star "char \<Rightarrow> bool"
  | Plus "char \<Rightarrow> bool"
  | Times nat "char \<Rightarrow> bool"
  | Group nat "char \<Rightarrow> bool"

type_synonym regex = "re_item list"

fun re_weight :: "re_item \<Rightarrow> nat" where
  "re_weight (Plus p) = 2"
| "re_weight _ = 1"

function re_match :: "regex \<Rightarrow> string \<Rightarrow> string list option" where
  "re_match [] s = Some []"
| "re_match (One p # r) s =
     (case s of [] \<Rightarrow> None | c # s' \<Rightarrow> if p c then re_match r s' else None)"
| "re_match (Star p # r) s =
     (case s of
        [] \<Rightarrow> re_match r s
      | c # s' \<Rightarrow>
          if p c then
            (case re_match (Star p # r) s' of Some caps \<Rightarrow> Some caps | None \<Rightarrow> re_match r s)
          else re_match r s)"
| "re_match (Plus p # r) s =
     (case s of [] \<Rightarrow> None | c # s' \<Rightarrow> if p c then re_match (Star p # r) s' else None)"
| "re_match (Times n p # r) s =
     (if n \<le> length s \<and> list_all p (take n s) then re_match r (drop n s) else None)"
| "re_match (Group n p # r) s =
     (if n \<le> length s \<and> list_all p (take n s) then
        map_option (\<lambda>caps. take n s # caps) (re_match r (drop n s))
      else None)"
  by pat_completeness auto
termination
  by (relation "measures [\<lambda>(r, s). sum_list (map re_weight r), \<lambda>(r, s). length s]") auto

declare re_match.simps(3) [simp del]

lemma re_match_star_Nil [simp]: "re_match (Star p # r) [] = re_match r []"
  and re_match_star_Cons [simp]: "re_match (Star p # r) (c # s) =
     (if p c then
        (case re_match (Star p # r) s of Some caps \<Rightarrow> Some caps | None \<Rightarrow> re_match r (c # s))
      else re_match r (c # s))"
  by (simp_all add: re_match.simps(3))

lemma re_match_star_skip: "re_match r s \<noteq> None \<Longrightarrow> re_match (Star p # r) s \<noteq> None"
  by (cases s) (auto split: option.split)

fun regex_search :: "regex \<Rightarrow> string \<Rightarrow> string list option" where
  "regex_search r s =
     (case re_match r s of
        Some caps \<Rightarrow> Some caps
      | None \<Rightarrow> (case s of [] \<Rightarrow> None | c # s' \<Rightarrow> regex_search r s'))"

declare regex_search.simps [simp del]

section \<open>The language of an expression\<close>

inductive re_lang :: "regex \<Rightarrow> string \<Rightarrow> string list \<Rightarrow> bool" where
  lang_nil: "re_lang [] [] []"
| lang_one: "p c \<Longrightarrow> re_lang r s caps \<Longrightarrow> re_lang (One p # r) (c # s) caps"
| lang_star: "list_all p w \<Longrightarrow> re_lang r s caps \<Longrightarrow> re_lang (Star p # r) (w @ s) caps"
| lang_plus: "list_all p w \<Longrightarrow> w \<noteq> [] \<Longrightarrow> re_lang r s caps \<Longrightarrow> re_lang (Plus p # r) (w @ s) caps"
| lang_times: "list_all p w \<Longrightarrow> length w = n \<Longrightarrow> re_lang r s caps \<Longrightarrow>
    re_lang (Times n p # r) (w @ s) caps"
| lang_group: "list_all p w \<Longrightarrow> length w = n \<Longrightarrow> re_lang r s caps \<Longrightarrow>
    re_lang (Group n p # r) (w @ s) (w # caps)"

inductive_cases re_langE:
  "re_lang [] w caps" "re_lang (One p # r) w caps" "re_lang (Star p # r) w caps"
  "re_lang (Plus p # r) w caps" "re_lang (Times n p # r) w caps" "re_lang (Group n p # r) w caps"

lemma re_lang_One: "re_lang r m caps \<Longrightarrow> One p \<in> set r \<Longrightarrow> \<exists>c \<in> set m. p c"
  by (induction rule: re_lang.induct) auto

lemma re_lang_star_Cons:
  "p c \<Longrightarrow> re_lang (Star p # r) s caps \<Longrightarrow> re_lang (Star p # r) (c # s) caps"
  by (erule re_langE(3)) (use lang_star [of p "c # w" r s caps for w s] in auto)

text \<open>A match of an expression at the front of a text, built up as the matcher does it.\<close>

definition re_prefix :: "regex \<Rightarrow> string \<Rightarrow> string list \<Rightarrow> bool" where
  "re_prefix r s caps \<longleftrightarrow> (\<exists>m post. s = m @ post \<and> re_lang r m caps)"

lemma re_prefixI: "re_lang r m caps \<Longrightarrow> re_prefix r (m @ post) caps"
  by (auto simp: re_prefix_def)

lemma prefix_nil: "re_prefix [] s []"
  using re_prefixI [OF lang_nil] by simp

lemma prefix_one: "p c \<Longrightarrow> re_prefix r s caps \<Longrightarrow> re_prefix (One p # r) (c # s) caps"
  using re_prefixI [OF lang_one] by (fastforce simp: re_prefix_def)

lemma prefix_skip: "re_prefix r s caps \<Longrightarrow> re_prefix (Star p # r) s caps"
  using re_prefixI [OF lang_star [of p "[]"]] by (fastforce simp: re_prefix_def)

lemma prefix_star: "p c \<Longrightarrow> re_prefix (Star p # r) s caps \<Longrightarrow> re_prefix (Star p # r) (c # s) caps"
  using re_prefixI [OF re_lang_star_Cons] by (fastforce simp: re_prefix_def)

lemma prefix_plus: "p c \<Longrightarrow> re_prefix (Star p # r) s caps \<Longrightarrow> re_prefix (Plus p # r) (c # s) caps"
proof -
  assume c: "p c" and "re_prefix (Star p # r) s caps"
  then obtain m post where m: "s = m @ post" "re_lang (Star p # r) m caps" by (auto simp: re_prefix_def)
  from m(2) obtain w u where "m = w @ u" "list_all p w" "re_lang r u caps"
    by (auto elim: re_langE)
  then have "re_lang (Plus p # r) (c # m) caps"
    using c lang_plus [of p "c # w" r u caps] by simp
  then show ?thesis using m(1) re_prefixI by fastforce
qed

lemma prefix_times:
  assumes "n \<le> length s" and "list_all p (take n s)" and "re_prefix r (drop n s) caps"
  shows "re_prefix (Times n p # r) s caps" and "re_prefix (Group n p # r) s (take n s # caps)"
proof -
  obtain m post where d: "drop n s = m @ post" "re_lang r m caps"
    using assms(3) by (auto simp: re_prefix_def)
  then have s: "s = (take n s @ m) @ post"
    by (metis append.assoc append_take_drop_id)
  show "re_prefix (Times n p # r) s caps" "re_prefix (Group n p # r) s (take n s # caps)"
    by (subst s, rule re_prefixI, use assms(1,2) d(2) in \<open>auto intro: lang_times lang_group\<close>)+
qed

lemma re_match_prefix: "re_match r s = Some caps \<Longrightarrow> re_prefix r s caps"
proof (induction r s arbitrary: caps rule: re_match.induct)
  case (3 p r s)
  then show ?case
    by (cases s) (auto split: if_splits option.splits intro: prefix_skip prefix_star)
qed (auto split: list.splits if_splits intro: prefix_nil prefix_one prefix_plus prefix_times)

lemma re_match_sound:
  "re_match r s = Some caps \<Longrightarrow> \<exists>m post. s = m @ post \<and> re_lang r m caps"
  using re_match_prefix by (simp add: re_prefix_def)

lemma re_match_complete:
  "re_lang r m caps \<Longrightarrow> re_match r (m @ post) \<noteq> None"
proof (induction arbitrary: post rule: re_lang.induct)
  case (lang_star p w r s caps)
  then show ?case
  proof (induction w)
    case Nil
    then show ?case using re_match_star_skip by simp
  next
    case (Cons c w)
    then show ?case by (auto split: option.split)
  qed
next
  case (lang_plus p w r s caps)
  from lang_plus.hyps(2) obtain c v where w: "w = c # v" by (cases w) auto
  have "re_match (Star p # r) (v @ s @ post) \<noteq> None"
    using lang_plus.hyps(1) unfolding w
  proof (induction v)
    case Nil
    then show ?case using lang_plus.IH re_match_star_skip by simp
  next
    case (Cons c' v)
    then show ?case by (auto split: option.split)
  qed
  then show ?case using lang_plus.hyps(1) w by simp
qed auto

lemma regex_search_Some:
  "regex_search r s = Some caps \<Longrightarrow> \<exists>pre m post. s = pre @ m @ post \<and> re_lang r m caps"
proof (induction s)
  case Nil
  then have "re_match r [] = Some caps"
    by (subst (asm) regex_search.simps) (auto split: option.splits)
  then show ?case using re_match_sound by fastforce
next
  case (Cons c s)
  show ?case
  proof (cases "re_match r (c # s)")
    case None
    then have "regex_search r s = Some caps"
      using Cons.prems by (subst (asm) regex_search.simps) auto
    then show ?thesis using Cons.IH by (metis append_Cons)
  next
    case (Some x)
    then have "re_match r (c # s) = Some caps"
      using Cons.prems by (subst (asm) regex_search.simps) auto
    then show ?thesis using re_match_sound [of r "c # s" caps] by (metis append_Nil)
  qed
qed

lemma regex_search_complete:
  "re_lang r m caps \<Longrightarrow> regex_search r (pre @ m @ post) \<noteq> None"
proof (induction pre)
  case Nil
  then show ?case
    using re_match_complete [of r m caps post]
    by (subst regex_search.simps) (auto split: option.split)
next
  case (Cons c pre)
  then show ?case
    by (subst regex_search.simps) (auto split: option.split)
qed

text \<open>
  The search is correct: it succeeds exactly on the lines that contain a word of the
  expression's language, and the captures it returns are those of such a word.
\<close>

theorem regex_search_correct:
  "(regex_search r s \<noteq> None \<longleftrightarrow> (\<exists>pre m post caps. s = pre @ m @ post \<and> re_lang r m caps)) \<and>
   (case regex_search r s of
      None \<Rightarrow> True
    | Some caps \<Rightarrow> \<exists>pre m post. s = pre @ m @ post \<and> re_lang r m caps)"
proof (cases "regex_search r s")
  case None
  then have "\<not> (\<exists>pre m post caps. s = pre @ m @ post \<and> re_lang r m caps)"
    using regex_search_complete by metis
  with None show ?thesis by simp
next
  case (Some caps)
  then show ?thesis using regex_search_Some [of r s caps] by auto
qed

text \<open>The word found is one of those that start first.\<close>

lemma regex_search_first:
  "regex_search r s = Some caps \<Longrightarrow> \<exists>pre m post. s = pre @ m @ post \<and> re_lang r m caps \<and>
    (\<forall>pre' m' post' caps'. s = pre' @ m' @ post' \<longrightarrow> re_lang r m' caps' \<longrightarrow> length pre \<le> length pre')"
proof (induction s)
  case Nil
  then show ?case using regex_search_Some by fastforce
next
  case (Cons c s)
  show ?case
  proof (cases "re_match r (c # s)")
    case None
    then have "regex_search r s = Some caps"
      using Cons.prems by (subst (asm) regex_search.simps) auto
    then obtain pre m post where i: "s = pre @ m @ post" "re_lang r m caps"
        "\<And>pre' m' post' caps'. s = pre' @ m' @ post' \<Longrightarrow> re_lang r m' caps' \<Longrightarrow> length pre \<le> length pre'"
      using Cons.IH by blast
    have "length (c # pre) \<le> length pre'" if "c # s = pre' @ m' @ post'" "re_lang r m' caps'" for pre' m' post' caps'
    proof (cases pre')
      case Nil
      then show ?thesis using re_match_complete [OF that(2), of post'] that(1) None by simp
    next
      case (Cons x xs)
      then show ?thesis using i(3) [OF _ that(2), of xs post'] that(1) by simp
    qed
    then show ?thesis
      using i(1,2) by (intro exI [of _ "c # pre"] exI [of _ m] exI [of _ post]) auto
  next
    case (Some x)
    then have "re_match r (c # s) = Some caps"
      using Cons.prems by (subst (asm) regex_search.simps) auto
    then show ?thesis using re_match_sound [of r "c # s" caps] by (metis append_Nil le0 list.size(3))
  qed
qed

text \<open>Running the matcher over a run of a class that the rest does not continue.\<close>

lemma re_match_star_run:
  assumes "list_all p w" and "s = [] \<or> \<not> p (hd s)" and "re_match r s = Some caps"
  shows "re_match (Star p # r) (w @ s) = Some caps"
  using assms(1)
proof (induction w)
  case Nil
  then show ?case using assms(2,3) by (cases s) simp_all
next
  case (Cons c w)
  then show ?case by simp
qed

lemma re_match_plus_run:
  assumes "list_all p w" and "w \<noteq> []" and "s = [] \<or> \<not> p (hd s)" and "re_match r s = Some caps"
  shows "re_match (Plus p # r) (w @ s) = Some caps"
  using assms re_match_star_run [of p "tl w" s r caps] by (cases w) auto

lemma re_match_times_run:
  "list_all p w \<Longrightarrow> length w = n \<Longrightarrow> re_match (Times n p # r) (w @ s) = re_match r s"
  by simp

lemma re_match_group_run:
  "list_all p w \<Longrightarrow> length w = n \<Longrightarrow>
    re_match (Group n p # r) (w @ s) = map_option (\<lambda>caps. w # caps) (re_match r s)"
  by simp

lemma regex_search_here: "re_match r s = Some caps \<Longrightarrow> regex_search r s = Some caps"
  by (subst regex_search.simps) simp

end
