(* ===== verification/ScanFiles.thy ===== *)
theory ScanFiles
  imports RegexSearch
begin

text \<open>
  \<^verbatim>\<open>daemon/src/ScanFiles.cpp\<close>: from a port to the process that uses it, by way of the socket's
  inode. The file system is an argument: the text of \<^verbatim>\<open>/proc/net/tcp\<close> and \<^verbatim>\<open>/proc/net/udp\<close> as one
  read sees it (\<open>None\<close> when it cannot be opened), and the listing of \<^verbatim>\<open>/proc\<close> as one traversal
  sees it, in directory order. C++ exceptions are values: those of opening and iterating a process's \<open>fd\<close> directory, of \<open>substr\<close> and of
  the conversions; the traversal of \<open>/proc\<close> itself is taken not to throw. The log lines are left out.
\<close>

section \<open>Library functions\<close>

datatype cpp_exn = InvalidArgument | OutOfRange | FilesystemError

text \<open>\<open>std::getline\<close> until it fails: the lines of a file, without the newlines.\<close>

function getlines :: "string \<Rightarrow> string list" where
  "getlines s =
     (if s = [] then []
      else takeWhile (\<lambda>c. c \<noteq> CHR 0x0A) s # getlines (tl (dropWhile (\<lambda>c. c \<noteq> CHR 0x0A) s)))"
  by pat_completeness auto
termination
proof (relation "measure length")
  fix s :: string
  assume "s \<noteq> []"
  then have "length (tl (dropWhile (\<lambda>c. c \<noteq> CHR 0x0A) s)) < length s"
    using length_dropWhile_le [of "\<lambda>c. c \<noteq> CHR 0x0A" s] by (cases s) (auto simp: le_imp_less_Suc)
  then show "(tl (dropWhile (\<lambda>c. c \<noteq> CHR 0x0A) s), s) \<in> measure length" by simp
qed simp

declare getlines.simps [simp del]

text \<open>\<open>iss >> token\<close> until it fails: the words between white space.\<close>

function tokens :: "string \<Rightarrow> string list" where
  "tokens s =
     (let t = dropWhile is_space s in
      if t = [] then []
      else takeWhile (\<lambda>c. \<not> is_space c) t # tokens (dropWhile (\<lambda>c. \<not> is_space c) t))"
  by pat_completeness auto
termination
proof (relation "measure length")
  fix s t :: string
  assume t: "t = dropWhile is_space s" and "t \<noteq> []"
  then obtain c u where c: "t = c # u" "\<not> is_space c"
    by (metis hd_dropWhile list.exhaust_sel)
  then have "length (dropWhile (\<lambda>c. \<not> is_space c) t) < length t"
    using length_dropWhile_le [of "\<lambda>c. \<not> is_space c" u] by (simp add: le_imp_less_Suc)
  also have "\<dots> \<le> length s"
    using t by (simp add: length_dropWhile_le)
  finally show "(dropWhile (\<lambda>c. \<not> is_space c) t, s) \<in> measure length" by simp
qed simp

declare tokens.simps [simp del]

definition hex_digit :: "char \<Rightarrow> nat option" where
  "hex_digit c =
     (let n = of_char c in
      if 48 \<le> n \<and> n \<le> 57 then Some (n - 48)
      else if 65 \<le> n \<and> n \<le> 70 then Some (n - 55)
      else if 97 \<le> n \<and> n \<le> 102 then Some (n - 87)
      else None)"

definition is_hex :: "char \<Rightarrow> bool" where
  "is_hex c \<longleftrightarrow> hex_digit c \<noteq> None"

definition hex_val :: "string \<Rightarrow> nat" where
  "hex_val s = foldl (\<lambda>n c. 16 * n + the (hex_digit c)) 0 s"

text \<open>
  \<open>std::stoul(s, nullptr, 16)\<close> on a string of word characters (no blanks, no sign): an optional
  \<open>0x\<close>, then the longest run of hexadecimal digits; no digit is an exception. Four characters
  never overflow.
\<close>

definition stoul16 :: "string \<Rightarrow> cpp_exn + nat" where
  "stoul16 s =
     (let t = (case s of
                 z # x # c # r \<Rightarrow>
                   if z = CHR ''0'' \<and> (x = CHR ''x'' \<or> x = CHR ''X'') \<and> is_hex c then c # r else s
               | _ \<Rightarrow> s);
          ds = takeWhile is_hex t
      in if ds = [] then Inl InvalidArgument else Inr (hex_val ds))"

text \<open>\<open>std::stoi\<close> on a string of decimal digits.\<close>

definition stoi :: "string \<Rightarrow> cpp_exn + pid_t" where
  "stoi s =
     (if s = [] then Inl InvalidArgument
      else if dec_val s \<ge> 2 ^ 31 then Inl OutOfRange
      else Inr (word_of_nat (dec_val s)))"

definition substr :: "string \<Rightarrow> nat \<Rightarrow> nat \<Rightarrow> cpp_exn + string" where
  "substr s pos n = (if pos > length s then Inl OutOfRange else Inr (take n (drop pos s)))"

fun find_sub :: "string \<Rightarrow> string \<Rightarrow> nat option" where
  "find_sub pat s =
     (if take (length pat) s = pat then Some 0
      else (case s of [] \<Rightarrow> None | c # s' \<Rightarrow> map_option Suc (find_sub pat s')))"

declare find_sub.simps [simp del]

section \<open>Reading the socket tables\<close>

definition sockRegex :: regex where
  "sockRegex =
     [Star is_space, Plus is_digit, One (\<lambda>c. c = CHR '':''), One is_space,
      Times 8 is_upper_hex, One (\<lambda>c. c = CHR '':''), Group 4 is_word, One is_space,
      Times 8 is_upper_hex, One (\<lambda>c. c = CHR '':''), Times 4 is_word, One is_space,
      Group 2 is_word]"

text \<open>The loop over the tokens of a line, which stops at field 9.\<close>

fun inode_loop :: "nat \<Rightarrow> string list \<Rightarrow> string option" where
  "inode_loop field [] = None"
| "inode_loop field (token # ts) =
     (if field = 9 then
        (if token \<noteq> ''0'' \<and> list_all is_digit token then Some token else None)
      else inode_loop (field + 1) ts)"

fun parse_lines ::
  "u16 \<Rightarrow> string list \<Rightarrow> (string \<times> u16) list \<Rightarrow> cpp_exn + (string \<times> u16) list" where
  "parse_lines filterPort [] result = Inr result"
| "parse_lines filterPort (line # ls) result =
     (case regex_search sockRegex line of
        Some [portHex, stateHex] \<Rightarrow>
          (case stoul16 portHex of
             Inl e \<Rightarrow> Inl e
           | Inr v \<Rightarrow>
               let port = word_of_nat v in
               if filterPort \<noteq> 0 \<and> port \<noteq> filterPort then parse_lines filterPort ls result
               else
                 case inode_loop 0 (tokens line) of
                   Some token \<Rightarrow> parse_lines filterPort ls (result @ [(token, port)])
                 | None \<Rightarrow> parse_lines filterPort ls result)
      | _ \<Rightarrow> parse_lines filterPort ls result)"

definition parseListeningSockets :: "string option \<Rightarrow> u16 \<Rightarrow> cpp_exn + (string \<times> u16) list" where
  "parseListeningSockets sockFile filterPort =
     (case sockFile of
        None \<Rightarrow> Inr []
      | Some text \<Rightarrow> parse_lines filterPort (getlines text) [])"

section \<open>The pattern\<close>

text \<open>
  A row of a socket table, as far as the code looks: number, local address and port, remote address
  and port, state, with one blank between the fields; and the place in a line where one starts.
\<close>

definition sock_row :: "string \<Rightarrow> string \<Rightarrow> string \<Rightarrow> bool" where
  "sock_row row port state \<longleftrightarrow>
     (\<exists>n s1 laddr s2 raddr rport s3.
        row = n @ '':'' @ [s1] @ laddr @ '':'' @ port @ [s2] @ raddr @ '':'' @ rport @ [s3] @ state \<and>
        n \<noteq> [] \<and> list_all is_digit n \<and> is_space s1 \<and> is_space s2 \<and> is_space s3 \<and>
        length laddr = 8 \<and> list_all is_upper_hex laddr \<and> length port = 4 \<and> list_all is_word port \<and>
        length raddr = 8 \<and> list_all is_upper_hex raddr \<and> length rport = 4 \<and> list_all is_word rport \<and>
        length state = 2 \<and> list_all is_word state)"

definition row_at :: "string \<Rightarrow> nat \<Rightarrow> string \<Rightarrow> string \<Rightarrow> bool" where
  "row_at line i port state \<longleftrightarrow>
     (\<exists>pre row post. line = pre @ row @ post \<and> length pre = i \<and> sock_row row port state)"

lemma lang_group_end: "list_all p w \<Longrightarrow> length w = n \<Longrightarrow> re_lang [Group n p] w [w]"
  using lang_group [OF _ _ lang_nil, of p w n] by simp

lemma sock_lang:
  "re_lang sockRegex m caps \<longleftrightarrow>
    (\<exists>w row port state. m = w @ row \<and> list_all is_space w \<and> caps = [port, state] \<and> sock_row row port state)"
proof
  assume "re_lang sockRegex m caps"
  then show "\<exists>w row port state. m = w @ row \<and> list_all is_space w \<and> caps = [port, state] \<and> sock_row row port state"
    unfolding sockRegex_def sock_row_def
    by (elim re_langE) (simp, blast)
next
  assume "\<exists>w row port state. m = w @ row \<and> list_all is_space w \<and> caps = [port, state] \<and> sock_row row port state"
  then show "re_lang sockRegex m caps"
    unfolding sockRegex_def sock_row_def
    by (elim exE conjE, hypsubst, simp only: append.simps append_assoc)
      (intro lang_group_end re_lang.intros; simp)
qed

text \<open>The first row of a line starts where the search finds it, after any blanks.\<close>

lemma first_row:
  assumes line: "line = pre @ w @ row @ post" and w: "list_all is_space w" and row: "sock_row row port state"
    and least: "\<And>pre' m post' caps. line = pre' @ m @ post' \<Longrightarrow> re_lang sockRegex m caps \<Longrightarrow> length pre \<le> length pre'"
  shows "(LEAST i. \<exists>port state. row_at line i port state) = length (pre @ w)"
proof (rule Least_equality)
  show "\<exists>port state. row_at line (length (pre @ w)) port state"
    using line row unfolding row_at_def by (metis append.assoc)
next
  fix i
  assume "\<exists>port state. row_at line i port state"
  then obtain p t pre' row' post' where r: "line = pre' @ row' @ post'" "length pre' = i" "sock_row row' p t"
    unfolding row_at_def by blast
  have "re_lang sockRegex row' [p, t]"
    unfolding sock_lang by (rule exI [of _ "[]"]) (use r(3) in simp)
  then have le: "length pre \<le> i" using least [OF r(1)] r(2) by simp
  show "length (pre @ w) \<le> i"
  proof (rule ccontr)
    assume "\<not> length (pre @ w) \<le> i"
    then have i: "i < length (pre @ w)" by simp
    then have "i - length pre < length w" using le by simp
    then have "line ! i = w ! (i - length pre)" "w ! (i - length pre) \<in> set w"
      using line le by (simp_all add: nth_append)
    then have "is_space (line ! i)" using w by (auto simp: list_all_iff)
    moreover have "is_digit (line ! i)"
      using r by (auto simp: sock_row_def nth_append neq_Nil_conv)
    ultimately show False using is_digit_not_space by blast
  qed
qed

text \<open>
  C24: The pattern recognises the rows of the tables. On every line, whatever it holds, the search with
  \<open>sockRegex\<close> fails exactly when no row starts anywhere in the line, and otherwise the two captures are the
  local port and the state of a row at the first place where one starts.
\<close>

theorem sockRegex_first_row:
  "case regex_search sockRegex line of
     None \<Rightarrow> (\<nexists>i port state. row_at line i port state)
   | Some caps \<Rightarrow> (\<exists>port state. caps = [port, state] \<and>
       row_at line (LEAST i. \<exists>port state. row_at line i port state) port state)"
proof (cases "regex_search sockRegex line")
  case None
  have "\<not> row_at line i port state" for i port state
  proof
    assume "row_at line i port state"
    then obtain pre row post where r: "line = pre @ row @ post" "sock_row row port state"
      unfolding row_at_def by blast
    have "re_lang sockRegex row [port, state]"
      unfolding sock_lang by (rule exI [of _ "[]"]) (use r(2) in simp)
    then show False using regex_search_complete None r(1) by blast
  qed
  with None show ?thesis by simp
next
  case (Some caps)
  then obtain pre m post where m: "line = pre @ m @ post" "re_lang sockRegex m caps"
      "\<And>pre' m' post' caps'. line = pre' @ m' @ post' \<Longrightarrow> re_lang sockRegex m' caps' \<Longrightarrow> length pre \<le> length pre'"
    using regex_search_first [OF Some] by blast
  then obtain w row port state where r: "m = w @ row" "list_all is_space w" "caps = [port, state]"
      "sock_row row port state"
    unfolding sock_lang by blast
  have l: "line = pre @ w @ row @ post" using m(1) r(1) by simp
  have "row_at line (length (pre @ w)) port state"
    using l r(4) unfolding row_at_def by (metis append.assoc)
  then show ?thesis
    using Some r(3) first_row [OF l r(2,4) m(3)] by simp
qed

section \<open>Finding the owner of an inode\<close>

text \<open>
  The \<^verbatim>\<open>fd\<close> directory of a process: absent, or the targets of its links in order (\<open>None\<close> where
  \<open>read_symlink\<close> fails) and whether opening the directory or going past the last listed link throws.
\<close>

datatype fd_dir = NoFdDir | FdDir "string option list" bool

record proc_entry =
  is_directory :: bool
  entry_name :: string
  fd_links :: fd_dir

definition link_size_less_9 :: "string \<Rightarrow> nat" where
  "link_size_less_9 link = unat (word_of_nat (length link) - 9 :: 64 word)"

fun scan_fds :: "string \<Rightarrow> string option list \<Rightarrow> cpp_exn + bool" where
  "scan_fds sockInode [] = Inr False"
| "scan_fds sockInode (None # ls) = scan_fds sockInode ls"
| "scan_fds sockInode (Some link # ls) =
     (if find_sub ''socket:['' link = None then scan_fds sockInode ls
      else
        case substr link 8 (link_size_less_9 link) of
          Inl e \<Rightarrow> Inl e
        | Inr t \<Rightarrow> if t = sockInode then Inr True else scan_fds sockInode ls)"

fun findPidBySockInode :: "string \<Rightarrow> proc_entry list \<Rightarrow> cpp_exn + pid_t" where
  "findPidBySockInode sockInode [] = Inr (-1)"
| "findPidBySockInode sockInode (dir # ds) =
     (if \<not> is_directory dir then findPidBySockInode sockInode ds
      else if \<not> list_all is_digit (entry_name dir) then findPidBySockInode sockInode ds
      else
        case fd_links dir of
          NoFdDir \<Rightarrow> findPidBySockInode sockInode ds
        | FdDir links throws \<Rightarrow>
            (case scan_fds sockInode links of
               Inl e \<Rightarrow> Inl e
             | Inr True \<Rightarrow> stoi (entry_name dir)
             | Inr False \<Rightarrow>
                 if throws then Inl FilesystemError else findPidBySockInode sockInode ds))"

section \<open>The two entry points\<close>

type_synonym port_map = "u16 \<Rightarrow> pid_t option"

text \<open>
  Each call of \<open>findPidBySockInode\<close> reads \<^verbatim>\<open>/proc\<close> anew: \<open>procs n\<close> is what the \<open>n\<close>-th call sees.
\<close>

fun map_tcp ::
  "(nat \<Rightarrow> proc_entry list) \<Rightarrow> nat \<Rightarrow> (string \<times> u16) list \<Rightarrow> port_map \<Rightarrow> cpp_exn + (nat \<times> port_map)"
where
  "map_tcp procs n [] m = Inr (n, m)"
| "map_tcp procs n ((inode, port) # socks) m =
     (case findPidBySockInode inode (procs n) of
        Inl e \<Rightarrow> Inl e
      | Inr pid \<Rightarrow> map_tcp procs (n + 1) socks (if pid \<noteq> -1 then m(port \<mapsto> pid) else m))"

fun map_udp ::
  "(nat \<Rightarrow> proc_entry list) \<Rightarrow> nat \<Rightarrow> (string \<times> u16) list \<Rightarrow> port_map \<Rightarrow> cpp_exn + port_map"
where
  "map_udp procs n [] m = Inr m"
| "map_udp procs n ((inode, port) # socks) m =
     (if m port \<noteq> None then map_udp procs n socks m
      else
        case findPidBySockInode inode (procs n) of
          Inl e \<Rightarrow> Inl e
        | Inr pid \<Rightarrow> map_udp procs (n + 1) socks (if pid \<noteq> -1 then m(port \<mapsto> pid) else m))"

definition initializePortPidMap ::
  "string option \<Rightarrow> string option \<Rightarrow> (nat \<Rightarrow> proc_entry list) \<Rightarrow> port_map \<Rightarrow> cpp_exn + port_map" where
  "initializePortPidMap tcp udp procs m =
     (case parseListeningSockets tcp 0 of
        Inl e \<Rightarrow> Inl e
      | Inr tcpSockets \<Rightarrow>
          (case parseListeningSockets udp 0 of
             Inl e \<Rightarrow> Inl e
           | Inr udpSockets \<Rightarrow>
               (case map_tcp procs 0 tcpSockets m of
                  Inl e \<Rightarrow> Inl e
                | Inr (n, m') \<Rightarrow> map_udp procs n udpSockets m')))"

definition scanForPidByPort ::
  "string option \<Rightarrow> string option \<Rightarrow> proc_entry list \<Rightarrow> u16 \<Rightarrow> char \<Rightarrow> cpp_exn + pid_t" where
  "scanForPidByPort tcp udp procs port protocol =
     (case parseListeningSockets (if protocol = CHR ''T'' then tcp else udp) port of
        Inl e \<Rightarrow> Inl e
      | Inr [] \<Rightarrow> Inr (-1)
      | Inr ((inode, p) # _) \<Rightarrow> findPidBySockInode inode procs)"

section \<open>The link search\<close>

lemma find_sub_length: "find_sub pat s \<noteq> None \<Longrightarrow> length pat \<le> length s"
proof (induction pat s rule: find_sub.induct)
  case (1 pat s)
  show ?case
  proof (cases "take (length pat) s = pat")
    case True
    then show ?thesis by (metis length_take min.cobounded1)
  next
    case False
    with "1.prems" obtain c s' where s: "s = c # s'" and f: "find_sub pat s' \<noteq> None"
      by (subst (asm) find_sub.simps) (auto split: list.splits)
    then show ?thesis using "1.IH" [OF False s f] by simp
  qed
qed

lemma substr_link_ok:
  "find_sub ''socket:['' link \<noteq> None \<Longrightarrow>
    substr link 8 (link_size_less_9 link) = Inr (take (link_size_less_9 link) (drop 8 link))"
  using find_sub_length [of "''socket:[''" link] by (simp add: substr_def)

definition link_matches :: "string \<Rightarrow> string \<Rightarrow> bool" where
  "link_matches inode link \<longleftrightarrow>
     find_sub ''socket:['' link \<noteq> None \<and> take (link_size_less_9 link) (drop 8 link) = inode"

lemma scan_fds_eq: "scan_fds inode links = Inr (\<exists>link. Some link \<in> set links \<and> link_matches inode link)"
proof (induction inode links rule: scan_fds.induct)
  case (3 inode link ls)
  then show ?case by (auto simp: link_matches_def substr_link_ok)
qed auto

text \<open>
  What procfs documents of its links: a target with \<open>socket:[\<close> in it is \<open>socket:[inode]\<close>, and no
  target is absurdly long.
\<close>

definition wf_link :: "string \<Rightarrow> bool" where
  "wf_link link \<longleftrightarrow> length link < 2 ^ 64 \<and>
     (find_sub ''socket:['' link \<noteq> None \<longrightarrow> (\<exists>d. link = ''socket:['' @ d @ '']''))"

lemma link_size_less_9_eq:
  assumes "9 \<le> length link" and "length link < 2 ^ 64"
  shows "link_size_less_9 link = length link - 9"
proof -
  have "(word_of_nat (length link) - 9 :: 64 word) = word_of_nat (length link - 9)"
    using assms(1) by (simp add: of_nat_diff)
  then have "link_size_less_9 link = (length link - 9) mod 2 ^ 64"
    by (simp only: link_size_less_9_def unat_of_nat) simp
  then show ?thesis using assms(2) by simp
qed

lemma link_matches_wf:
  assumes "wf_link link"
  shows "link_matches inode link \<longleftrightarrow> link = ''socket:['' @ inode @ '']''"
proof
  assume m: "link_matches inode link"
  with assms obtain d where d: "link = ''socket:['' @ d @ '']''"
    by (auto simp: wf_link_def link_matches_def)
  have "link_size_less_9 link = length link - 9"
    using assms d by (intro link_size_less_9_eq) (simp_all add: wf_link_def)
  then show "link = ''socket:['' @ inode @ '']''"
    using m d by (simp add: link_matches_def)
next
  assume l: "link = ''socket:['' @ inode @ '']''"
  have "link_size_less_9 link = length link - 9"
    using assms l by (intro link_size_less_9_eq) (simp_all add: wf_link_def)
  moreover have "find_sub ''socket:['' link \<noteq> None"
    using l by (subst find_sub.simps) simp
  ultimately show "link_matches inode link"
    using l by (simp add: link_matches_def)
qed

section \<open>The owner search\<close>

definition is_process :: "proc_entry \<Rightarrow> bool" where
  "is_process d \<longleftrightarrow> is_directory d \<and> list_all is_digit (entry_name d)"

definition owns_inode :: "string \<Rightarrow> proc_entry \<Rightarrow> bool" where
  "owns_inode inode d \<longleftrightarrow> is_process d \<and>
     (case fd_links d of
        NoFdDir \<Rightarrow> False
      | FdDir links _ \<Rightarrow> Some (''socket:['' @ inode @ '']'') \<in> set links)"

definition entry_pid :: "proc_entry \<Rightarrow> pid_t" where
  "entry_pid d = word_of_nat (dec_val (entry_name d))"

text \<open>
  A listing as procfs gives it: process numbers fit \<open>pid_t\<close>, links are well formed.
  \<open>quiet_entry\<close>: no process disappears or refuses while it is read.
\<close>

definition wf_entry :: "proc_entry \<Rightarrow> bool" where
  "wf_entry d \<longleftrightarrow>
     (is_process d \<longrightarrow> entry_name d \<noteq> [] \<and> dec_val (entry_name d) < 2 ^ 31) \<and>
     (case fd_links d of
        NoFdDir \<Rightarrow> True | FdDir links _ \<Rightarrow> (\<forall>l. Some l \<in> set links \<longrightarrow> wf_link l))"

definition quiet_entry :: "proc_entry \<Rightarrow> bool" where
  "quiet_entry d \<longleftrightarrow> (case fd_links d of NoFdDir \<Rightarrow> True | FdDir _ throws \<Rightarrow> \<not> throws)"

lemma scan_fds_wf:
  assumes "wf_entry d" and "fd_links d = FdDir links throws"
  shows "scan_fds inode links = Inr (Some (''socket:['' @ inode @ '']'') \<in> set links)"
proof -
  have "(\<exists>l. Some l \<in> set links \<and> link_matches inode l) \<longleftrightarrow>
      Some (''socket:['' @ inode @ '']'') \<in> set links"
    using assms link_matches_wf by (auto simp: wf_entry_def)
  then show ?thesis by (simp only: scan_fds_eq)
qed

text \<open>One step of the traversal, by what the entry is.\<close>

lemma findPid_step:
  assumes "wf_entry d"
  shows "findPidBySockInode inode (d # ds) =
    (if owns_inode inode d then Inr (entry_pid d)
     else if is_process d \<and> \<not> quiet_entry d then Inl FilesystemError
     else findPidBySockInode inode ds)"
proof (cases "is_process d")
  case False
  then show ?thesis by (auto simp: is_process_def owns_inode_def)
next
  case True
  then have e: "is_directory d" "list_all is_digit (entry_name d)"
    by (simp_all add: is_process_def)
  have s: "stoi (entry_name d) = Inr (entry_pid d)"
    using assms True by (simp add: wf_entry_def stoi_def entry_pid_def)
  show ?thesis
  proof (cases "fd_links d")
    case NoFdDir
    then show ?thesis using e by (simp add: owns_inode_def quiet_entry_def)
  next
    case (FdDir links throws)
    have "owns_inode inode d \<longleftrightarrow> Some (''socket:['' @ inode @ '']'') \<in> set links"
      using True FdDir by (simp add: owns_inode_def)
    then show ?thesis
      using e s True scan_fds_wf [OF assms FdDir, of inode]
      by (simp add: FdDir quiet_entry_def del: scan_fds.simps)
  qed
qed

text \<open>
  C19: The owner search is correct: on a listing that is read without a failure it returns the
  process number of the first process, in directory order, that has the socket among its
  descriptors, and -1 exactly when no process has it.
\<close>

theorem findPid_correct:
  assumes "list_all wf_entry ds" and "list_all quiet_entry ds"
  shows "findPidBySockInode inode ds =
    Inr (case find (owns_inode inode) ds of Some d \<Rightarrow> entry_pid d | None \<Rightarrow> -1)"
  using assms by (induction ds) (simp_all add: findPid_step del: findPidBySockInode.simps(2))

text \<open>
  C37: One process that vanishes (or refuses) while its descriptors are read aborts the whole
  search with an exception, unless the owner was found before it, even when another process owns
  the socket. No caller catches it.
\<close>

theorem findPid_throws:
  assumes "list_all wf_entry (ps @ d # ds)" and "list_all quiet_entry ps"
    and "\<not> list_ex (owns_inode inode) (ps @ [d])" and "is_process d" and "\<not> quiet_entry d"
  shows "findPidBySockInode inode (ps @ d # ds) = Inl FilesystemError"
  using assms by (induction ps) (simp_all add: findPid_step del: findPidBySockInode.simps(2))

definition example_proc :: "proc_entry list" where
  "example_proc =
     [\<lparr>is_directory = True, entry_name = ''acpi'', fd_links = NoFdDir\<rparr>,
      \<lparr>is_directory = True, entry_name = ''812'', fd_links =
         FdDir [Some ''/dev/null'', None, Some ''socket:[777]''] False\<rparr>,
      \<lparr>is_directory = True, entry_name = ''2897'', fd_links =
         FdDir [Some ''socket:[31337]''] False\<rparr>]"

lemma find_sub_example:
  "find_sub ''socket:['' ''/dev/null'' = None"
  by (simp add: find_sub.simps)

lemma wf_link_socket: "length d < 100 \<Longrightarrow> wf_link (''socket:['' @ d @ '']'')"
  by (simp add: wf_link_def)

lemma example_proc_wf: "list_all wf_entry example_proc" "list_all quiet_entry example_proc"
  using wf_link_socket [of "''777''"] wf_link_socket [of "''31337''"]
  by (auto simp: example_proc_def wf_entry_def quiet_entry_def is_process_def wf_link_def
      find_sub_example is_digit_def dec_val_def digit_val_def)

theorem findPid_correct_witness: "findPidBySockInode ''31337'' example_proc = Inr 2897"
  unfolding findPid_correct [OF example_proc_wf]
  by (simp add: example_proc_def owns_inode_def is_process_def is_digit_def entry_pid_def dec_val_def
      digit_val_def)

theorem findPid_throws_witness:
  "findPidBySockInode ''31337''
     (\<lparr>is_directory = True, entry_name = ''9'', fd_links = FdDir [] True\<rparr> # example_proc) =
   Inl FilesystemError"
  using findPid_throws [of "[]" "\<lparr>is_directory = True, entry_name = ''9'', fd_links = FdDir [] True\<rparr>"
      example_proc "''31337''"] example_proc_wf
  by (simp add: wf_entry_def is_process_def owns_inode_def quiet_entry_def is_digit_def dec_val_def
      digit_val_def del: findPidBySockInode.simps)

section \<open>The socket tables\<close>

text \<open>
  A line of \<^verbatim>\<open>/proc/net/tcp\<close> or \<^verbatim>\<open>/proc/net/udp\<close> as the kernel documents and prints it: slot
  number, local and remote address with ports in four upper-case hexadecimal digits, the state,
  five more columns, the inode, and whatever follows.
\<close>

definition hex_char :: "nat \<Rightarrow> char" where
  "hex_char n = char_of (if n < 10 then 48 + n else 55 + n)"

definition hex4 :: "u16 \<Rightarrow> string" where
  "hex4 w = (let n = unat w in
     [hex_char (n div 4096), hex_char (n div 256 mod 16), hex_char (n div 16 mod 16),
      hex_char (n mod 16)])"

record sock_line =
  sl_pad :: nat
  sl :: string
  laddr :: string
  lport :: u16
  raddr :: string
  rport :: u16
  st :: string
  columns :: "(nat \<times> string) list"
  inode_col :: string
  rest_col :: string

definition spaces :: "nat \<Rightarrow> string" where
  "spaces n = replicate n CHR '' ''"

fun render_columns :: "(nat \<times> string) list \<Rightarrow> string" where
  "render_columns [] = []"
| "render_columns ((k, t) # cs) = spaces (Suc k) @ t @ render_columns cs"

definition render_sock :: "sock_line \<Rightarrow> string" where
  "render_sock x =
     spaces (sl_pad x) @ sl x @ '': '' @ laddr x @ '':'' @ hex4 (lport x) @ '' '' @
     raddr x @ '':'' @ hex4 (rport x) @ '' '' @ st x @
     render_columns (columns x @ [(0, inode_col x)]) @ rest_col x"

definition wf_token :: "string \<Rightarrow> bool" where
  "wf_token t \<longleftrightarrow> t \<noteq> [] \<and> list_all (\<lambda>c. \<not> is_space c) t"

definition wf_sock :: "sock_line \<Rightarrow> bool" where
  "wf_sock x \<longleftrightarrow>
     sl x \<noteq> [] \<and> list_all is_digit (sl x) \<and>
     length (laddr x) = 8 \<and> list_all is_upper_hex (laddr x) \<and>
     length (raddr x) = 8 \<and> list_all is_upper_hex (raddr x) \<and>
     length (st x) = 2 \<and> list_all is_upper_hex (st x) \<and>
     length (columns x) = 5 \<and> list_all (\<lambda>(k, t). wf_token t) (columns x) \<and>
     inode_col x \<noteq> [] \<and> list_all is_digit (inode_col x) \<and>
     (rest_col x = [] \<or> is_space (hd (rest_col x))) \<and> CHR 0x0A \<notin> set (rest_col x)"

subsection \<open>Hexadecimal ports\<close>

lemma hex_digit_hex_char [simp]: "n < 16 \<Longrightarrow> hex_digit (hex_char n) = Some n"
  by (simp add: hex_digit_def hex_char_def Let_def)

lemma is_hex_hex_char [simp]: "n < 16 \<Longrightarrow> is_hex (hex_char n)"
  by (simp add: is_hex_def)

lemma is_upper_hex_hex_char [simp]: "n < 16 \<Longrightarrow> is_upper_hex (hex_char n)"
  by (simp add: is_upper_hex_def is_digit_def hex_char_def)

lemma hex_char_not_x: "n < 16 \<Longrightarrow> hex_char n \<noteq> CHR ''x'' \<and> hex_char n \<noteq> CHR ''X''"
  using is_upper_hex_hex_char [of n] by (auto simp: is_upper_hex_def is_digit_def)

lemma u16_div_less: "unat (w :: u16) div 4096 < 16"
  using unsigned_less [of w, where 'a = nat] by simp

lemma hex4_hex: "list_all is_upper_hex (hex4 w)" "length (hex4 w) = 4"
  by (simp_all add: hex4_def Let_def u16_div_less)

lemma stoul16_hex4: "stoul16 (hex4 w) = Inr (unat w)"
proof -
  let ?n = "unat w"
  have d: "?n = 4096 * (?n div 4096) + 256 * (?n div 256 mod 16) + 16 * (?n div 16 mod 16) + ?n mod 16"
  proof -
    have "?n div 16 div 16 = ?n div 256" and "?n div 256 div 16 = ?n div 4096"
      by (simp_all flip: div_mult2_eq)
    moreover have "?n = 16 * (?n div 16) + ?n mod 16"
      and "?n div 16 = 16 * (?n div 16 div 16) + ?n div 16 mod 16"
      and "?n div 256 = 16 * (?n div 256 div 16) + ?n div 256 mod 16"
      by simp_all
    ultimately show ?thesis by linarith
  qed
  have h: "hex_val (hex4 w) = ?n"
    using d by (simp add: hex_val_def hex4_def Let_def u16_div_less)
  have hex: "takeWhile is_hex (hex4 w) = hex4 w"
    by (simp add: hex4_def Let_def u16_div_less)
  have "hex4 w ! 1 \<noteq> CHR ''x''" "hex4 w ! 1 \<noteq> CHR ''X''"
    using hex_char_not_x [of "?n div 256 mod 16"] by (simp_all add: hex4_def Let_def)
  then have "(case hex4 w of
        z # x # c # r \<Rightarrow>
          if z = CHR ''0'' \<and> (x = CHR ''x'' \<or> x = CHR ''X'') \<and> is_hex c then c # r else hex4 w
      | _ \<Rightarrow> hex4 w) = hex4 w"
    by (auto split: list.split)
  then show ?thesis
    using h unfolding stoul16_def Let_def by (simp only: hex) (simp add: hex4_def Let_def)
qed

subsection \<open>The expression on a line\<close>

lemma upper_hex_words: "list_all is_upper_hex w \<Longrightarrow> list_all is_word w"
  by (auto simp: list_all_iff is_upper_hex_word)

lemma sockRegex_render:
  assumes "wf_sock x"
  shows "regex_search sockRegex (render_sock x) = Some [hex4 (lport x), st x]"
proof (rule regex_search_here)
  let ?tail = "render_columns (columns x @ [(0, inode_col x)]) @ rest_col x"
  have w: "list_all is_word (hex4 (lport x))" "list_all is_word (hex4 (rport x))" "list_all is_word (st x)"
    using assms hex4_hex upper_hex_words by (auto simp: wf_sock_def)
  have tail: "re_match
      [One (\<lambda>c. c = CHR '':''), One is_space, Times 8 is_upper_hex, One (\<lambda>c. c = CHR '':''),
       Group 4 is_word, One is_space, Times 8 is_upper_hex, One (\<lambda>c. c = CHR '':''),
       Times 4 is_word, One is_space, Group 2 is_word]
      ('': '' @ laddr x @ '':'' @ hex4 (lport x) @ '' '' @ raddr x @ '':'' @ hex4 (rport x) @ '' '' @
       st x @ ?tail) = Some [hex4 (lport x), st x]"
    using assms w by (simp add: wf_sock_def hex4_hex is_space_def)
  have colon: "\<not> is_digit CHR '':''" by (simp add: is_digit_def)
  have sp: "list_all is_space (spaces n)" for n
    by (simp add: spaces_def list_all_iff is_space_def)
  have hd: "\<not> is_space (hd (sl x @ u))" for u
    using assms is_digit_not_space by (cases "sl x") (auto simp: wf_sock_def)
  show "re_match sockRegex (render_sock x) = Some [hex4 (lport x), st x]"
    unfolding sockRegex_def render_sock_def
    by (rule re_match_star_run [OF sp disjI2 [OF hd]],
        rule re_match_plus_run [OF _ _ _ tail])
      (use assms colon in \<open>auto simp: wf_sock_def\<close>)
qed

subsection \<open>The tokens of a line\<close>

lemma tokens_space [simp]: "is_space c \<Longrightarrow> tokens (c # s) = tokens s"
  by (simp add: tokens.simps)

lemma tokens_spaces [simp]: "tokens (spaces n @ s) = tokens s"
  by (induction n) (simp_all add: spaces_def is_space_def)

lemma takeWhile_run: "list_all p w \<Longrightarrow> s = [] \<or> \<not> p (hd s) \<Longrightarrow> takeWhile p (w @ s) = w \<and> dropWhile p (w @ s) = s"
  by (induction w) (auto, (cases s; simp)+)

lemma tokens_word:
  assumes "wf_token w" and "s = [] \<or> is_space (hd s)"
  shows "tokens (w @ s) = w # tokens s"
proof -
  have "dropWhile is_space (w @ s) = w @ s"
    using assms(1) by (cases w) (auto simp: wf_token_def)
  moreover have "takeWhile (\<lambda>c. \<not> is_space c) (w @ s) = w \<and> dropWhile (\<lambda>c. \<not> is_space c) (w @ s) = s"
    using assms by (intro takeWhile_run) (auto simp: wf_token_def)
  moreover have "w @ s \<noteq> []" using assms(1) by (simp add: wf_token_def)
  ultimately show ?thesis by (subst tokens.simps) (simp add: Let_def)
qed

lemma tokens_word_space:
  assumes "wf_token w"
  shows "tokens (w @ '' '' @ s) = w # tokens s"
proof -
  have "is_space CHR '' ''" by (simp add: is_space_def)
  then show ?thesis using tokens_word [OF assms, of "'' '' @ s"] by simp
qed

lemma tokens_columns:
  "list_all (\<lambda>(k, t). wf_token t) cs \<Longrightarrow> rest = [] \<or> is_space (hd rest) \<Longrightarrow>
    tokens (render_columns cs @ rest) = map snd cs @ tokens rest"
proof (induction cs)
  case (Cons kt cs)
  obtain k t where kt: "kt = (k, t)" by fastforce
  have "render_columns cs @ rest = [] \<or> is_space (hd (render_columns cs @ rest))"
    using Cons.prems(2) by (cases cs) (auto simp: spaces_def is_space_def)
  then show ?case
    using Cons kt by (simp add: tokens_word)
qed simp

lemma inode_loop_append:
  "length pre + field = 9 \<Longrightarrow> inode_loop field (pre @ token # ts) =
     (if token \<noteq> ''0'' \<and> list_all is_digit token then Some token else None)"
  by (induction pre arbitrary: field) auto

lemma wf_token_word: "list_all is_word w \<Longrightarrow> w \<noteq> [] \<Longrightarrow> wf_token w"
  by (auto simp: wf_token_def list_all_iff is_word_not_space)

lemma wf_token_append: "wf_token a \<Longrightarrow> wf_token b \<Longrightarrow> wf_token (a @ b)"
  by (simp add: wf_token_def)

lemma wf_token_colon: "wf_token '':''"
  by (simp add: wf_token_def is_space_def)

lemma tokens_render:
  assumes "wf_sock x"
  shows "\<exists>pre. length pre = 9 \<and> tokens (render_sock x) = pre @ inode_col x # tokens (rest_col x)"
proof -
  have digits: "list_all is_word s" if "list_all is_digit s" for s
    using that by (auto simp: list_all_iff is_digit_word)
  have words: "list_all is_word (sl x)" "list_all is_word (laddr x)" "list_all is_word (raddr x)"
      "list_all is_word (st x)" "list_all is_word (inode_col x)"
      "list_all is_word (hex4 (lport x))" "list_all is_word (hex4 (rport x))"
    using assms digits upper_hex_words hex4_hex by (auto simp: wf_sock_def)
  have ne: "sl x \<noteq> []" "laddr x \<noteq> []" "raddr x \<noteq> []" "st x \<noteq> []" "inode_col x \<noteq> []"
      "hex4 (lport x) \<noteq> []" "hex4 (rport x) \<noteq> []"
    using assms hex4_hex by (auto simp: wf_sock_def simp flip: length_greater_0_conv)
  let ?cols = "columns x @ [(0, inode_col x)]"
  have cols: "list_all (\<lambda>(k, t). wf_token t) ?cols"
    using assms words ne by (auto simp: wf_sock_def intro: wf_token_word)
  have t4: "tokens (st x @ render_columns ?cols @ rest_col x) =
      st x # map snd ?cols @ tokens (rest_col x)"
  proof -
    have "is_space (hd (render_columns ?cols @ rest_col x))"
      by (cases "columns x") (auto simp: spaces_def is_space_def)
    then show ?thesis
      using tokens_word [OF wf_token_word [OF words(4) ne(4)]] tokens_columns [OF cols] assms
      by (simp add: wf_sock_def)
  qed
  let ?l = "laddr x @ '':'' @ hex4 (lport x)" and ?r = "raddr x @ '':'' @ hex4 (rport x)"
  have wl: "wf_token ?l" "wf_token ?r" "wf_token (sl x @ '':'')"
    using words ne
    by (simp_all only: wf_token_append wf_token_word wf_token_colon simp_thms)
  have r: "render_sock x = spaces (sl_pad x) @ (sl x @ '':'') @ '' '' @ ?l @ '' '' @ ?r @ '' '' @
      st x @ render_columns ?cols @ rest_col x"
    by (simp add: render_sock_def)
  have "tokens (render_sock x) =
      [sl x @ '':'', ?l, ?r, st x] @ map snd (columns x) @ inode_col x # tokens (rest_col x)"
    unfolding r tokens_spaces
    by (simp only: tokens_word_space [OF wl(1)] tokens_word_space [OF wl(2)]
        tokens_word_space [OF wl(3)] t4) simp
  moreover have "length ([sl x @ '':'', ?l, ?r, st x] @ map snd (columns x)) = 9"
    using assms by (simp add: wf_sock_def)
  ultimately show ?thesis by (metis append.assoc)
qed

subsection \<open>A whole table\<close>

definition keeps_sock :: "u16 \<Rightarrow> sock_line \<Rightarrow> bool" where
  "keeps_sock filterPort x \<longleftrightarrow> (filterPort = 0 \<or> lport x = filterPort) \<and> inode_col x \<noteq> ''0''"

definition sock_pair :: "sock_line \<Rightarrow> string \<times> u16" where
  "sock_pair x = (inode_col x, lport x)"

lemma inode_loop_render:
  assumes "wf_sock x"
  shows "inode_loop 0 (tokens (render_sock x)) =
    (if inode_col x \<noteq> ''0'' then Some (inode_col x) else None)"
proof -
  obtain pre where pre: "length pre = 9" "tokens (render_sock x) = pre @ inode_col x # tokens (rest_col x)"
    using tokens_render [OF assms] by blast
  then show ?thesis
    using inode_loop_append [of pre 0 "inode_col x" "tokens (rest_col x)"] assms
    by (simp add: wf_sock_def)
qed

lemma parse_lines_render:
  assumes "list_all wf_sock xs"
  shows "parse_lines fp (map render_sock xs) res =
    Inr (res @ map sock_pair (filter (keeps_sock fp) xs))"
  using assms
proof (induction xs arbitrary: res)
  case (Cons x xs)
  then show ?case
    by (auto simp: sockRegex_render stoul16_hex4 inode_loop_render keeps_sock_def [of _ x]
        sock_pair_def [of x] Let_def)
qed simp

lemma sockRegex_colon: "re_lang sockRegex m caps \<Longrightarrow> CHR '':'' \<in> set m"
  using re_lang_One [of sockRegex m caps "\<lambda>c. c = CHR '':''"] by (auto simp: sockRegex_def)

lemma parse_lines_skip:
  assumes "CHR '':'' \<notin> set hdr"
  shows "parse_lines fp (hdr # ls) res = parse_lines fp ls res"
proof -
  have "regex_search sockRegex hdr = None"
  proof (rule ccontr)
    assume "regex_search sockRegex hdr \<noteq> None"
    then obtain pre m post caps where "hdr = pre @ m @ post" "re_lang sockRegex m caps"
      using regex_search_Some [of sockRegex hdr] by auto
    moreover from this(2) have "CHR '':'' \<in> set m" by (rule sockRegex_colon)
    ultimately show False using assms by simp
  qed
  then show ?thesis by simp
qed

definition unlines :: "string list \<Rightarrow> string" where
  "unlines ls = concat (map (\<lambda>l. l @ [CHR 0x0A]) ls)"

lemma getlines_unlines:
  "list_all (\<lambda>l. CHR 0x0A \<notin> set l) ls \<Longrightarrow> getlines (unlines ls) = ls"
proof (induction ls)
  case Nil
  then show ?case by (simp add: unlines_def getlines.simps)
next
  case (Cons l ls)
  have nl: "list_all (\<lambda>c. c \<noteq> CHR 0x0A) l"
    using Cons.prems by (induction l) auto
  have "takeWhile (\<lambda>c. c \<noteq> CHR 0x0A) (l @ CHR 0x0A # unlines ls) = l"
    and "dropWhile (\<lambda>c. c \<noteq> CHR 0x0A) (l @ CHR 0x0A # unlines ls) = CHR 0x0A # unlines ls"
    using takeWhile_run [of "\<lambda>c. c \<noteq> CHR 0x0A" l "CHR 0x0A # unlines ls"] Cons.prems nl
    by simp_all
  then show ?case
    using Cons by (subst getlines.simps) (simp add: unlines_def)
qed

lemma no_newline_class: "list_all p s \<Longrightarrow> \<not> p CHR 0x0A \<Longrightarrow> CHR 0x0A \<notin> set s"
  by (auto simp: list_all_iff)

lemma render_no_newline:
  assumes "wf_sock x"
  shows "CHR 0x0A \<notin> set (render_sock x)"
proof -
  have nl: "\<not> is_digit CHR 0x0A" "\<not> is_upper_hex CHR 0x0A" "is_space CHR 0x0A"
    by (simp_all add: is_digit_def is_upper_hex_def is_space_def)
  have cols: "CHR 0x0A \<notin> set (render_columns cs)" if "list_all (\<lambda>(k, t). wf_token t) cs" for cs
    using that
  proof (induction cs rule: render_columns.induct)
    case (2 k t cs)
    then have "CHR 0x0A \<notin> set t"
      using nl(3) by (auto simp: wf_token_def list_all_iff)
    with 2 show ?case by (simp add: spaces_def)
  qed simp
  have inode: "wf_token (inode_col x)"
    using assms is_digit_not_space by (auto simp: wf_sock_def wf_token_def list_all_iff)
  then have "CHR 0x0A \<notin> set (render_columns (columns x @ [(0, inode_col x)]))"
    using assms by (intro cols) (simp add: wf_sock_def)
  moreover have "list_all is_digit (sl x)" "list_all is_upper_hex (laddr x)"
      "list_all is_upper_hex (raddr x)" "list_all is_upper_hex (st x)" "CHR 0x0A \<notin> set (rest_col x)"
    using assms unfolding wf_sock_def by blast+
  ultimately show ?thesis
    using no_newline_class [where p = is_digit, OF _ nl(1)]
      no_newline_class [where p = is_upper_hex, OF _ nl(2)] hex4_hex(1)
    by (simp add: render_sock_def spaces_def)
qed

definition sock_table :: "string \<Rightarrow> sock_line list \<Rightarrow> string" where
  "sock_table hdr xs = unlines (hdr # map render_sock xs)"

definition wf_table :: "string \<Rightarrow> sock_line list \<Rightarrow> bool" where
  "wf_table hdr xs \<longleftrightarrow>
     CHR '':'' \<notin> set hdr \<and> CHR 0x0A \<notin> set hdr \<and> list_all wf_sock xs"

lemma parse_table_eq:
  assumes "wf_table hdr xs"
  shows "parseListeningSockets (Some (sock_table hdr xs)) fp =
    Inr (map sock_pair (filter (keeps_sock fp) xs))"
proof -
  have "getlines (sock_table hdr xs) = hdr # map render_sock xs"
    unfolding sock_table_def using assms render_no_newline
    by (intro getlines_unlines) (auto simp: wf_table_def list_all_iff)
  then show ?thesis
    using assms
    by (simp add: parseListeningSockets_def parse_lines_skip parse_lines_render wf_table_def
        del: parse_lines.simps)
qed

text \<open>
  C20: Round trip with the kernel's table format. From the text of a socket table the parser
  recovers, in order, the inode and port of every socket of the table that has an inode, whatever
  the socket's state; a non-zero filter keeps those with that port, and filter 0 keeps all.
\<close>

theorem parse_table:
  assumes "wf_table hdr xs"
  shows "parseListeningSockets (Some (sock_table hdr xs)) fp =
    Inr (map (\<lambda>x. (inode_col x, lport x))
      (filter (\<lambda>x. (fp = 0 \<or> lport x = fp) \<and> inode_col x \<noteq> ''0'') xs))"
  using parse_table_eq [OF assms, of fp] by (simp add: sock_pair_def [abs_def] keeps_sock_def [abs_def])

section \<open>The entry points\<close>

text \<open>The owner of a socket in one listing of \<^verbatim>\<open>/proc\<close>.\<close>

definition inode_owner :: "proc_entry list \<Rightarrow> string \<Rightarrow> pid_t option" where
  "inode_owner ds inode = map_option entry_pid (find (owns_inode inode) ds)"

definition wf_proc :: "proc_entry list \<Rightarrow> bool" where
  "wf_proc ds \<longleftrightarrow> list_all wf_entry ds \<and> list_all quiet_entry ds"

lemma findPid_owner:
  "wf_proc ds \<Longrightarrow> findPidBySockInode inode ds =
    Inr (case inode_owner ds inode of Some p \<Rightarrow> p | None \<Rightarrow> -1)"
proof -
  assume wf: "wf_proc ds"
  have "findPidBySockInode inode ds =
      Inr (case find (owns_inode inode) ds of Some d \<Rightarrow> entry_pid d | None \<Rightarrow> -1)"
    using wf unfolding wf_proc_def
    by (induction ds) (simp_all add: findPid_step del: findPidBySockInode.simps(2))
  then show ?thesis by (simp add: inode_owner_def split: option.split)
qed

lemma small_pid_not_minus_1: "n < 2 ^ 31 \<Longrightarrow> (word_of_nat n :: pid_t) \<noteq> -1"
proof
  assume n: "n < 2 ^ 31" and "(word_of_nat n :: pid_t) = -1"
  then have "unat (word_of_nat n :: pid_t) = 2 ^ 32 - 1"
    by (simp add: unsigned_minus_1_eq_mask mask_eq_exp_minus_1)
  then show False using n by (simp add: unat_of_nat)
qed

lemma inode_owner_not_minus_1:
  assumes "wf_proc ds" and "inode_owner ds inode = Some p"
  shows "p \<noteq> -1"
proof -
  from assms(2) obtain d where d: "find (owns_inode inode) ds = Some d" "p = entry_pid d"
    by (auto simp: inode_owner_def)
  then have "d \<in> set ds" "is_process d"
    by (auto simp: find_Some_iff owns_inode_def)
  then show ?thesis
    using assms(1) d(2) small_pid_not_minus_1
    by (auto simp: wf_proc_def list_all_iff wf_entry_def entry_pid_def)
qed

lemma scanForPidByPort_eq:
  assumes "wf_table hdr_t tcp" and "wf_table hdr_u udp" and "wf_proc procs"
  shows "scanForPidByPort (Some (sock_table hdr_t tcp)) (Some (sock_table hdr_u udp)) procs port pr =
    Inr (case find (\<lambda>x. (port = 0 \<or> lport x = port) \<and> inode_col x \<noteq> ''0'')
           (if pr = CHR ''T'' then tcp else udp) of
           None \<Rightarrow> -1
         | Some x \<Rightarrow> (case inode_owner procs (inode_col x) of None \<Rightarrow> -1 | Some p \<Rightarrow> p))"
proof -
  have first: "(case map sock_pair (filter (keeps_sock port) xs) of
      [] \<Rightarrow> Inr (-1) | (inode, p) # _ \<Rightarrow> findPidBySockInode inode procs) =
    Inr (case find (keeps_sock port) xs of
           None \<Rightarrow> -1
         | Some x \<Rightarrow> (case inode_owner procs (inode_col x) of None \<Rightarrow> -1 | Some p \<Rightarrow> p))" for xs
  proof (induction xs)
    case (Cons x xs)
    then show ?case
      using findPid_owner [OF assms(3), of "inode_col x"]
      by (simp add: sock_pair_def)
  qed simp
  show ?thesis
    using first parse_table_eq [OF assms(1)] parse_table_eq [OF assms(2)]
    by (simp add: scanForPidByPort_def keeps_sock_def [abs_def])
qed

text \<open>
  C6: The scan for a packet's port looks in the table of the packet's protocol and returns the
  owner of the first socket of that table with this port and an inode; it returns -1 when there is
  no such socket or when nobody owns that first one. For port 0 there is no filter: the first
  socket of the table with an inode counts, whatever its port.
\<close>

theorem scanForPidByPort_correct:
  assumes "wf_table hdr_t tcp" and "wf_table hdr_u udp" and "wf_proc procs"
  shows "scanForPidByPort (Some (sock_table hdr_t tcp)) (Some (sock_table hdr_u udp)) procs port pr =
    Inr (case find (\<lambda>x. (port = 0 \<or> lport x = port) \<and> inode_col x \<noteq> ''0'')
           (if pr = CHR ''T'' then tcp else udp) of
           None \<Rightarrow> -1
         | Some x \<Rightarrow> (case inode_owner procs (inode_col x) of None \<Rightarrow> -1 | Some p \<Rightarrow> p))"
  by (rule scanForPidByPort_eq [OF assms])

text \<open>The startup scan over a \<^verbatim>\<open>/proc\<close> that does not change while it runs.\<close>

definition resolved :: "proc_entry list \<Rightarrow> u16 \<Rightarrow> string \<times> u16 \<Rightarrow> bool" where
  "resolved ds port s \<longleftrightarrow> snd s = port \<and> inode_owner ds (fst s) \<noteq> None"

definition first_owner :: "proc_entry list \<Rightarrow> (string \<times> u16) list \<Rightarrow> u16 \<Rightarrow> pid_t option" where
  "first_owner ds socks port =
     (case find (resolved ds port) socks of None \<Rightarrow> None | Some s \<Rightarrow> inode_owner ds (fst s))"

lemma find_append: "find p (xs @ ys) = (case find p xs of None \<Rightarrow> find p ys | Some x \<Rightarrow> Some x)"
  by (induction xs) auto

lemma first_owner_snoc:
  "first_owner ds (rev ((inode, p) # socks)) port =
     (case first_owner ds (rev socks) port of
        Some q \<Rightarrow> Some q
      | None \<Rightarrow> if p = port then inode_owner ds inode else None)"
proof (cases "find (resolved ds port) (rev socks)")
  case None
  then show ?thesis
    by (auto simp: first_owner_def find_append resolved_def split: option.splits)
next
  case (Some s)
  then have "resolved ds port s" by (auto simp: find_Some_iff)
  with Some show ?thesis
    by (auto simp: first_owner_def find_append resolved_def split: option.split)
qed

lemma first_owner_Cons:
  "first_owner ds ((inode, p) # socks) port =
     (if p = port \<and> inode_owner ds inode \<noteq> None then inode_owner ds inode
      else first_owner ds socks port)"
  by (auto simp: first_owner_def resolved_def)

lemma map_tcp_eq:
  assumes "\<And>n. procs n = ds" and "wf_proc ds"
  shows "\<exists>n'. map_tcp procs n socks m =
    Inr (n', \<lambda>port. case first_owner ds (rev socks) port of Some q \<Rightarrow> Some q | None \<Rightarrow> m port)"
proof (induction socks arbitrary: n m)
  case Nil
  then show ?case by (simp add: first_owner_def)
next
  case (Cons s socks)
  obtain inode p where s: "s = (inode, p)" by fastforce
  let ?m = "case inode_owner ds inode of None \<Rightarrow> m | Some q \<Rightarrow> m(p \<mapsto> q)"
  have step: "map_tcp procs n (s # socks) m = map_tcp procs (n + 1) socks ?m"
    using s assms(1) findPid_owner [OF assms(2), of inode] inode_owner_not_minus_1 [OF assms(2)]
    by (auto split: option.split)
  have "(\<lambda>port. case first_owner ds (rev socks) port of Some q \<Rightarrow> Some q | None \<Rightarrow> ?m port) =
      (\<lambda>port. case first_owner ds (rev (s # socks)) port of Some q \<Rightarrow> Some q | None \<Rightarrow> m port)"
    by (rule ext) (auto simp only: s first_owner_snoc split: option.split; auto split: option.splits)
  then show ?case using step Cons.IH [of "n + 1" ?m] by simp
qed

lemma map_udp_eq:
  assumes "\<And>n. procs n = ds" and "wf_proc ds"
  shows "map_udp procs n socks m =
    Inr (\<lambda>port. case m port of Some q \<Rightarrow> Some q | None \<Rightarrow> first_owner ds socks port)"
proof (induction socks arbitrary: n m)
  case Nil
  show ?case by (auto simp: first_owner_def split: option.split)
next
  case (Cons s socks)
  obtain inode p where s: "s = (inode, p)" by fastforce
  show ?case
  proof (cases "m p")
    case None
    let ?m = "case inode_owner ds inode of None \<Rightarrow> m | Some q \<Rightarrow> m(p \<mapsto> q)"
    have step: "map_udp procs n (s # socks) m = map_udp procs (n + 1) socks ?m"
      using s None assms(1) findPid_owner [OF assms(2), of inode] inode_owner_not_minus_1 [OF assms(2)]
      by (auto split: option.split)
    have "map_udp procs n (s # socks) m = Inr (\<lambda>port. case ?m port of Some q \<Rightarrow> Some q
        | None \<Rightarrow> first_owner ds socks port)"
      by (simp only: step Cons.IH)
    also have "(\<lambda>port. case ?m port of Some q \<Rightarrow> Some q | None \<Rightarrow> first_owner ds socks port) =
        (\<lambda>port. case m port of Some q \<Rightarrow> Some q | None \<Rightarrow> first_owner ds (s # socks) port)"
      by (rule ext) (auto simp: s first_owner_Cons None split: option.splits)
    finally show ?thesis .
  next
    case (Some q)
    then show ?thesis
      using s Cons.IH by (auto simp: first_owner_Cons fun_eq_iff split: option.splits)
  qed
qed

lemma initializePortPidMap_eq:
  assumes "wf_table hdr_t tcp" and "wf_table hdr_u udp" and "wf_proc ds"
  shows "initializePortPidMap (Some (sock_table hdr_t tcp)) (Some (sock_table hdr_u udp)) (\<lambda>_. ds)
      (\<lambda>_. None) =
    Inr (\<lambda>port.
      case first_owner ds (rev (map sock_pair (filter (keeps_sock 0) tcp))) port of
        Some p \<Rightarrow> Some p
      | None \<Rightarrow> first_owner ds (map sock_pair (filter (keeps_sock 0) udp)) port)"
proof -
  let ?t = "map sock_pair (filter (keeps_sock 0) tcp)"
  obtain n where n: "map_tcp (\<lambda>_. ds) 0 ?t (\<lambda>_. None) =
      Inr (n, \<lambda>port. case first_owner ds (rev ?t) port of Some q \<Rightarrow> Some q | None \<Rightarrow> None)"
    using map_tcp_eq [of "\<lambda>_. ds" ds 0 ?t "\<lambda>_. None"] assms(3) by blast
  have u: "map_udp (\<lambda>_. ds) k s m =
      Inr (\<lambda>port. case m port of Some q \<Rightarrow> Some q | None \<Rightarrow> first_owner ds s port)" for k s m
    using map_udp_eq [of "\<lambda>_. ds" ds] assms(3) by blast
  show ?thesis
    using parse_table_eq [OF assms(1)] parse_table_eq [OF assms(2)] n u
    by (auto simp: initializePortPidMap_def fun_eq_iff split: option.split)
qed

text \<open>
  C17: The startup scan maps exactly the ports of sockets whose owner it can find. A TCP socket
  has priority over a UDP socket of the same port; among TCP sockets of a port the last one of the
  table wins, among UDP sockets the first.
\<close>

theorem initializePortPidMap_correct:
  assumes "wf_table hdr_t tcp" and "wf_table hdr_u udp" and "wf_proc ds"
  shows "initializePortPidMap (Some (sock_table hdr_t tcp)) (Some (sock_table hdr_u udp)) (\<lambda>_. ds)
      (\<lambda>_. None) =
    Inr (\<lambda>port.
      case first_owner ds (rev (map sock_pair (filter (keeps_sock 0) tcp))) port of
        Some p \<Rightarrow> Some p
      | None \<Rightarrow> first_owner ds (map sock_pair (filter (keeps_sock 0) udp)) port)"
  by (rule initializePortPidMap_eq [OF assms])

section \<open>Concrete tables\<close>

definition proc_net_header :: string where
  "proc_net_header = ''  sl  local_address rem_address   st tx_queue rx_queue tr tm->when retrnsmt   uid  timeout inode''"

definition example_sock :: "u16 \<Rightarrow> string \<Rightarrow> string \<Rightarrow> sock_line" where
  "example_sock port state inode =
     \<lparr>sl_pad = 3, sl = ''0'', laddr = ''0100007F'', lport = port, raddr = ''00000000'', rport = 0,
      st = state,
      columns = [(0, ''00000000:00000000''), (0, ''00:00000000''), (0, ''00000000''), (4, ''0''),
                 (8, ''0'')],
      inode_col = inode, rest_col = '' 1 0000000000000000 100 0 0 10 0''\<rparr>"

lemma example_sock_wf:
  "length state = 2 \<Longrightarrow> list_all is_upper_hex state \<Longrightarrow> inode \<noteq> [] \<Longrightarrow> list_all is_digit inode \<Longrightarrow>
    wf_sock (example_sock port state inode)"
  by (simp add: wf_sock_def example_sock_def wf_token_def is_space_def is_digit_def is_upper_hex_def)

definition example_tcp :: "sock_line list" where
  "example_tcp = [example_sock 631 ''0A'' ''777'', example_sock 39774 ''01'' ''31337'']"

definition example_udp :: "sock_line list" where
  "example_udp = [example_sock 53 ''07'' ''777'']"

lemma example_tables_wf: "wf_table proc_net_header example_tcp" "wf_table proc_net_header example_udp"
  using example_sock_wf
  by (auto simp: wf_table_def proc_net_header_def example_tcp_def example_udp_def is_digit_def
      is_upper_hex_def)

lemma example_proc_wf_proc: "wf_proc example_proc"
  using example_proc_wf by (simp add: wf_proc_def)

lemma example_owner:
  "inode_owner example_proc ''777'' = Some 812" "inode_owner example_proc ''31337'' = Some 2897"
  by (simp_all add: inode_owner_def example_proc_def owns_inode_def is_process_def is_digit_def
      entry_pid_def dec_val_def digit_val_def)

theorem parse_table_witness:
  "parseListeningSockets (Some (sock_table proc_net_header example_tcp)) 39774 = Inr [(''31337'', 39774)]"
  unfolding parse_table [OF example_tables_wf(1)]
  by (simp add: example_tcp_def example_sock_def)

theorem scanForPidByPort_correct_witness:
  "scanForPidByPort (Some (sock_table proc_net_header example_tcp))
     (Some (sock_table proc_net_header example_udp)) example_proc 0 CHR ''T'' = Inr 812"
  unfolding scanForPidByPort_correct [OF example_tables_wf example_proc_wf_proc]
  by (simp add: example_tcp_def example_sock_def example_owner)

theorem initializePortPidMap_correct_witness:
  "\<exists>m. initializePortPidMap (Some (sock_table proc_net_header example_tcp))
     (Some (sock_table proc_net_header example_udp)) (\<lambda>_. example_proc) (\<lambda>_. None) = Inr m \<and>
     m 39774 = Some 2897 \<and> m 53 = Some 812 \<and> m 80 = None"
  unfolding initializePortPidMap_correct [OF example_tables_wf example_proc_wf_proc]
  by (simp add: example_tcp_def example_udp_def example_sock_def first_owner_def resolved_def
      sock_pair_def keeps_sock_def example_owner)

end
