(* ===== verification/PortToPidMap.thy ===== *)
theory PortToPidMap
  imports ScanFiles
begin

text \<open>
  \<^verbatim>\<open>daemon/src/PortToPidMap.cpp\<close>: the daemon's table from ports to the processes that use them.
  What a call of the scanner finds on disk is an argument: the text of the two socket tables and
  the listing of \<^verbatim>\<open>/proc\<close>. \<open>addPidMapping\<close> holds the unique lock and \<open>getPid\<close> the shared lock
  for their whole bodies, so each is one atomic step. The log lines are not modelled.
\<close>

record scan_env =
  env_tcp :: "string option"
  env_udp :: "string option"
  env_procs :: "proc_entry list"

record port_to_pid_map =
  pmap :: port_map

definition PortToPidMap_ctor ::
  "string option \<Rightarrow> string option \<Rightarrow> (nat \<Rightarrow> proc_entry list) \<Rightarrow> cpp_exn + port_to_pid_map" where
  "PortToPidMap_ctor tcp udp procs =
     (case initializePortPidMap tcp udp procs (\<lambda>_. None) of
        Inl e \<Rightarrow> Inl e
      | Inr m \<Rightarrow> Inr \<lparr>pmap = m\<rparr>)"

text \<open>What \<open>addPidMapping\<close> does with the result of the scan.\<close>

definition store_pid :: "u16 \<Rightarrow> pid_t \<Rightarrow> port_to_pid_map \<Rightarrow> bool \<times> port_to_pid_map" where
  "store_pid port pid m =
     (if pid = -1 then (False, m) else (True, m\<lparr>pmap := (pmap m)(port \<mapsto> pid)\<rparr>))"

definition addPidMapping ::
  "scan_env \<Rightarrow> u16 \<Rightarrow> char \<Rightarrow> port_to_pid_map \<Rightarrow> cpp_exn + (bool \<times> port_to_pid_map)" where
  "addPidMapping e port protocol m =
     (case scanForPidByPort (env_tcp e) (env_udp e) (env_procs e) port protocol of
        Inl x \<Rightarrow> Inl x
      | Inr pid \<Rightarrow> Inr (store_pid port pid m))"

definition getPid :: "port_to_pid_map \<Rightarrow> u16 \<Rightarrow> pid_t" where
  "getPid m port = (if pmap m port \<noteq> None then the (pmap m port) else -1)"

section \<open>The directory its readers rely on\<close>

text \<open>
  A directory of process ids with a reserved answer: what is stored is never the answer for
  unknown ports, so a reader can tell the two apart.
\<close>

locale pid_directory =
  fixes put :: "u16 \<Rightarrow> pid_t \<Rightarrow> 'm \<Rightarrow> bool \<times> 'm"
    and look :: "'m \<Rightarrow> u16 \<Rightarrow> pid_t"
    and view :: "'m \<Rightarrow> port_map"
    and valid :: "'m \<Rightarrow> bool"
  assumes look_view: "look m port = (case view m port of None \<Rightarrow> -1 | Some p \<Rightarrow> p)"
    and valid_known: "valid m \<Longrightarrow> view m port \<noteq> Some (-1)"
    and put_result: "fst (put port p m) \<longleftrightarrow> p \<noteq> -1"
    and put_view: "view (snd (put port p m)) = (if p = -1 then view m else (view m)(port \<mapsto> p))"
    and put_valid: "valid m \<Longrightarrow> valid (snd (put port p m))"
begin

lemma look_known: "valid m \<Longrightarrow> look m port \<noteq> -1 \<longleftrightarrow> port \<in> dom (view m)"
  using valid_known [of m port] by (auto simp: look_view split: option.split)

lemma look_put: "look (snd (put port p m)) port' = (if p \<noteq> -1 \<and> port' = port then p else look m port')"
  by (simp add: look_view put_view)

text \<open>A run of updates: the last successful one of a port is what a reader sees.\<close>

definition put_all :: "(u16 \<times> pid_t) list \<Rightarrow> 'm \<Rightarrow> 'm" where
  "put_all us m = fold (\<lambda>(port, p) m. snd (put port p m)) us m"

lemma put_all_snoc: "put_all (us @ [(port, p)]) m = snd (put port p (put_all us m))"
  by (simp add: put_all_def)

lemma put_all_valid: "valid m \<Longrightarrow> valid (put_all us m)"
  by (induction us rule: rev_induct) (auto simp: put_all_snoc put_valid, simp add: put_all_def)

lemma look_put_all:
  "look (put_all us m) port =
     (case find (\<lambda>(q, p). q = port \<and> p \<noteq> -1) (rev us) of
        Some (_, p) \<Rightarrow> p
      | None \<Rightarrow> look m port)"
proof (induction us rule: rev_induct)
  case Nil
  show ?case by (simp add: put_all_def)
next
  case (snoc u us)
  obtain q p where "u = (q, p)" by fastforce
  then show ?case using snoc by (auto simp: put_all_snoc look_put)
qed

lemma dom_put_all: "dom (view m) \<subseteq> dom (view (put_all us m))"
proof (induction us rule: rev_induct)
  case Nil
  show ?case by (simp add: put_all_def)
next
  case (snoc u us)
  obtain q p where "u = (q, p)" by fastforce
  then show ?case using snoc by (auto simp: put_all_snoc put_view)
qed

end

definition ptp_valid :: "port_to_pid_map \<Rightarrow> bool" where
  "ptp_valid m \<longleftrightarrow> (\<forall>port. pmap m port \<noteq> Some (-1))"

interpretation ptp: pid_directory store_pid getPid pmap ptp_valid
  by unfold_locales (auto simp: store_pid_def getPid_def ptp_valid_def)

section \<open>The table never holds -1\<close>

lemma map_tcp_no_minus_1:
  "map_tcp procs n socks m = Inr (n', m') \<Longrightarrow> \<forall>p. m p \<noteq> Some (-1) \<Longrightarrow> \<forall>p. m' p \<noteq> Some (-1)"
proof (induction socks arbitrary: n m)
  case (Cons s socks)
  obtain inode p where s: "s = (inode, p)" by fastforce
  show ?case
    using Cons.prems s
    by (auto split: sum.splits if_splits dest!: Cons.IH)
qed simp

lemma map_udp_no_minus_1:
  "map_udp procs n socks m = Inr m' \<Longrightarrow> \<forall>p. m p \<noteq> Some (-1) \<Longrightarrow> \<forall>p. m' p \<noteq> Some (-1)"
proof (induction socks arbitrary: n m)
  case (Cons s socks)
  obtain inode p where s: "s = (inode, p)" by fastforce
  show ?case
    using Cons.prems s
    by (auto split: sum.splits if_splits dest!: Cons.IH)
qed simp

lemma ctor_valid: "PortToPidMap_ctor tcp udp procs = Inr m \<Longrightarrow> ptp_valid m"
  unfolding PortToPidMap_ctor_def initializePortPidMap_def ptp_valid_def
  by (auto split: sum.splits dest!: map_udp_no_minus_1 map_tcp_no_minus_1)

lemma addPidMapping_valid: "addPidMapping e port pr m = Inr (b, m') \<Longrightarrow> ptp_valid m \<Longrightarrow> ptp_valid m'"
  unfolding addPidMapping_def using ptp.put_valid by (auto split: sum.splits) (metis snd_conv)

section \<open>A history of updates\<close>

text \<open>The updates the main loop performs, one per packet, each with what the scanner saw.\<close>

fun addPidMappings ::
  "(scan_env \<times> u16 \<times> char) list \<Rightarrow> port_to_pid_map \<Rightarrow> cpp_exn + port_to_pid_map" where
  "addPidMappings [] m = Inr m"
| "addPidMappings ((e, port, pr) # us) m =
     (case addPidMapping e port pr m of
        Inl x \<Rightarrow> Inl x
      | Inr (_, m') \<Rightarrow> addPidMappings us m')"

definition scan_result :: "scan_env \<times> u16 \<times> char \<Rightarrow> u16 \<times> pid_t" where
  "scan_result u =
     (case u of (e, port, pr) \<Rightarrow>
        (port, case scanForPidByPort (env_tcp e) (env_udp e) (env_procs e) port pr of
                 Inl _ \<Rightarrow> -1 | Inr p \<Rightarrow> p))"

lemma addPidMappings_put_all:
  "addPidMappings us m = Inr m' \<Longrightarrow> m' = ptp.put_all (map scan_result us) m"
proof (induction us m rule: addPidMappings.induct)
  case (1 m)
  then show ?case by (simp add: ptp.put_all_def)
next
  case (2 e port pr us m)
  then obtain b m1 where "addPidMapping e port pr m = Inr (b, m1)" "addPidMappings us m1 = Inr m'"
    by (auto split: sum.splits)
  moreover from this(1) have "m1 = snd (store_pid port (snd (scan_result (e, port, pr))) m)"
    by (auto simp: addPidMapping_def scan_result_def split: sum.splits)
  ultimately show ?case using 2 by (simp add: ptp.put_all_def scan_result_def)
qed

lemma find_Some_set: "find P xs = Some x \<Longrightarrow> P x \<and> x \<in> set xs"
  by (auto simp: find_Some_iff)

text \<open>
  C21: What the table answers: after startup and any number of updates without an exception, the
  answer for a port is the result of the latest successful scan of that port, and if there was
  none, the owner found at startup; -1 is answered exactly for the ports that no scan resolved.
  A failed scan removes nothing, so an answer may be stale but never disappears.
\<close>

theorem getPid_latest:
  assumes "PortToPidMap_ctor tcp udp procs = Inr m" and "addPidMappings us m = Inr m'"
  shows "getPid m' port =
      (case find (\<lambda>(q, p). q = port \<and> p \<noteq> -1) (rev (map scan_result us)) of
         Some (_, p) \<Rightarrow> p
       | None \<Rightarrow> getPid m port) \<and>
    (getPid m' port = -1 \<longleftrightarrow>
      port \<notin> dom (pmap m) \<and> (\<forall>u \<in> set us. fst (scan_result u) = port \<longrightarrow> snd (scan_result u) = -1))"
proof
  let ?hit = "\<lambda>(q, p). q = port \<and> p \<noteq> (-1 :: pid_t)"
  show *: "getPid m' port = (case find ?hit (rev (map scan_result us)) of
      Some (_, p) \<Rightarrow> p | None \<Rightarrow> getPid m port)"
    using addPidMappings_put_all [OF assms(2)] ptp.look_put_all by simp
  show "getPid m' port = -1 \<longleftrightarrow>
      port \<notin> dom (pmap m) \<and> (\<forall>u \<in> set us. fst (scan_result u) = port \<longrightarrow> snd (scan_result u) = -1)"
  proof (cases "find ?hit (rev (map scan_result us))")
    case None
    then have "\<forall>u \<in> set us. fst (scan_result u) = port \<longrightarrow> snd (scan_result u) = -1"
      by (auto simp: find_None_iff split_beta)
    then show ?thesis
      using * None ptp.look_known [OF ctor_valid [OF assms(1)], of port] by auto
  next
    case (Some x)
    then have x: "?hit x" "x \<in> scan_result ` set us"
      using find_Some_set [OF Some] by simp_all
    then have "getPid m' port \<noteq> -1" using * Some by (cases x) simp
    then show ?thesis using x by (auto simp: split_beta)
  qed
qed

definition example_env :: scan_env where
  "example_env =
     \<lparr>env_tcp = Some (sock_table proc_net_header example_tcp),
      env_udp = Some (sock_table proc_net_header example_udp), env_procs = example_proc\<rparr>"

lemma example_scan: "scan_result (example_env, 39774, CHR ''T'') = (39774, 2897)"
  unfolding scan_result_def example_env_def scan_env.simps prod.case
    scanForPidByPort_eq [OF example_tables_wf example_proc_wf_proc]
  by (simp add: example_tcp_def example_sock_def example_owner)

lemma example_add: "addPidMapping example_env 39774 CHR ''T'' m = Inr (store_pid 39774 2897 m)"
  unfolding addPidMapping_def example_env_def scan_env.simps
    scanForPidByPort_eq [OF example_tables_wf example_proc_wf_proc]
  by (simp add: example_tcp_def example_sock_def example_owner)

theorem getPid_latest_witness:
  "\<exists>m m'. PortToPidMap_ctor None None (\<lambda>_. []) = Inr m \<and>
     addPidMappings [(example_env, 39774, CHR ''T'')] m = Inr m' \<and>
     getPid m' 39774 = 2897 \<and> getPid m' 80 = -1"
proof -
  obtain m where m: "PortToPidMap_ctor None None (\<lambda>_. []) = Inr m"
    by (simp add: PortToPidMap_ctor_def initializePortPidMap_def parseListeningSockets_def)
  then have "pmap m = (\<lambda>_. None)"
    by (auto simp: PortToPidMap_ctor_def initializePortPidMap_def parseListeningSockets_def)
  moreover obtain m' where m': "addPidMappings [(example_env, 39774, CHR ''T'')] m = Inr m'"
    by (simp add: example_add store_pid_def)
  ultimately show ?thesis
    using getPid_latest [OF m m', of 39774] getPid_latest [OF m m', of 80] m m' example_scan
    by auto
qed

end
