(* ===== verification/PacketHeap.thy ===== *)
theory PacketHeap
  imports PacketInfo
begin

text \<open>
  The C++ heap as far as the packet structs of the user-space programs need it: \<open>new pckt_info\<close>,
  \<open>delete\<close> and dereference. A pointer is an address, address 0 is \<open>nullptr\<close>. Deleting a block that
  is not allocated is undefined in C++; the model counts it in \<open>bad_frees\<close>, so that "no double
  free" is the statement that the counter stays 0. Fresh addresses are never reused, so a stale
  pointer is never mistaken for a live one.
\<close>

type_synonym ptr = nat

definition nullptr :: ptr where "nullptr = 0"

record packet_heap =
  cells :: "ptr \<Rightarrow> pckt_info option"
  next_ptr :: ptr
  bad_frees :: nat

definition heap_init :: packet_heap where
  "heap_init = \<lparr>cells = (\<lambda>_. None), next_ptr = 1, bad_frees = 0\<rparr>"

definition heap_new :: "pckt_info \<Rightarrow> packet_heap \<Rightarrow> ptr \<times> packet_heap" where
  "heap_new p h =
     (next_ptr h, h\<lparr>cells := (cells h)(next_ptr h \<mapsto> p), next_ptr := next_ptr h + 1\<rparr>)"

definition heap_delete :: "ptr \<Rightarrow> packet_heap \<Rightarrow> packet_heap" where
  "heap_delete a h =
     (if a = nullptr then h
      else if cells h a = None then h\<lparr>bad_frees := bad_frees h + 1\<rparr>
      else h\<lparr>cells := (cells h)(a := None)\<rparr>)"

abbreviation live :: "packet_heap \<Rightarrow> ptr set" where
  "live h \<equiv> dom (cells h)"

definition heap_wf :: "packet_heap \<Rightarrow> bool" where
  "heap_wf h \<longleftrightarrow> nullptr < next_ptr h \<and> live h \<subseteq> {nullptr <..< next_ptr h}"

lemma heap_wf_init [heap_simps]: "heap_wf heap_init"
  by (simp add: heap_wf_def heap_init_def nullptr_def)

lemma heap_wf_new [heap_simps]: "heap_wf h \<Longrightarrow> heap_wf (snd (heap_new p h))"
  by (force simp: heap_wf_def heap_new_def nullptr_def)

lemma heap_wf_delete [heap_simps]: "heap_wf h \<Longrightarrow> heap_wf (heap_delete a h)"
  by (force simp: heap_wf_def heap_delete_def)

lemma heap_new_fresh: "heap_wf h \<Longrightarrow> fst (heap_new p h) \<notin> live h \<and> fst (heap_new p h) \<noteq> nullptr"
  by (force simp: heap_wf_def heap_new_def)

lemma live_new [heap_simps]: "live (snd (heap_new p h)) = insert (next_ptr h) (live h)"
  by (auto simp: heap_new_def)

lemma cells_new [heap_simps]: "cells (snd (heap_new p h)) = (cells h)(next_ptr h \<mapsto> p)"
  by (simp add: heap_new_def)

lemma live_delete [heap_simps]: "heap_wf h \<Longrightarrow> live (heap_delete a h) = live h - {a}"
  by (auto simp: heap_delete_def heap_wf_def split: if_splits)

lemma bad_frees_new [heap_simps]: "bad_frees (snd (heap_new p h)) = bad_frees h"
  by (simp add: heap_new_def)

lemma bad_frees_delete [heap_simps]: "a \<in> live h \<Longrightarrow> bad_frees (heap_delete a h) = bad_frees h"
  by (auto simp: heap_delete_def)

lemma cells_delete_other [heap_simps]: "b \<noteq> a \<Longrightarrow> cells (heap_delete a h) b = cells h b"
  by (simp add: heap_delete_def)

text \<open>Freeing a list of blocks, one after the other.\<close>

fun heap_delete_all :: "ptr list \<Rightarrow> packet_heap \<Rightarrow> packet_heap" where
  "heap_delete_all [] h = h"
| "heap_delete_all (a # as) h = heap_delete_all as (heap_delete a h)"

lemma heap_delete_all_wf: "heap_wf h \<Longrightarrow> heap_wf (heap_delete_all as h)"
  by (induction as h rule: heap_delete_all.induct) (auto simp: heap_simps)

lemma heap_delete_all_append:
  "heap_delete_all (as @ bs) h = heap_delete_all bs (heap_delete_all as h)"
  by (induction as h rule: heap_delete_all.induct) auto

lemma live_delete_all: "heap_wf h \<Longrightarrow> live (heap_delete_all as h) = live h - set as"
  by (induction as h rule: heap_delete_all.induct) (auto simp: heap_simps)

lemma bad_frees_delete_all:
  "heap_wf h \<Longrightarrow> distinct as \<Longrightarrow> set as \<subseteq> live h \<Longrightarrow>
    bad_frees (heap_delete_all as h) = bad_frees h"
proof (induction as h rule: heap_delete_all.induct)
  case (2 a as h)
  have "set as \<subseteq> live (heap_delete a h)"
    using "2.prems" by (auto simp: live_delete)
  with 2 show ?case by (simp add: heap_simps)
qed simp

lemma cells_delete_all: "a \<notin> set as \<Longrightarrow> cells (heap_delete_all as h) a = cells h a"
  by (induction as h rule: heap_delete_all.induct) (auto simp: heap_simps)

end
