(* ===== verification/MessageQueue.thy ===== *)
theory MessageQueue
  imports PacketHeap
begin

text \<open>
  \<^verbatim>\<open>shared/message_queue/MessageQueue.cpp\<close>: the queue of packet pointers between the receiving
  thread and the main thread. Each method holds the queue's mutex for its whole body, so a method
  is one atomic step; a schedule of the two threads is a list of operations.
\<close>

record message_queue =
  queue :: "ptr list"

definition mq_init :: message_queue where
  "mq_init = \<lparr>queue = []\<rparr>"

definition mq_push :: "ptr \<Rightarrow> message_queue \<Rightarrow> message_queue" where
  "mq_push pckt q = q\<lparr>queue := queue q @ [pckt]\<rparr>"

definition mq_pop :: "message_queue \<Rightarrow> ptr \<times> message_queue" where
  "mq_pop q =
     (case queue q of
        [] \<Rightarrow> (nullptr, q)
      | pckt # rest \<Rightarrow> (pckt, q\<lparr>queue := rest\<rparr>))"

definition mq_empty :: "message_queue \<Rightarrow> bool" where
  "mq_empty q \<longleftrightarrow> queue q = []"

section \<open>The interface its clients use\<close>

text \<open>An interleaving of calls of the queue's users, and what the pops of it return.\<close>

datatype qop = Push ptr | Pop

fun run_qops ::
  "(ptr \<Rightarrow> 'q \<Rightarrow> 'q) \<Rightarrow> ('q \<Rightarrow> ptr \<times> 'q) \<Rightarrow> qop list \<Rightarrow> 'q \<Rightarrow> ptr list \<times> 'q" where
  "run_qops push pop [] q = ([], q)"
| "run_qops push pop (Push a # ops) q = run_qops push pop ops (push a q)"
| "run_qops push pop (Pop # ops) q =
     (let (a, q') = pop q; (as, q'') = run_qops push pop ops q' in (a # as, q''))"

lemma run_qops_Pop:
  "run_qops push pop (Pop # ops) q =
     (fst (pop q) # fst (run_qops push pop ops (snd (pop q))),
      snd (run_qops push pop ops (snd (pop q))))"
  by (simp split: prod.split)

declare run_qops.simps(3) [simp del]

fun pushed :: "qop list \<Rightarrow> ptr list" where
  "pushed [] = []"
| "pushed (Push a # ops) = a # pushed ops"
| "pushed (Pop # ops) = pushed ops"

locale packet_queue =
  fixes init :: 'q
    and push :: "ptr \<Rightarrow> 'q \<Rightarrow> 'q"
    and pop :: "'q \<Rightarrow> ptr \<times> 'q"
    and is_empty :: "'q \<Rightarrow> bool"
    and contents :: "'q \<Rightarrow> ptr list"
  assumes contents_init: "contents init = []"
    and contents_push: "contents (push a q) = contents q @ [a]"
    and pop_none: "contents q = [] \<Longrightarrow> pop q = (nullptr, q)"
    and pop_some: "contents q = a # as \<Longrightarrow> fst (pop q) = a \<and> contents (snd (pop q)) = as"
    and is_empty_iff: "is_empty q \<longleftrightarrow> contents q = []"
begin

lemma pop_null_iff:
  assumes "nullptr \<notin> set (contents q)"
  shows "fst (pop q) = nullptr \<longleftrightarrow> is_empty q"
proof (cases "contents q")
  case Nil
  then show ?thesis by (simp add: pop_none is_empty_iff)
next
  case (Cons a as)
  then show ?thesis using assms pop_some [OF Cons] by (auto simp: is_empty_iff)
qed

lemma run_qops_fifo:
  assumes "nullptr \<notin> set (contents q @ pushed ops)"
  shows "filter (\<lambda>a. a \<noteq> nullptr) (fst (run_qops push pop ops q)) @
           contents (snd (run_qops push pop ops q)) = contents q @ pushed ops"
  using assms
proof (induction ops arbitrary: q)
  case (Cons op ops)
  show ?case
  proof (cases op)
    case (Push a)
    then show ?thesis using Cons by (simp add: contents_push)
  next
    case Pop
    show ?thesis
    proof (cases "contents q")
      case Nil
      then show ?thesis using Cons Pop by (simp add: run_qops_Pop pop_none)
    next
      case (Cons a as)
      with pop_some [OF Cons] Cons.IH [of "snd (pop q)"] Cons.prems Pop show ?thesis
        by (simp add: run_qops_Pop)
    qed
  qed
qed simp

end

interpretation mqi: packet_queue mq_init mq_push mq_pop mq_empty queue
  by unfold_locales (auto simp: mq_init_def mq_push_def mq_pop_def mq_empty_def)

lemmas mq_defs = mq_init_def mq_push_def mq_pop_def mq_empty_def

text \<open>
  C22: First in, first out under every interleaving of the receiving thread's pushes and the main
  thread's pops: the packets popped so far, followed by the packets still queued, are the packets
  that were queued at the start followed by those pushed, in that order. None is lost,
  duplicated or reordered.
\<close>

theorem message_queue_fifo:
  assumes "nullptr \<notin> set (queue q @ pushed ops)"
  shows "filter (\<lambda>a. a \<noteq> nullptr) (fst (run_qops mq_push mq_pop ops q)) @
           queue (snd (run_qops mq_push mq_pop ops q)) = queue q @ pushed ops"
  using assms by (rule mqi.run_qops_fifo)

theorem message_queue_fifo_witness:
  "filter (\<lambda>a. a \<noteq> nullptr)
     (fst (run_qops mq_push mq_pop [Push 4, Pop, Pop, Push 7, Push 9, Pop] mq_init)) @
   queue (snd (run_qops mq_push mq_pop [Push 4, Pop, Pop, Push 7, Push 9, Pop] mq_init)) = [4, 7, 9]"
  using message_queue_fifo [of mq_init "[Push 4, Pop, Pop, Push 7, Push 9, Pop]"]
  by (simp add: mq_defs nullptr_def run_qops_Pop)

end
