(* ===== verification/Posix.thy ===== *)
theory Posix
  imports HK_Prelude
begin

text \<open>
  What the sockets code needs of the operating system: the process's descriptor table and the
  outcomes of the calls. A system call's result is an argument of the model; its effect on the
  descriptor table is written here. Closing a number that is not open is counted in \<open>bad_closes\<close>
  (the call fails with EBADF, or hits a descriptor that another thread has opened since).
\<close>

record os =
  open_fds :: "fd list"
  bad_closes :: nat
  sock_file :: bool
    \<comment> \<open>the file of the daemon's socket exists\<close>

definition os_open :: "fd \<Rightarrow> os \<Rightarrow> os" where
  "os_open n s = (if n < 0 then s else s\<lparr>open_fds := n # open_fds s\<rparr>)"

definition os_close :: "fd \<Rightarrow> os \<Rightarrow> os" where
  "os_close n s =
     (if n \<in> set (open_fds s) then s\<lparr>open_fds := removeAll n (open_fds s)\<rparr>
      else s\<lparr>bad_closes := bad_closes s + 1\<rparr>)"

text \<open>A call that returns a descriptor returns a number that is not in use, or a negative one.\<close>

definition fresh_fd :: "fd \<Rightarrow> os \<Rightarrow> bool" where
  "fresh_fd n s \<longleftrightarrow> n \<notin> set (open_fds s)"

text \<open>
  Writing to a stream whose peer is gone raises SIGPIPE, whose default action ends the process,
  unless the call asks for no signal. Reading yields the bytes received (none: end of stream).
\<close>

datatype write_outcome = Wrote nat | WriteError | PeerGone

datatype read_outcome = GotBytes mem | ReadError

datatype signal_death = SigPipe

lemma open_fds_os_open [os_simps]:
  "set (open_fds (os_open n s)) = (if n < 0 then set (open_fds s) else insert n (set (open_fds s)))"
  by (simp add: os_open_def)

lemma open_fds_os_close [os_simps]: "set (open_fds (os_close n s)) = set (open_fds s) - {n}"
  by (auto simp: os_close_def)

lemma bad_closes_os_open [os_simps]: "bad_closes (os_open n s) = bad_closes s"
  by (simp add: os_open_def)

lemma bad_closes_os_close [os_simps]:
  "bad_closes (os_close n s) = (if n \<in> set (open_fds s) then bad_closes s else bad_closes s + 1)"
  by (simp add: os_close_def)

section \<open>Descriptor discipline\<close>

text \<open>
  What every user of descriptors owes the table: what it says it owns is open, it closes nothing
  else, and when it gives a descriptor up the descriptor is closed. \<open>fd_frame ds s ds' s'\<close>
  is one operation that owned \<open>ds\<close> before and owns \<open>ds'\<close> after.
\<close>

definition fd_frame :: "fd set \<Rightarrow> os \<Rightarrow> fd set \<Rightarrow> os \<Rightarrow> bool" where
  "fd_frame ds s ds' s' \<longleftrightarrow>
     ds' \<subseteq> set (open_fds s') \<and> bad_closes s' = bad_closes s \<and>
     set (open_fds s') - ds' = set (open_fds s) - ds"

lemma fd_frame_refl [os_simps]: "ds \<subseteq> set (open_fds s) \<Longrightarrow> fd_frame ds s ds s"
  by (simp add: fd_frame_def)

lemma fd_frame_trans: "fd_frame a s b t \<Longrightarrow> fd_frame b t c u \<Longrightarrow> fd_frame a s c u"
  by (simp add: fd_frame_def)

lemma fd_frame_open:
  "ds \<subseteq> set (open_fds s) \<Longrightarrow> 0 \<le> n \<Longrightarrow> fresh_fd n s \<Longrightarrow> fd_frame ds s (insert n ds) (os_open n s)"
  by (auto simp: fd_frame_def fresh_fd_def os_simps)

lemma fd_frame_close:
  "ds \<subseteq> set (open_fds s) \<Longrightarrow> n \<in> ds \<Longrightarrow> fd_frame ds s (ds - {n}) (os_close n s)"
  by (auto simp: fd_frame_def os_simps)

text \<open>
  A component with an invariant \<open>wf\<close>, the descriptors it owns in each of its states, and its
  operations as steps: what holds of each operation holds of every run.
\<close>

locale fd_component =
  fixes owned :: "'c \<Rightarrow> fd set"
    and wf :: "'c \<Rightarrow> bool"
    and step :: "'c \<times> os \<Rightarrow> 'c \<times> os \<Rightarrow> bool"
  assumes step_frame:
      "step (c, s) (c', s') \<Longrightarrow> wf c \<Longrightarrow> owned c \<subseteq> set (open_fds s) \<Longrightarrow>
        wf c' \<and> fd_frame (owned c) s (owned c') s'"
begin

lemma run_frame:
  assumes "step\<^sup>*\<^sup>* (c, s) (c', s')" and "wf c" and "owned c \<subseteq> set (open_fds s)"
  shows "wf c' \<and> fd_frame (owned c) s (owned c') s'"
  using assms(1)
proof (induction "(c', s')" arbitrary: c' s' rule: rtranclp_induct)
  case base
  with assms show ?case by (simp add: fd_frame_refl)
next
  case (step y)
  obtain d u where y: "y = (d, u)" by fastforce
  with step.hyps(3) have d: "wf d" "fd_frame (owned c) s (owned d) u" by blast+
  then have "wf c' \<and> fd_frame (owned d) u (owned c') s'"
    using step_frame step.hyps(2) y by (simp add: fd_frame_def)
  then show ?case using fd_frame_trans [OF d(2)] by blast
qed

lemma run_released:
  assumes "step\<^sup>*\<^sup>* (c, s) (c', s')" and "wf c" and "owned c \<subseteq> set (open_fds s)"
  shows "set (open_fds s') = (set (open_fds s) - owned c) \<union> owned c' \<and> bad_closes s' = bad_closes s"
  using run_frame [OF assms] by (auto simp: fd_frame_def)

end

end
