(* ===== verification/NetLinkClient.thy ===== *)
theory NetLinkClient
  imports PacketHeap Posix
begin

text \<open>
  \<^verbatim>\<open>shared/netlink_client/NetLinkClient.cpp\<close>: the netlink socket of the user-space programs.
  The results of \<open>socket\<close>, \<open>bind\<close>, \<open>getpid\<close>, \<open>malloc\<close>, \<open>sendmsg\<close> and \<open>recv\<close> are arguments.
\<close>

section \<open>State, construction and destruction\<close>

record sockaddr_nl =
  nl_pid :: u32
  nl_groups :: u32

text \<open>An address that was never filled in is \<open>None\<close>.\<close>

record netlink_client =
  sock_fd :: fd
  src_addr :: "sockaddr_nl option"
  dest_addr :: "sockaddr_nl option"

definition NetLinkClient_ctor :: "fd \<Rightarrow> int \<Rightarrow> u32 \<Rightarrow> os \<Rightarrow> netlink_client \<times> os" where
  "NetLinkClient_ctor socket_res bind_res pid s =
     (if socket_res < 0 then (\<lparr>sock_fd = socket_res, src_addr = None, dest_addr = None\<rparr>, s)
      else
        let s1 = os_open socket_res s;
            c = \<lparr>sock_fd = socket_res, src_addr = Some \<lparr>nl_pid = pid, nl_groups = 0\<rparr>, dest_addr = None\<rparr>;
            (c, s2) = (if bind_res < 0 then (c\<lparr>sock_fd := -1\<rparr>, os_close socket_res s1) else (c, s1))
        in (c\<lparr>dest_addr := Some \<lparr>nl_pid = 0, nl_groups = 0\<rparr>\<rparr>, s2))"

definition NetLinkClient_dtor :: "netlink_client \<Rightarrow> os \<Rightarrow> netlink_client \<times> os" where
  "NetLinkClient_dtor c s =
     (if sock_fd c \<noteq> -1 then (c\<lparr>sock_fd := -1\<rparr>, os_close (sock_fd c) s) else (c, s))"

section \<open>Sending a command\<close>

text \<open>The message \<open>sendMessage\<close> lays out: a header and 1024 zeroed bytes with the text in front.\<close>

definition message_bytes :: "u32 \<Rightarrow> string \<Rightarrow> mem" where
  "message_bytes pid msg =
     (let nlh = replicate (NLMSG_SPACE MAX_PAYLOAD) nul;
          nlh = store 0 (word_bytes (word_of_nat (NLMSG_SPACE MAX_PAYLOAD) :: u32)) nlh;
          nlh = store 12 (word_bytes pid) nlh;
          nlh = store 6 (word_bytes (0 :: u16)) nlh;
          nlh = store NLMSG_HDRLEN (strncpy msg (MAX_PAYLOAD - 1)) nlh
      in store (NLMSG_HDRLEN + (MAX_PAYLOAD - 1)) [nul] nlh)"

text \<open>
  The result is what the method returns and the datagram handed to \<open>sendmsg\<close>, if it got that far.
\<close>

definition sendMessage ::
  "netlink_client \<Rightarrow> bool \<Rightarrow> u32 \<Rightarrow> int \<Rightarrow> string \<Rightarrow> bool \<times> mem option" where
  "sendMessage c malloc_ok pid sendmsg_res msg =
     (if sock_fd c < 0 then (False, None)
      else if \<not> malloc_ok then (False, None)
      else
        let datagram = message_bytes pid msg in
        if sendmsg_res < 0 then (False, Some datagram) else (True, Some datagram))"

section \<open>Receiving a packet\<close>

text \<open>
  \<open>recv\<close> fills the front of the 1024-byte stack buffer, whose old content is \<open>garbage\<close>, and cuts
  a longer datagram. The length test uses the header's own \<open>nlmsg_len\<close> in unsigned 32-bit
  arithmetic, not the number of bytes received.
\<close>

definition recv_buffer :: "mem \<Rightarrow> mem \<Rightarrow> mem" where
  "recv_buffer garbage datagram =
     (let d = take MAX_PAYLOAD datagram in d @ drop (length d) garbage)"

definition receivePacketInfo ::
  "netlink_client \<Rightarrow> mem \<Rightarrow> read_outcome \<Rightarrow> packet_heap \<Rightarrow> ptr \<times> packet_heap" where
  "receivePacketInfo c garbage r h =
     (case r of
        ReadError \<Rightarrow> (nullptr, h)
      | GotBytes datagram \<Rightarrow>
          let buffer = recv_buffer garbage datagram;
              payloadLen = nlmsg_len (hdr_of_mem buffer) - word_of_nat NLMSG_HDRLEN
          in if payloadLen \<noteq> word_of_nat sizeof_pckt_info then (nullptr, h)
             else heap_new (pckt_of_mem (load 0 sizeof_pckt_info (nlmsg_data buffer))) h)"

definition freePacketInfo :: "ptr \<Rightarrow> packet_heap \<Rightarrow> packet_heap" where
  "freePacketInfo pckt h = heap_delete pckt h"

section \<open>Properties\<close>

lemma store_append_mid:
  "length a = off \<Longrightarrow> length bs = length b \<Longrightarrow> store off bs (a @ b @ c) = a @ bs @ c"
  by (simp add: store_def)

lemma message_bytes_layout:
  "message_bytes pid msg =
     hdr_mem \<lparr>nlmsg_len = 1040, nlmsg_type = 0, nlmsg_flags = 0, nlmsg_seq = 0, nlmsg_pid = pid\<rparr> @
     strncpy msg 1023 @ [nul]"
proof -
  let ?z = "\<lambda>n. replicate n nul"
  let ?len = "word_bytes (1040 :: u32)"
  have z0: "?z 1040 = ?z 1039 @ [nul]"
    using replicate_add [of 1039 1 nul] by simp
  have z1: "?z 1039 = ?z 4 @ ?z 2 @ ?z 2 @ ?z 4 @ ?z 4 @ ?z 1023"
    by (simp only: replicate_add [symmetric]) simp
  have z: "?z 1040 = ?z 4 @ ?z 2 @ ?z 2 @ ?z 4 @ ?z 4 @ ?z 1023 @ [nul]"
    by (simp only: z0 z1 append_assoc)
  have w: "word_bytes (0 :: u16) = ?z 2" "word_bytes (0 :: u32) = ?z 4"
    by (simp_all add: word_bytes_0)
  have 1: "store 0 ?len (?z 1040) = ?len @ ?z 2 @ ?z 2 @ ?z 4 @ ?z 4 @ ?z 1023 @ [nul]"
    unfolding z using store_append_mid [of "[]" 0 ?len "?z 4"] by simp
  have 2: "store 12 (word_bytes pid) (?len @ ?z 2 @ ?z 2 @ ?z 4 @ ?z 4 @ ?z 1023 @ [nul]) =
      ?len @ ?z 2 @ ?z 2 @ ?z 4 @ word_bytes pid @ ?z 1023 @ [nul]"
    using store_append_mid [of "?len @ ?z 2 @ ?z 2 @ ?z 4" 12 "word_bytes pid" "?z 4"] by simp
  have 3: "store 6 (word_bytes (0 :: u16)) (?len @ ?z 2 @ ?z 2 @ ?z 4 @ word_bytes pid @ ?z 1023 @ [nul]) =
      ?len @ ?z 2 @ ?z 2 @ ?z 4 @ word_bytes pid @ ?z 1023 @ [nul]"
    using store_append_mid [of "?len @ ?z 2" 6 "?z 2" "?z 2"] by (simp add: w)
  have 4: "store 16 (strncpy msg 1023) (?len @ ?z 2 @ ?z 2 @ ?z 4 @ word_bytes pid @ ?z 1023 @ [nul]) =
      ?len @ ?z 2 @ ?z 2 @ ?z 4 @ word_bytes pid @ strncpy msg 1023 @ [nul]"
    using store_append_mid [of "?len @ ?z 2 @ ?z 2 @ ?z 4 @ word_bytes pid" 16
        "strncpy msg 1023" "?z 1023"] by simp
  have 5: "store 1039 [nul] (?len @ ?z 2 @ ?z 2 @ ?z 4 @ word_bytes pid @ strncpy msg 1023 @ [nul]) =
      ?len @ ?z 2 @ ?z 2 @ ?z 4 @ word_bytes pid @ strncpy msg 1023 @ [nul]"
    using store_append_mid [of "?len @ ?z 2 @ ?z 2 @ ?z 4 @ word_bytes pid @ strncpy msg 1023" 1039
        "[nul]" "[nul]" "[]"] by simp
  have maxp: "16 + 1023 = (1039 :: nat)" "MAX_PAYLOAD - 1 = 1023"
    by (simp_all add: MAX_PAYLOAD_def)
  have len: "word_of_nat 1040 = (1040 :: u32)"
    by simp
  show ?thesis
    unfolding message_bytes_def Let_def NLMSG_SPACE_MAX NLMSG_HDRLEN
    unfolding maxp len 1 2 3 4 5 by (simp add: hdr_mem_def w)
qed

subsection \<open>Commands to the kernel\<close>

lemma message_bytes_command [bytes_simps]:
  "c_string (nlmsg_data (message_bytes pid msg)) = Some (take 1023 (takeWhile (\<lambda>c. c \<noteq> nul) msg))"
  "nlmsg_pid (hdr_of_mem (message_bytes pid msg)) = pid"
  "length (message_bytes pid msg) = 1040"
  "nlmsg_len (hdr_of_mem (message_bytes pid msg)) = 1040"
  by (simp_all add: message_bytes_layout c_string_strncpy [of msg 1023 "[]", simplified] bytes_simps)

lemma takeWhile_nul_free: "nul \<notin> set s \<Longrightarrow> takeWhile (\<lambda>c. c \<noteq> nul) s = s"
  by (induction s) auto

text \<open>
  C32: \<open>sendMessage\<close> puts exactly the command on the wire: when it reports success the datagram
  is 1040 bytes, starts with a header that says so and carries the sender's process id, and its
  payload read as a C string is the command (up to 1023 bytes of it). It hands over nothing when
  there is no socket or no memory, and reports failure then and when \<open>sendmsg\<close> fails.
\<close>

theorem sendMessage_correct:
  "sendMessage c malloc_ok pid res msg =
     (0 \<le> sock_fd c \<and> malloc_ok \<and> 0 \<le> res,
      if 0 \<le> sock_fd c \<and> malloc_ok then Some (message_bytes pid msg) else None) \<and>
   length (message_bytes pid msg) = 1040 \<and>
   nlmsg_len (hdr_of_mem (message_bytes pid msg)) = 1040 \<and>
   nlmsg_pid (hdr_of_mem (message_bytes pid msg)) = pid \<and>
   c_string (nlmsg_data (message_bytes pid msg)) = Some (take 1023 (takeWhile (\<lambda>c. c \<noteq> nul) msg))"
  by (auto simp: sendMessage_def Let_def message_bytes_command)

subsection \<open>Packets from the kernel\<close>

lemma recv_buffer_prefix:
  "length d \<le> MAX_PAYLOAD \<Longrightarrow> recv_buffer g d = d @ drop (length d) g"
  by (simp add: recv_buffer_def)

lemma receive_null_or_new:
  "receivePacketInfo c g r h = (nullptr, h) \<or> (\<exists>p. receivePacketInfo c g r h = heap_new p h)"
  by (auto simp: receivePacketInfo_def Let_def split: read_outcome.split)

lemma receivePacketInfo_eq:
  assumes "length m = sizeof_pckt_info"
  shows "receivePacketInfo c g (GotBytes (hdr_mem hdr @ m)) h =
      (if nlmsg_len hdr = 36 then heap_new (pckt_of_mem m) h else (nullptr, h)) \<and>
    receivePacketInfo c g ReadError h = (nullptr, h)"
proof -
  have "recv_buffer g (hdr_mem hdr @ m) = hdr_mem hdr @ m @ drop 36 g"
    using assms by (simp add: recv_buffer_prefix MAX_PAYLOAD_def)
  moreover have "load 0 20 (m @ drop 36 g) = m"
    using assms by (simp add: load_def)
  moreover have "nlmsg_len hdr - 16 = 20 \<longleftrightarrow> nlmsg_len hdr = 36"
    by (simp add: diff_eq_eq)
  ultimately show ?thesis
    by (simp add: receivePacketInfo_def Let_def)
qed

text \<open>
  A message of the kernel module is received as sent: for every 20-byte struct behind a
  header that declares 36 bytes, the receiver allocates one block that holds the decoded struct,
  whatever was in its buffer before. A failed \<open>recv\<close> and a header with any other length give
  \<open>nullptr\<close> and allocate nothing.
\<close>

theorem receivePacketInfo_correct:
  assumes "length m = sizeof_pckt_info"
  shows "receivePacketInfo c g (GotBytes (hdr_mem hdr @ m)) h =
      (if nlmsg_len hdr = 36 then heap_new (pckt_of_mem m) h else (nullptr, h)) \<and>
    receivePacketInfo c g ReadError h = (nullptr, h)"
  using receivePacketInfo_eq [OF assms] .

text \<open>The same for any 36 bytes whose header declares 36 bytes.\<close>

lemma receive_wire:
  assumes "length m = 36" and "nlmsg_len (hdr_of_mem m) = 36"
  shows "receivePacketInfo c g (GotBytes m) h = heap_new (pckt_of_mem (nlmsg_data m)) h"
proof -
  have b: "recv_buffer g m = m @ drop 36 g"
    using assms by (simp add: recv_buffer_prefix MAX_PAYLOAD_def)
  have "hdr_of_mem (m @ drop 36 g) = hdr_of_mem m"
    using assms by (simp add: hdr_of_mem_def load_append_left)
  moreover have "load 0 20 (nlmsg_data (m @ drop 36 g)) = nlmsg_data m"
    using assms by (simp add: nlmsg_data_def load_def)
  ultimately show ?thesis
    using assms(2) b by (simp add: receivePacketInfo_def Let_def)
qed

subsection \<open>The descriptor\<close>

definition nlc_owned :: "netlink_client \<Rightarrow> fd set" where
  "nlc_owned c = (if sock_fd c < 0 then {} else {sock_fd c})"

lemma nlc_ctor_frame:
  assumes "-1 \<le> socket_res" and "fresh_fd socket_res s"
    and "NetLinkClient_ctor socket_res bind_res pid s = (c, s')"
  shows "fd_frame {} s (nlc_owned c) s' \<and> -1 \<le> sock_fd c"
  using assms
  by (auto simp: NetLinkClient_ctor_def nlc_owned_def fd_frame_def fresh_fd_def os_simps Let_def
      split: if_splits)

lemma nlc_dtor_frame:
  assumes "-1 \<le> sock_fd c" and "nlc_owned c \<subseteq> set (open_fds s)"
    and "NetLinkClient_dtor c s = (c', s')"
  shows "fd_frame (nlc_owned c) s {} s' \<and> sock_fd c' = -1"
  using assms
  by (auto simp: NetLinkClient_dtor_def nlc_owned_def fd_frame_def os_simps split: if_splits)

text \<open>
  The netlink client neither leaks nor double-closes its socket: whatever \<open>socket\<close> and
  \<open>bind\<close> return, construction followed by destruction leaves the descriptor table as it was.
\<close>

theorem netlink_client_releases:
  assumes "-1 \<le> socket_res" and "fresh_fd socket_res s"
    and "NetLinkClient_ctor socket_res bind_res pid s = (c, s1)"
    and "NetLinkClient_dtor c s1 = (c', s2)"
  shows "set (open_fds s2) = set (open_fds s) \<and> bad_closes s2 = bad_closes s \<and> sock_fd c' = -1"
proof -
  have 1: "fd_frame {} s (nlc_owned c) s1" "-1 \<le> sock_fd c"
    using nlc_ctor_frame [OF assms(1-3)] by auto
  then have 2: "fd_frame (nlc_owned c) s1 {} s2" "sock_fd c' = -1"
    using nlc_dtor_frame [OF _ _ assms(4)] by (auto simp: fd_frame_def)
  show ?thesis using fd_frame_trans [OF 1(1) 2(1)] 2(2) by (simp add: fd_frame_def)
qed

theorem netlink_client_releases_witness:
  "set (open_fds (snd (NetLinkClient_dtor
      (fst (NetLinkClient_ctor 3 (-1) 812 \<lparr>open_fds = [2, 1, 0], bad_closes = 0, sock_file = False\<rparr>))
      (snd (NetLinkClient_ctor 3 (-1) 812 \<lparr>open_fds = [2, 1, 0], bad_closes = 0, sock_file = False\<rparr>))))) = {0, 1, 2}"
  using netlink_client_releases
    [of 3 "\<lparr>open_fds = [2, 1, 0], bad_closes = 0, sock_file = False\<rparr>" "-1" 812, OF _ _ prod.collapse [symmetric]
      prod.collapse [symmetric]]
  by (simp add: fresh_fd_def) blast

theorem receivePacketInfo_correct_witness:
  "let m = pckt_mem [nul, nul, nul]
         \<lparr>src_ip = 1, dst_ip = 2, src_port = 3, dst_port = 4, payload_size = 0, proto = CHR ''T''\<rparr>;
       hdr = \<lparr>nlmsg_len = 36, nlmsg_type = 3, nlmsg_flags = 0, nlmsg_seq = 0, nlmsg_pid = 0\<rparr>;
       c = \<lparr>sock_fd = 3, src_addr = None, dest_addr = None\<rparr>
   in fst (receivePacketInfo c (replicate 1024 CHR ''g'') (GotBytes (hdr_mem hdr @ m)) heap_init) = 1"
  unfolding Let_def
  by (subst receivePacketInfo_correct [THEN conjunct1])
    (simp_all add: heap_new_def heap_init_def)

end
