(* ===== verification/SharedThreads.thy ===== *)
theory SharedThreads
  imports MessageQueue NetLinkClient "HOL-Library.Multiset"
begin

text \<open>
  \<^verbatim>\<open>shared/config/UserSpaceConfig.h\<close>: the flag \<open>running\<close>, the signal handler, the receiving thread
  and the final cleaning of the queue, shared by the daemon and the packet hunter. The receiving
  thread is a program counter and one function per atomic action (a read of the flag, a \<open>recv\<close>
  with the allocation that follows, the test and the push), so that it can be interleaved with the
  main thread. Reading a freed packet is the state \<open>RxFault\<close>.
\<close>

record shared =
  running :: bool
  heap :: packet_heap
  mqueue :: message_queue

definition handleSignal :: "shared \<Rightarrow> shared" where
  "handleSignal s = s\<lparr>running := False\<rparr>"

section \<open>The receiving thread\<close>

datatype rx_pc = RxIdle | RxTop | RxRecv | RxHave ptr | RxEnd | RxFault

fun recvPacketInfoThread ::
  "netlink_client \<Rightarrow> mem \<Rightarrow> read_outcome \<Rightarrow> rx_pc \<times> shared \<Rightarrow> rx_pc \<times> shared" where
  "recvPacketInfoThread c g r (RxTop, s) = ((if running s then RxRecv else RxEnd), s)"
| "recvPacketInfoThread c g r (RxRecv, s) =
     (let (pckt, h) = receivePacketInfo c g r (heap s)
      in (if pckt \<noteq> nullptr then RxHave pckt else RxTop, s\<lparr>heap := h\<rparr>))"
| "recvPacketInfoThread c g r (RxHave pckt, s) =
     (case cells (heap s) pckt of
        None \<Rightarrow> (RxFault, s)
      | Some p \<Rightarrow>
          if is_stop_pckt p then (RxEnd, s)
          else (RxTop, s\<lparr>mqueue := mq_push pckt (mqueue s)\<rparr>))"
| "recvPacketInfoThread c g r (pc, s) = (pc, s)"

section \<open>Cleaning the queue\<close>

function cleanMessageQueue :: "message_queue \<Rightarrow> packet_heap \<Rightarrow> message_queue \<times> packet_heap" where
  "cleanMessageQueue q h =
     (if mq_empty q then (q, h)
      else
        let (pckt, q') = mq_pop q
        in cleanMessageQueue q' (if pckt \<noteq> nullptr then freePacketInfo pckt h else h))"
  by pat_completeness auto

termination
  by (relation "measure (\<lambda>(q, h). length (queue q))")
    (auto simp: mq_empty_def mq_pop_def neq_Nil_conv)

declare cleanMessageQueue.simps [simp del]

lemma cleanMessageQueue_eq:
  "cleanMessageQueue q h = (\<lparr>queue = []\<rparr>, heap_delete_all (queue q) h)"
proof (induction q h rule: cleanMessageQueue.induct)
  case (1 q h)
  show ?case
  proof (cases "queue q")
    case Nil
    then show ?thesis by (subst cleanMessageQueue.simps) (simp add: mq_empty_def)
  next
    case (Cons a as)
    then show ?thesis
      using 1
      by (subst cleanMessageQueue.simps)
        (auto simp: mq_empty_def mq_pop_def freePacketInfo_def heap_delete_def)
  qed
qed

section \<open>Who may free a packet\<close>

text \<open>
  The discipline that makes manual memory management safe here: each packet is held in at most one
  place (a thread's variable, the queue, the map), everything held is allocated, and only holders
  free. \<open>owned_ok h as\<close> says so of the list \<open>as\<close> of all held pointers.
\<close>

definition owned_ok :: "packet_heap \<Rightarrow> ptr list \<Rightarrow> bool" where
  "owned_ok h as \<longleftrightarrow> heap_wf h \<and> distinct as \<and> set as \<subseteq> live h \<and> bad_frees h = 0"

lemma owned_init: "owned_ok heap_init []"
  by (simp add: owned_ok_def heap_wf_init) (simp add: heap_init_def)

lemma owned_drop: "owned_ok h as \<Longrightarrow> mset bs \<subseteq># mset as \<Longrightarrow> owned_ok h bs"
  unfolding owned_ok_def
  by (metis distinct_append mset_append mset_eq_imp_distinct_iff set_mset_mono set_mset_mset
      subset_mset.le_iff_add subset_trans ex_mset)

lemma owned_perm: "owned_ok h as \<Longrightarrow> mset bs = mset as \<Longrightarrow> owned_ok h bs"
  by (erule owned_drop) (simp add: subset_mset.order_refl)

lemma owned_new: "owned_ok h as \<Longrightarrow> heap_new p h = (a, h') \<Longrightarrow> owned_ok h' (a # as) \<and> a \<noteq> nullptr"
  using heap_new_fresh [of h p] heap_wf_new [of h p] live_new [of p h] bad_frees_new [of p h]
  by (auto simp: owned_ok_def heap_new_def)

lemma owned_free: "owned_ok h (a # as) \<Longrightarrow> owned_ok (heap_delete a h) as"
  by (auto simp: owned_ok_def heap_wf_delete live_delete bad_frees_delete)

lemma owned_free_all: "owned_ok h (as @ bs) \<Longrightarrow> owned_ok (heap_delete_all as h) bs"
proof (induction as arbitrary: h)
  case (Cons a as)
  then show ?case using owned_free [of h a "as @ bs"] by simp
qed simp

lemma owned_live: "owned_ok h as \<Longrightarrow> a \<in> set as \<Longrightarrow> \<exists>p. cells h a = Some p"
  by (auto simp: owned_ok_def)

lemma owned_nonnull: "owned_ok h as \<Longrightarrow> nullptr \<notin> set as"
  by (force simp: owned_ok_def heap_wf_def)

lemma owned_receive:
  assumes "owned_ok h as" and "receivePacketInfo c g r h = (a, h')"
  shows "owned_ok h' (if a = nullptr then as else a # as) \<and> (\<forall>b \<in> set as. cells h' b = cells h b)"
proof (cases "a = nullptr")
  case True
  have "a \<noteq> nullptr" if "heap_new p h = (a, h')" for p
    using owned_new [OF assms(1) that] by simp
  then have "h' = h"
    using receive_null_or_new [of c g r h] assms(2) True by (metis prod.inject)
  then show ?thesis using assms(1) True by simp
next
  case False
  then obtain p where p: "heap_new p h = (a, h')"
    using receive_null_or_new [of c g r h] assms(2) by auto
  have "a \<notin> set as"
    using owned_new [OF assms(1) p] by (simp add: owned_ok_def)
  then have "\<forall>b \<in> set as. cells h' b = cells h b"
    using p by (auto simp: heap_new_def)
  then show ?thesis
    using owned_new [OF assms(1) p] False by simp
qed

definition rx_held :: "rx_pc \<Rightarrow> ptr list" where
  "rx_held pc = (case pc of RxHave a \<Rightarrow> [a] | _ \<Rightarrow> [])"

lemma rx_held_simps [simp]:
  "rx_held RxIdle = []" "rx_held RxTop = []" "rx_held RxRecv = []" "rx_held (RxHave a) = [a]"
  "rx_held RxEnd = []" "rx_held RxFault = []"
  by (simp_all add: rx_held_def)

lemma rx_owned:
  assumes "owned_ok (heap s) (rx_held pc @ queue (mqueue s) @ as)" and "pc \<noteq> RxFault"
    and "recvPacketInfoThread c g r (pc, s) = (pc', s')"
  shows "owned_ok (heap s') (rx_held pc' @ queue (mqueue s') @ as) \<and> pc' \<noteq> RxFault \<and>
    (\<forall>b \<in> set as. cells (heap s') b = cells (heap s) b)"
proof (cases pc)
  case (RxHave a)
  obtain p where p: "cells (heap s) a = Some p"
    using owned_live [OF assms(1)] RxHave by fastforce
  have "owned_ok (heap s) (queue (mqueue s) @ as)"
    using owned_drop [OF assms(1)] by simp
  moreover have "owned_ok (heap s) ((queue (mqueue s) @ [a]) @ as)"
    using owned_perm [OF assms(1)] RxHave by simp
  ultimately show ?thesis
    using assms(3) RxHave p by (auto simp: mq_push_def split: if_splits)
next
  case RxRecv
  obtain a h where "receivePacketInfo c g r (heap s) = (a, h)" by fastforce
  with owned_receive [of "heap s" "queue (mqueue s) @ as" c g r a h] assms RxRecv show ?thesis
    by (cases "a = nullptr") auto
qed (use assms in \<open>auto split: if_splits\<close>)

section \<open>What the receiving thread delivers\<close>

text \<open>
  The thread alone, as a loop over what its calls of \<open>recv\<close> return; after the last of them it is
  blocked, which leaves it at the top.
\<close>

fun recv_loop :: "netlink_client \<Rightarrow> (mem \<times> read_outcome) list \<Rightarrow> shared \<Rightarrow> rx_pc \<times> shared" where
  "recv_loop c [] s = (RxTop, s)"
| "recv_loop c ((g, r) # ins) s =
     (if \<not> running s then (RxEnd, s)
      else
        let (pckt, h) = receivePacketInfo c g r (heap s); s1 = s\<lparr>heap := h\<rparr> in
        if pckt = nullptr then recv_loop c ins s1
        else
          case cells h pckt of
            None \<Rightarrow> (RxFault, s1)
          | Some p \<Rightarrow>
              if is_stop_pckt p then (RxEnd, s1)
              else recv_loop c ins (s1\<lparr>mqueue := mq_push pckt (mqueue s1)\<rparr>))"

declare recv_loop.simps(2) [simp del]

definition rx_rel :: "netlink_client \<Rightarrow> rx_pc \<times> shared \<Rightarrow> rx_pc \<times> shared \<Rightarrow> bool" where
  "rx_rel c a b \<longleftrightarrow> (\<exists>g r. recvPacketInfoThread c g r a = b)"

lemma rx_relI: "recvPacketInfoThread c g r a = b \<Longrightarrow> rx_rel c a b"
  by (auto simp: rx_rel_def)

text \<open>Every iteration of the loop is a run of the thread's atomic actions.\<close>

lemma recv_loop_steps: "(rx_rel c)\<^sup>*\<^sup>* (RxTop, s) (recv_loop c ins s)"
proof (induction c ins s rule: recv_loop.induct)
  case (2 c g r ins s)
  obtain a h where a: "receivePacketInfo c g r (heap s) = (a, h)" by fastforce
  let ?s = "s\<lparr>heap := h\<rparr>"
  show ?case
  proof (cases "running s")
    case False
    then have "rx_rel c (RxTop, s) (RxEnd, s)" by (auto intro!: rx_relI)
    with False show ?thesis by (simp add: recv_loop.simps(2))
  next
    case True
    have 1: "rx_rel c (RxTop, s) (RxRecv, s)"
      using True by (auto intro!: rx_relI)
    have 2: "rx_rel c (RxRecv, s) (if a = nullptr then RxTop else RxHave a, ?s)"
      using a by (auto intro!: rx_relI [where g = g and r = r])
    have 12: "(rx_rel c)\<^sup>*\<^sup>* (RxTop, s) (if a = nullptr then RxTop else RxHave a, ?s)"
      using 1 2 by (meson converse_rtranclp_into_rtranclp r_into_rtranclp)
    show ?thesis
    proof (cases "a = nullptr")
      case True
      then show ?thesis
        using 12 "2.IH"(1) [of "(a, h)" a h ?s] \<open>running s\<close> a
        by (simp add: recv_loop.simps(2))
    next
      case False
      have 3: "rx_rel c (RxHave a, ?s) (case cells h a of None \<Rightarrow> (RxFault, ?s)
          | Some p \<Rightarrow> if is_stop_pckt p then (RxEnd, ?s)
                      else (RxTop, ?s\<lparr>mqueue := mq_push a (mqueue s)\<rparr>))"
        by (rule rx_relI) (auto split: option.split)
      have 13: "(rx_rel c)\<^sup>*\<^sup>* (RxTop, s) (case cells h a of None \<Rightarrow> (RxFault, ?s)
          | Some p \<Rightarrow> if is_stop_pckt p then (RxEnd, ?s)
                      else (RxTop, ?s\<lparr>mqueue := mq_push a (mqueue s)\<rparr>))"
        using 12 3 False by (simp add: rtranclp.rtrancl_into_rtrancl)
      have ih: "(rx_rel c)\<^sup>*\<^sup>* (RxTop, ?s\<lparr>mqueue := mq_push a (mqueue s)\<rparr>)
          (recv_loop c ins (?s\<lparr>mqueue := mq_push a (mqueue s)\<rparr>))"
        if "cells h a = Some p" "\<not> is_stop_pckt p" for p
        using "2.IH"(2) [of "(a, h)" a h ?s p] \<open>running s\<close> a False that by simp
      show ?thesis
        using 13 ih False a \<open>running s\<close> rtranclp_trans [OF 13]
        by (auto simp: recv_loop.simps(2) split: option.splits)
    qed
  qed
qed simp

text \<open>The datagrams of the kernel module: any header that declares 36 bytes, and a struct.\<close>

definition kernel_datagram :: "mem \<times> nlmsghdr \<times> mem \<Rightarrow> mem \<times> read_outcome" where
  "kernel_datagram d = (case d of (g, hdr, m) \<Rightarrow> (g, GotBytes (hdr_mem hdr @ m)))"

definition wf_datagram :: "mem \<times> nlmsghdr \<times> mem \<Rightarrow> bool" where
  "wf_datagram d = (case d of (g, hdr, m) \<Rightarrow> nlmsg_len hdr = 36 \<and> length m = sizeof_pckt_info)"

definition datagram_pckt :: "mem \<times> nlmsghdr \<times> mem \<Rightarrow> pckt_info" where
  "datagram_pckt d = (case d of (g, hdr, m) \<Rightarrow> pckt_of_mem m)"

lemma recv_loop_datagram:
  assumes "wf_datagram d" and "running s" and "owned_ok (heap s) as"
  shows "\<exists>a h. heap_new (datagram_pckt d) (heap s) = (a, h) \<and> owned_ok h (a # as) \<and>
    (\<forall>b. b \<noteq> a \<longrightarrow> cells h b = cells (heap s) b) \<and> cells h a = Some (datagram_pckt d) \<and>
    recv_loop c (kernel_datagram d # ins) s =
      (if is_stop_pckt (datagram_pckt d) then (RxEnd, s\<lparr>heap := h\<rparr>)
       else recv_loop c ins (s\<lparr>heap := h, mqueue := mq_push a (mqueue s)\<rparr>))"
proof -
  obtain g hdr m where d: "d = (g, hdr, m)" by (cases d) auto
  obtain a h where a: "heap_new (datagram_pckt d) (heap s) = (a, h)" by fastforce
  have "receivePacketInfo c g (GotBytes (hdr_mem hdr @ m)) (heap s) = (a, h)"
    using assms(1) a d receivePacketInfo_eq [of m c g hdr "heap s"]
    by (simp add: wf_datagram_def datagram_pckt_def)
  moreover have "cells h a = Some (datagram_pckt d)" "\<forall>b. b \<noteq> a \<longrightarrow> cells h b = cells (heap s) b"
    using a by (auto simp: heap_new_def)
  moreover have "owned_ok h (a # as)" "a \<noteq> nullptr"
    using owned_new [OF assms(3) a] by simp_all
  ultimately show ?thesis
    using a d assms(2)
    by (intro exI [of _ a] exI [of _ h])
      (simp add: recv_loop.simps(2) kernel_datagram_def)
qed

lemma recv_loop_delivers:
  assumes "list_all wf_datagram ds" and "list_all (\<lambda>d. \<not> is_stop_pckt (datagram_pckt d)) ds"
    and "wf_datagram e" and "is_stop_pckt (datagram_pckt e)"
    and "running s" and "owned_ok (heap s) as"
  shows "\<exists>s' ptrs. recv_loop c (map kernel_datagram (ds @ [e]) @ rest) s = (RxEnd, s') \<and>
    queue (mqueue s') = queue (mqueue s) @ ptrs \<and>
    map (cells (heap s')) ptrs = map (\<lambda>d. Some (datagram_pckt d)) ds \<and>
    (\<forall>b \<in> set as. cells (heap s') b = cells (heap s) b) \<and> owned_ok (heap s') (ptrs @ as)"
  using assms
proof (induction ds arbitrary: s as)
  case Nil
  obtain a h where "owned_ok h (a # as)" "\<forall>b. b \<noteq> a \<longrightarrow> cells h b = cells (heap s) b"
    "recv_loop c (kernel_datagram e # rest) s = (RxEnd, s\<lparr>heap := h\<rparr>)"
    using recv_loop_datagram [OF Nil.prems(3,5,6), of c rest] Nil.prems(4) by auto
  then show ?case by (intro exI [of _ "s\<lparr>heap := h\<rparr>"] exI [of _ "[]"]) (auto simp: owned_ok_def)
next
  case (Cons d ds)
  let ?ins = "map kernel_datagram (ds @ [e]) @ rest"
  from Cons.prems(1,2) have d: "wf_datagram d" "\<not> is_stop_pckt (datagram_pckt d)" by simp_all
  obtain a h where a: "owned_ok h (a # as)" "\<forall>b. b \<noteq> a \<longrightarrow> cells h b = cells (heap s) b"
    "cells h a = Some (datagram_pckt d)"
    "recv_loop c (kernel_datagram d # ?ins) s =
      recv_loop c ?ins (s\<lparr>heap := h, mqueue := mq_push a (mqueue s)\<rparr>)"
    using recv_loop_datagram [OF d(1) Cons.prems(5,6), of c ?ins] d(2) by auto
  let ?s = "s\<lparr>heap := h, mqueue := mq_push a (mqueue s)\<rparr>"
  have "list_all wf_datagram ds" "list_all (\<lambda>d. \<not> is_stop_pckt (datagram_pckt d)) ds" "running ?s"
    "owned_ok (heap ?s) (a # as)"
    using Cons.prems a(1) by simp_all
  from Cons.IH [OF this(1,2) Cons.prems(3,4) this(3,4)] obtain s' ptrs where
    ih: "recv_loop c ?ins ?s = (RxEnd, s')" "queue (mqueue s') = queue (mqueue ?s) @ ptrs"
      "map (cells (heap s')) ptrs = map (\<lambda>d. Some (datagram_pckt d)) ds"
      "\<forall>b \<in> set (a # as). cells (heap s') b = cells (heap ?s) b" "owned_ok (heap s') (ptrs @ a # as)"
    by blast
  have "owned_ok (heap s') ((a # ptrs) @ as)"
    by (rule owned_perm [OF ih(5)]) simp
  moreover have "a \<notin> set as"
    using a(1) by (simp add: owned_ok_def)
  then have "\<forall>b \<in> set as. cells (heap s') b = cells (heap s) b"
    using a(2) ih(4) by auto
  moreover have "queue (mqueue s') = queue (mqueue s) @ a # ptrs"
    using ih(2) by (simp add: mq_push_def)
  ultimately show ?case
    using ih a(3,4) by (intro exI [of _ s'] exI [of _ "a # ptrs"]) simp
qed

text \<open>
  C9: The receiving thread puts every packet of the kernel module into the queue, in order and
  unchanged, and returns at the terminate message whatever may follow it. The packets are new
  blocks, and no block that was held before is touched. (The terminate message's own block is
  allocated and no longer referenced.)
\<close>

theorem receiver_delivers:
  assumes "list_all wf_datagram ds" and "list_all (\<lambda>d. \<not> is_stop_pckt (datagram_pckt d)) ds"
    and "wf_datagram e" and "is_stop_pckt (datagram_pckt e)"
    and "running s" and "owned_ok (heap s) as"
  shows "\<exists>s' ptrs. recv_loop c (map kernel_datagram (ds @ [e]) @ rest) s = (RxEnd, s') \<and>
    queue (mqueue s') = queue (mqueue s) @ ptrs \<and>
    map (cells (heap s')) ptrs = map (\<lambda>d. Some (datagram_pckt d)) ds \<and>
    (\<forall>b \<in> set as. cells (heap s') b = cells (heap s) b) \<and> owned_ok (heap s') (ptrs @ as) \<and>
    (rx_rel c)\<^sup>*\<^sup>* (RxTop, s) (RxEnd, s')"
  using recv_loop_delivers [OF assms, of c rest] recv_loop_steps [of c s] by metis

definition example_pckt :: pckt_info where
  "example_pckt =
     \<lparr>src_ip = 0x0302000A, dst_ip = 0x0F02000A, src_port = 53, dst_port = 44280, payload_size = 0,
      proto = CHR ''U''\<rparr>"

definition stop_pckt :: pckt_info where
  "stop_pckt =
     \<lparr>src_ip = 0, dst_ip = 0, src_port = 0, dst_port = 0, payload_size = 7, proto = nul\<rparr>"

definition example_datagram :: "pckt_info \<Rightarrow> mem \<times> nlmsghdr \<times> mem" where
  "example_datagram p =
     ([], \<lparr>nlmsg_len = 36, nlmsg_type = 3, nlmsg_flags = 0, nlmsg_seq = 0, nlmsg_pid = 0\<rparr>,
      pckt_mem [nul, nul, nul] p)"

theorem receiver_delivers_witness:
  "let s = \<lparr>running = True, heap = heap_init, mqueue = mq_init\<rparr>;
       c = \<lparr>sock_fd = 3, src_addr = None, dest_addr = None\<rparr>
   in \<exists>s' a. recv_loop c (map kernel_datagram [example_datagram example_pckt, example_datagram stop_pckt]) s =
        (RxEnd, s') \<and>
      queue (mqueue s') = [a] \<and> cells (heap s') a = Some example_pckt"
proof -
  let ?s = "\<lparr>running = True, heap = heap_init, mqueue = mq_init\<rparr>"
  let ?c = "\<lparr>sock_fd = 3, src_addr = None, dest_addr = None\<rparr>"
  let ?d = "example_datagram example_pckt" and ?e = "example_datagram stop_pckt"
  have "list_all wf_datagram [?d]" "wf_datagram ?e"
    "list_all (\<lambda>d. \<not> is_stop_pckt (datagram_pckt d)) [?d]" "is_stop_pckt (datagram_pckt ?e)"
    by (simp_all add: wf_datagram_def datagram_pckt_def example_datagram_def is_stop_pckt_def
        example_pckt_def stop_pckt_def)
  from receiver_delivers [OF this(1,3,2,4), of ?s "[]" ?c "[]"] show ?thesis
    by (auto simp: owned_init mq_init_def Let_def datagram_pckt_def example_datagram_def
        map_eq_Cons_conv)
qed

end
