(* ===== verification/UnixSocketServer.thy ===== *)
theory UnixSocketServer
  imports Posix
begin

text \<open>
  \<^verbatim>\<open>daemon/src/UnixSocketServer.cpp\<close>: the daemon's end of the Unix domain socket. The results of
  \<open>socket\<close>, \<open>bind\<close>, \<open>listen\<close>, \<open>accept\<close>, \<open>connect\<close>, \<open>read\<close> and \<open>write\<close> are arguments. The
  constructor does not initialise \<open>isShuttingDown\<close>, so its first value is an argument too. The
  path of the socket is a constant of the program and appears only as the existence of its file.
\<close>

record unix_server =
  serverFd :: fd
  clientFd :: fd
  isShuttingDown :: bool

definition closeClientFd :: "unix_server \<times> os \<Rightarrow> unix_server \<times> os" where
  "closeClientFd = (\<lambda>(c, s).
     if clientFd c \<noteq> -1 then (c\<lparr>clientFd := -1\<rparr>, os_close (clientFd c) s) else (c, s))"

definition unlink_socket :: "os \<Rightarrow> os" where
  "unlink_socket s = s\<lparr>sock_file := False\<rparr>"

definition closeSocket :: "unix_server \<times> os \<Rightarrow> unix_server \<times> os" where
  "closeSocket cs =
     (let (c, s) = closeClientFd cs;
          s = os_close (serverFd c) s;
          c = c\<lparr>serverFd := -1\<rparr>
      in (c, unlink_socket s))"

definition start :: "int \<Rightarrow> int \<Rightarrow> int \<Rightarrow> unix_server \<times> os \<Rightarrow> bool \<times> unix_server \<times> os" where
  "start socket_res bind_res listen_res = (\<lambda>(c, s).
     let c = c\<lparr>serverFd := socket_res\<rparr>; s = os_open socket_res s in
     if serverFd c < 0 then (False, c, s)
     else
       let s = unlink_socket s in
       if bind_res < 0 then (False, c, s)
       else
         let s = s\<lparr>sock_file := True\<rparr> in
         if listen_res < 0 then (False, closeSocket (c, s))
         else (True, c, s))"

definition UnixSocketServer_ctor ::
  "bool \<Rightarrow> int \<Rightarrow> int \<Rightarrow> int \<Rightarrow> os \<Rightarrow> unix_server \<times> os" where
  "UnixSocketServer_ctor uninit socket_res bind_res listen_res s =
     snd (start socket_res bind_res listen_res
       (\<lparr>serverFd = -1, clientFd = -1, isShuttingDown = uninit\<rparr>, s))"

definition UnixSocketServer_dtor :: "unix_server \<times> os \<Rightarrow> unix_server \<times> os" where
  "UnixSocketServer_dtor cs = (if serverFd (fst cs) \<noteq> -1 then closeSocket cs else cs)"

definition getServerFd :: "unix_server \<Rightarrow> fd" where
  "getServerFd c = serverFd c"

definition getClientFd :: "unix_server \<Rightarrow> fd" where
  "getClientFd c = clientFd c"

definition connectToClient :: "int \<Rightarrow> unix_server \<times> os \<Rightarrow> bool \<times> unix_server \<times> os" where
  "connectToClient accept_res = (\<lambda>(c, s).
     let c = c\<lparr>clientFd := accept_res\<rparr>; s = os_open accept_res s in
     (\<not> (clientFd c < 0 \<or> isShuttingDown c), c, s))"

text \<open>
  The dummy connection wakes the blocked \<open>accept\<close>; the first component of the result says whether
  one was made.
\<close>

definition stopListeningForNewClients :: "int \<Rightarrow> int \<Rightarrow> unix_server \<times> os \<Rightarrow> bool \<times> unix_server \<times> os"
where
  "stopListeningForNewClients socket_res connect_res = (\<lambda>(c, s).
     let c = c\<lparr>isShuttingDown := True\<rparr> in
     if 0 \<le> socket_res
     then (0 \<le> connect_res, c, os_close socket_res (os_open socket_res s))
     else (False, c, s))"

section \<open>Messages\<close>

text \<open>The bytes that reach the stream, and the result of \<open>sendPid\<close> if the process survives.\<close>

definition sendPid :: "pid_t \<Rightarrow> write_outcome \<Rightarrow> mem \<times> (signal_death + bool)" where
  "sendPid pid w =
     (case w of
        Wrote n \<Rightarrow> (take n (word_bytes pid), Inr (n = 4))
      | WriteError \<Rightarrow> ([], Inr False)
      | PeerGone \<Rightarrow> ([], Inl SigPipe))"

text \<open>
  \<open>read\<close> stores what it got over the front of the caller's variable, also when that is less than
  the two bytes of a port.
\<close>

definition receivePort :: "u16 \<Rightarrow> read_outcome \<Rightarrow> bool \<times> u16" where
  "receivePort port r =
     (case r of
        ReadError \<Rightarrow> (False, port)
      | GotBytes bs \<Rightarrow>
          let d = take 2 bs; port' = bytes_word (store 0 d (word_bytes port)) in
          if length d = 0 then (False, port')
          else if length d \<noteq> 2 then (False, port')
          else (True, port'))"

lemma receivePort_full:
  "2 \<le> length bs \<Longrightarrow> receivePort port (GotBytes bs) = (True, bytes_word (take 2 bs))"
  by (cases bs) (simp_all add: receivePort_def store_def Let_def)

lemma receivePort_result: "fst (receivePort port r) \<longleftrightarrow> (\<exists>bs. r = GotBytes bs \<and> 2 \<le> length bs)"
  by (cases r) (auto simp: receivePort_def Let_def)

lemma sendPid_ok: "snd (sendPid pid w) = Inr True \<Longrightarrow> fst (sendPid pid w) = word_bytes pid"
  by (auto simp: sendPid_def split: write_outcome.splits)

section \<open>Descriptors\<close>

text \<open>A descriptor the kernel hands out is non-negative and unused, a failure is -1.\<close>

definition fd_result :: "int \<Rightarrow> os \<Rightarrow> bool" where
  "fd_result r s \<longleftrightarrow> -1 \<le> r \<and> fresh_fd r s"

definition srv_wf :: "unix_server \<Rightarrow> bool" where
  "srv_wf c \<longleftrightarrow> -1 \<le> serverFd c \<and>
     (clientFd c = -1 \<or> 0 \<le> clientFd c \<and> 0 \<le> serverFd c \<and> serverFd c \<noteq> clientFd c)"

definition srv_owned :: "unix_server \<Rightarrow> fd set" where
  "srv_owned c = {serverFd c, clientFd c} - {-1}"

text \<open>
  The protocol of its user: a client is accepted only after the last one was closed. Accepting
  without a listening socket fails.
\<close>

inductive server_step :: "unix_server \<times> os \<Rightarrow> unix_server \<times> os \<Rightarrow> bool" where
  step_connect:
    "clientFd c = -1 \<Longrightarrow> fd_result r s \<Longrightarrow> serverFd c = -1 \<longrightarrow> r = -1 \<Longrightarrow>
      connectToClient r (c, s) = (b, c', s') \<Longrightarrow> server_step (c, s) (c', s')"
| step_close: "closeClientFd (c, s) = (c', s') \<Longrightarrow> server_step (c, s) (c', s')"
| step_stop:
    "fd_result r s \<Longrightarrow> stopListeningForNewClients r q (c, s) = (b, c', s') \<Longrightarrow>
      server_step (c, s) (c', s')"
| step_dtor: "UnixSocketServer_dtor (c, s) = (c', s') \<Longrightarrow> server_step (c, s) (c', s')"

definition srv_ok :: "unix_server \<times> os \<Rightarrow> unix_server \<times> os \<Rightarrow> bool" where
  "srv_ok a b \<longleftrightarrow> srv_wf (fst b) \<and> fd_frame (srv_owned (fst a)) (snd a) (srv_owned (fst b)) (snd b)"

lemmas server_fd_defs = srv_ok_def srv_wf_def srv_owned_def fd_frame_def fd_result_def fresh_fd_def

lemma srv_ok_trans: "srv_ok a b \<Longrightarrow> srv_ok b c \<Longrightarrow> srv_ok a c"
  using fd_frame_trans unfolding srv_ok_def by blast

lemma srv_ok_owned: "srv_ok a (c, s) \<Longrightarrow> srv_owned c \<subseteq> set (open_fds s)"
  by (simp add: srv_ok_def fd_frame_def)

lemma ok_closeClientFd:
  "srv_wf c \<Longrightarrow> srv_owned c \<subseteq> set (open_fds s) \<Longrightarrow> srv_ok (c, s) (closeClientFd (c, s))"
  by (cases "clientFd c = -1") (auto simp: server_fd_defs closeClientFd_def os_simps)

lemma ok_closeSocket:
  assumes "srv_wf c" and "srv_owned c \<subseteq> set (open_fds s)" and "serverFd c \<noteq> -1"
  shows "srv_ok (c, s) (closeSocket (c, s)) \<and> srv_owned (fst (closeSocket (c, s))) = {}"
proof -
  obtain c1 s1 where 1: "closeClientFd (c, s) = (c1, s1)" by fastforce
  with ok_closeClientFd [OF assms(1,2)] have ok: "srv_ok (c, s) (c1, s1)" by simp
  have c1: "clientFd c1 = -1" "serverFd c1 = serverFd c"
    using 1 by (auto simp: closeClientFd_def split: if_splits)
  have "srv_ok (c1, s1) (c1\<lparr>serverFd := -1\<rparr>, unlink_socket (os_close (serverFd c) s1))"
    using srv_ok_owned [OF ok] c1 assms(3)
    by (auto simp: server_fd_defs unlink_socket_def os_simps)
  then show ?thesis
    using srv_ok_trans [OF ok] c1 by (simp add: closeSocket_def 1 Let_def srv_owned_def)
qed

lemma ok_dtor:
  assumes "srv_wf c" and "srv_owned c \<subseteq> set (open_fds s)"
  shows "srv_ok (c, s) (UnixSocketServer_dtor (c, s)) \<and>
    srv_owned (fst (UnixSocketServer_dtor (c, s))) = {}"
proof (cases "serverFd c = -1")
  case True
  with assms show ?thesis
    by (simp add: UnixSocketServer_dtor_def srv_ok_def srv_owned_def srv_wf_def fd_frame_refl)
next
  case False
  then show ?thesis
    using ok_closeSocket [OF assms False] by (simp add: UnixSocketServer_dtor_def)
qed

lemma ok_connect:
  "srv_wf c \<Longrightarrow> srv_owned c \<subseteq> set (open_fds s) \<Longrightarrow> clientFd c = -1 \<Longrightarrow> fd_result r s \<Longrightarrow>
    serverFd c = -1 \<longrightarrow> r = -1 \<Longrightarrow> srv_ok (c, s) (snd (connectToClient r (c, s)))"
proof -
  assume wf: "srv_wf c" and own: "srv_owned c \<subseteq> set (open_fds s)" and c: "clientFd c = -1"
    and r: "fd_result r s" "serverFd c = -1 \<longrightarrow> r = -1"
  let ?c = "c\<lparr>clientFd := r\<rparr>"
  show ?thesis
  proof (cases "r = -1")
    case True
    then have "?c = c" using c by simp
    then show ?thesis
      using wf own True by (simp add: connectToClient_def srv_ok_def os_open_def fd_frame_refl)
  next
    case False
    then have 0: "0 \<le> r" "r \<notin> set (open_fds s)" "serverFd c \<noteq> -1"
      using r by (auto simp: fd_result_def fresh_fd_def)
    have "srv_owned ?c = insert r (srv_owned c)"
      using c 0 by (auto simp: srv_owned_def)
    moreover have "srv_wf ?c"
      using wf own c 0 by (auto simp: srv_wf_def srv_owned_def)
    moreover have "fd_frame (srv_owned c) s (insert r (srv_owned c)) (os_open r s)"
      using own 0 by (intro fd_frame_open) (simp_all add: fresh_fd_def)
    ultimately show ?thesis by (simp add: connectToClient_def srv_ok_def)
  qed
qed

lemma ok_stop:
  "srv_wf c \<Longrightarrow> srv_owned c \<subseteq> set (open_fds s) \<Longrightarrow> fd_result r s \<Longrightarrow>
    srv_ok (c, s) (snd (stopListeningForNewClients r q (c, s)))"
proof -
  assume wf: "srv_wf c" and own: "srv_owned c \<subseteq> set (open_fds s)" and r: "fd_result r s"
  let ?c = "c\<lparr>isShuttingDown := True\<rparr>"
  have c: "srv_wf ?c" "srv_owned ?c = srv_owned c"
    using wf by (simp_all add: srv_wf_def srv_owned_def)
  have "fd_frame (srv_owned c) s (srv_owned c) (os_close r (os_open r s))" if "0 \<le> r"
    using own r that by (auto simp: fd_frame_def fd_result_def fresh_fd_def os_simps)
  then show ?thesis
    using c own by (simp add: stopListeningForNewClients_def srv_ok_def fd_frame_refl Let_def)
qed

lemma server_step_ok:
  assumes "server_step (c, s) (c', s')" and "srv_wf c" and "srv_owned c \<subseteq> set (open_fds s)"
  shows "srv_wf c' \<and> fd_frame (srv_owned c) s (srv_owned c') s'"
  using assms(1)
proof (cases rule: server_step.cases)
  case (step_connect r b)
  then show ?thesis using ok_connect [OF assms(2,3), of r] by (simp add: srv_ok_def)
next
  case step_close
  then show ?thesis using ok_closeClientFd [OF assms(2,3)] by (simp add: srv_ok_def)
next
  case (step_stop r q b)
  then show ?thesis using ok_stop [OF assms(2,3), of r q] by (simp add: srv_ok_def)
next
  case step_dtor
  then show ?thesis using ok_dtor [OF assms(2,3), THEN conjunct1] by (simp add: srv_ok_def)
qed

interpretation server: fd_component srv_owned srv_wf server_step
  by unfold_locales (rule server_step_ok)

lemma ctor_frame:
  assumes "fd_result r s" and "UnixSocketServer_ctor u r b l s = (c, s')"
  shows "srv_wf c \<and> fd_frame {} s (srv_owned c) s'"
proof (cases "r = -1")
  case True
  with assms show ?thesis
    by (auto simp: UnixSocketServer_ctor_def start_def server_fd_defs os_simps Let_def)
next
  case False
  let ?c = "\<lparr>serverFd = r, clientFd = -1, isShuttingDown = u\<rparr>"
  let ?s = "unlink_socket (os_open r s)" and ?s' = "(unlink_socket (os_open r s))\<lparr>sock_file := True\<rparr>"
  have r: "0 \<le> r" "r \<notin> set (open_fds s)"
    using assms(1) False by (auto simp: fd_result_def fresh_fd_def)
  have f: "srv_wf ?c" "fd_frame {} s (srv_owned ?c) ?s" "fd_frame {} s (srv_owned ?c) ?s'"
    using r by (auto simp: server_fd_defs unlink_socket_def os_simps)
  then have "srv_ok (?c, ?s') (closeSocket (?c, ?s'))"
    using ok_closeSocket [of ?c ?s'] r by (simp add: fd_frame_def)
  then show ?thesis
    using f r assms(2) fd_frame_trans [OF f(3)]
    by (auto simp: UnixSocketServer_ctor_def start_def Let_def srv_ok_def split: if_splits)
qed

text \<open>
  The server neither leaks nor double-closes descriptors. After the constructor, whatever
  its calls returned, and any run of accepts, client closes and shutdown requests, closed by the
  destructor, the process's descriptor table is what it was before.
\<close>

theorem unix_server_releases:
  assumes "fd_result r s" and "UnixSocketServer_ctor u r b l s = (c, s1)"
    and "server_step\<^sup>*\<^sup>* (c, s1) (c', s2)" and "UnixSocketServer_dtor (c', s2) = (c'', s3)"
  shows "set (open_fds s3) = set (open_fds s) \<and> bad_closes s3 = bad_closes s"
proof -
  have 1: "srv_wf c" "fd_frame {} s (srv_owned c) s1"
    using ctor_frame [OF assms(1,2)] by simp_all
  then have 2: "srv_wf c'" "fd_frame (srv_owned c) s1 (srv_owned c') s2"
    using server.run_frame [OF assms(3)] by (simp_all add: fd_frame_def)
  then have "fd_frame (srv_owned c') s2 {} s3"
    using ok_dtor [of c' s2] assms(4) by (auto simp: srv_ok_def fd_frame_def [of _ _ "srv_owned c'"])
  then have "fd_frame {} s {} s3"
    using 1 2 fd_frame_trans by blast
  then show ?thesis by (simp add: fd_frame_def)
qed

theorem unix_server_releases_witness:
  "\<exists>c s1 c' s2 c'' s3.
     UnixSocketServer_ctor False 4 0 0 \<lparr>open_fds = [3], bad_closes = 0, sock_file = True\<rparr> = (c, s1) \<and>
     server_step\<^sup>*\<^sup>* (c, s1) (c', s2) \<and> clientFd c' = 5 \<and>
     UnixSocketServer_dtor (c', s2) = (c'', s3) \<and> set (open_fds s3) = {3} \<and> bad_closes s3 = 0"
proof -
  let ?s = "\<lparr>open_fds = [3], bad_closes = 0, sock_file = True\<rparr>"
  let ?c = "\<lparr>serverFd = 4, clientFd = -1, isShuttingDown = False\<rparr>"
  let ?s1 = "\<lparr>open_fds = [4, 3], bad_closes = 0, sock_file = True\<rparr>"
  let ?c' = "\<lparr>serverFd = 4, clientFd = 5, isShuttingDown = False\<rparr>"
  let ?s2 = "\<lparr>open_fds = [5, 4, 3], bad_closes = 0, sock_file = True\<rparr>"
  have ctor: "UnixSocketServer_ctor False 4 0 0 ?s = (?c, ?s1)"
    by (simp add: UnixSocketServer_ctor_def start_def os_open_def unlink_socket_def)
  have "server_step (?c, ?s1) (?c', ?s2)"
    by (rule step_connect [where r = 5])
      (simp_all add: fd_result_def fresh_fd_def connectToClient_def os_open_def)
  then have run: "server_step\<^sup>*\<^sup>* (?c, ?s1) (?c', ?s2)" by blast
  obtain c'' s3 where dtor: "UnixSocketServer_dtor (?c', ?s2) = (c'', s3)" by fastforce
  have "set (open_fds s3) = {3} \<and> bad_closes s3 = 0"
    using unix_server_releases [OF _ ctor run dtor] by (simp add: fd_result_def fresh_fd_def)
  then show ?thesis
    using ctor run dtor by (intro exI [of _ ?c] exI [of _ ?s1] exI [of _ ?c'] exI [of _ ?s2]
        exI [of _ c''] exI [of _ s3]) simp
qed

end
