(* ===== verification/Daemon.thy ===== *)
theory Daemon
  imports PortToPidMap SharedThreads UnixSocketServer
begin

text \<open>
  \<^verbatim>\<open>daemon/src/main.cpp\<close>: the daemon as three threads and a signal handler over shared state. Each
  thread is a program counter and a function that performs its next atomic action: one read or
  write of the flag \<open>running\<close>, one system call, or one method that holds a lock for its whole body.
  \<open>closeClientFd\<close> holds no lock and is split into its test, its \<open>close\<close> and its assignment; the two
  reads of \<open>clientFd\<close> in the test and in the argument of \<open>close\<close> are one read here, and
  \<open>stopListeningForNewClients\<close> is one action. What the calls of an action return is one record of inputs. A call that cannot go on (joining a
  thread that has not ended) leaves the state as it is.

  \<open>MTerminate\<close> is \<open>std::terminate\<close> (an exception nobody catches, or the destructor of a thread
  object that was not joined), \<open>MKilled\<close> the default action of SIGPIPE, \<open>MFault\<close> a read of a freed
  packet. Log lines are not modelled; \<open>daemonize\<close> is never called and is left out.
\<close>

section \<open>State\<close>

datatype main_pc =
    MSubscribe | MSetRunning | MSpawn
  | MTop | MPop | MHave ptr | MFree ptr
  | MUnsubscribe | MJoinRx | MClean
  | MGetClient | MShutdown | MCloseTest | MCloseCall fd | MCloseSet
  | MStop | MJoinClient
  | MExit int | MTerminate | MKilled | MFault

datatype client_pc =
    CTop | CAccept | CHandle | CLoop u16 | CRead u16 | CLookup u16 | CSend u16 pid_t
  | CCloseTest | CCloseCall fd | CCloseSet | CEnd

record daemon =
  dsh :: shared
  dports :: port_to_pid_map
  dserver :: unix_server
  dos :: os
  dnl :: netlink_client
  drx :: rx_pc
  dmain :: main_pc
  dclient :: client_pc
  dcommands :: "mem list"
  danswers :: "(u16 \<times> pid_t) list"
  dshut :: bool
  dwake :: bool

text \<open>
  The last four fields are a history of calls that others notice: the commands sent, the answers
  written, whether \<open>shutdown\<close> was called on a client's connection (a blocked \<open>read\<close> of it returns) and
  whether the dummy connection was made (a blocked \<open>accept\<close> returns).
\<close>

text \<open>Results of the calls of one action.\<close>

record daemon_io =
  io_malloc :: bool
  io_pid :: u32
  io_sendmsg :: int
  io_scan :: scan_env
  io_socket :: int
  io_connect :: int
  io_accept :: int
  io_read :: read_outcome
  io_write :: write_outcome
  io_uninit :: u16

text \<open>
  The state when the threads are started: all objects constructed and \<open>clientConnection\<close> running.
  An exception of the table's constructor ends the program.
\<close>

definition daemon_init ::
  "netlink_client \<Rightarrow> unix_server \<Rightarrow> os \<Rightarrow> cpp_exn + port_to_pid_map \<Rightarrow> cpp_exn + daemon" where
  "daemon_init nl srv s ports =
     (case ports of
        Inl e \<Rightarrow> Inl e
      | Inr m \<Rightarrow> Inr \<lparr>dsh = \<lparr>running = True, heap = heap_init, mqueue = mq_init\<rparr>, dports = m,
          dserver = srv, dos = s, dnl = nl, drx = RxIdle, dmain = MSubscribe, dclient = CTop,
          dcommands = [], danswers = [], dshut = False, dwake = False\<rparr>)"

section \<open>The main thread\<close>

definition send_command :: "daemon_io \<Rightarrow> string \<Rightarrow> daemon \<Rightarrow> bool \<times> daemon" where
  "send_command io msg s =
     (case sendMessage (dnl s) (io_malloc io) (io_pid io) (io_sendmsg io) msg of
        (True, Some d) \<Rightarrow> (True, s\<lparr>dcommands := dcommands s @ [d]\<rparr>)
      | _ \<Rightarrow> (False, s))"

definition main_step :: "daemon_io \<Rightarrow> daemon \<Rightarrow> daemon" where
  "main_step io s =
     (case dmain s of
        MSubscribe \<Rightarrow>
          (let (ok, s) = send_command io ''daemon_subscribe'' s
           in s\<lparr>dmain := if ok then MSetRunning else MTerminate\<rparr>)
      | MSetRunning \<Rightarrow> s\<lparr>dsh := (dsh s)\<lparr>running := True\<rparr>, dmain := MSpawn\<rparr>
      | MSpawn \<Rightarrow> s\<lparr>drx := RxTop, dmain := MTop\<rparr>
      | MTop \<Rightarrow> s\<lparr>dmain := if running (dsh s) then MPop else MUnsubscribe\<rparr>
      | MPop \<Rightarrow>
          (let (pckt, q) = mq_pop (mqueue (dsh s))
           in s\<lparr>dsh := (dsh s)\<lparr>mqueue := q\<rparr>, dmain := if pckt = nullptr then MTop else MHave pckt\<rparr>)
      | MHave pckt \<Rightarrow>
          (case cells (heap (dsh s)) pckt of
             None \<Rightarrow> s\<lparr>dmain := MFault\<rparr>
           | Some p \<Rightarrow>
               (case addPidMapping (io_scan io) (dst_port p) (proto p) (dports s) of
                  Inl e \<Rightarrow> s\<lparr>dmain := MTerminate\<rparr>
                | Inr (added, m) \<Rightarrow> s\<lparr>dports := m, dmain := MFree pckt\<rparr>))
      | MFree pckt \<Rightarrow> s\<lparr>dsh := (dsh s)\<lparr>heap := freePacketInfo pckt (heap (dsh s))\<rparr>, dmain := MTop\<rparr>
      | MUnsubscribe \<Rightarrow>
          (let (ok, s) = send_command io ''daemon_unsubscribe'' s
           in s\<lparr>dmain := if ok then MJoinRx else MTerminate\<rparr>)
      | MJoinRx \<Rightarrow> if drx s = RxEnd then s\<lparr>dmain := MClean\<rparr> else s
      | MClean \<Rightarrow>
          (let (q, h) = cleanMessageQueue (mqueue (dsh s)) (heap (dsh s))
           in s\<lparr>dsh := (dsh s)\<lparr>heap := h, mqueue := q\<rparr>, dmain := MGetClient\<rparr>)
      | MGetClient \<Rightarrow> s\<lparr>dmain := if 0 < getClientFd (dserver s) then MShutdown else MStop\<rparr>
      | MShutdown \<Rightarrow> s\<lparr>dshut := dshut s \<or> 0 \<le> getClientFd (dserver s), dmain := MCloseTest\<rparr>
      | MCloseTest \<Rightarrow>
          s\<lparr>dmain := if clientFd (dserver s) \<noteq> -1 then MCloseCall (clientFd (dserver s)) else MStop\<rparr>
      | MCloseCall n \<Rightarrow> s\<lparr>dos := os_close n (dos s), dmain := MCloseSet\<rparr>
      | MCloseSet \<Rightarrow> s\<lparr>dserver := (dserver s)\<lparr>clientFd := -1\<rparr>, dmain := MStop\<rparr>
      | MStop \<Rightarrow>
          (let (woken, c, w) =
             stopListeningForNewClients (io_socket io) (io_connect io) (dserver s, dos s)
           in s\<lparr>dserver := c, dos := w, dwake := woken, dmain := MJoinClient\<rparr>)
      | MJoinClient \<Rightarrow> if dclient s = CEnd then s\<lparr>dmain := MExit 0\<rparr> else s
      | _ \<Rightarrow> s)"

section \<open>The client thread\<close>

text \<open>What a client is told: 0 is replaced by -1.\<close>

definition answer :: "port_to_pid_map \<Rightarrow> u16 \<Rightarrow> pid_t" where
  "answer m port = (let pid = getPid m port in if pid \<noteq> 0 then pid else -1)"

text \<open>\<open>clientConnectionThread\<close>, with \<open>handleClientConnection\<close> from \<open>CHandle\<close> to \<open>CSend\<close>.\<close>

definition client_thread :: "daemon_io \<Rightarrow> daemon \<Rightarrow> daemon" where
  "client_thread io s =
     (case dclient s of
        CTop \<Rightarrow> s\<lparr>dclient := if running (dsh s) then CAccept else CEnd\<rparr>
      | CAccept \<Rightarrow>
          (let (ok, c, w) = connectToClient (io_accept io) (dserver s, dos s)
           in s\<lparr>dserver := c, dos := w, dclient := if ok then CHandle else CCloseTest\<rparr>)
      | CHandle \<Rightarrow>
          s\<lparr>dclient := if getClientFd (dserver s) < 0 then CCloseTest else CLoop (io_uninit io)\<rparr>
      | CLoop port \<Rightarrow> s\<lparr>dclient := if running (dsh s) then CRead port else CCloseTest\<rparr>
      | CRead port \<Rightarrow>
          (let (ok, port') = receivePort port (io_read io)
           in s\<lparr>dclient := if ok then CLookup port' else CCloseTest\<rparr>)
      | CLookup port \<Rightarrow> s\<lparr>dclient := CSend port (answer (dports s) port)\<rparr>
      | CSend port pid \<Rightarrow>
          (case sendPid pid (io_write io) of
             (d, Inl SigPipe) \<Rightarrow> s\<lparr>dmain := MKilled\<rparr>
           | (d, Inr ok) \<Rightarrow>
               s\<lparr>dclient := CLoop port, danswers := danswers s @ (if ok then [(port, pid)] else [])\<rparr>)
      | CCloseTest \<Rightarrow>
          s\<lparr>dclient := if clientFd (dserver s) \<noteq> -1 then CCloseCall (clientFd (dserver s)) else CTop\<rparr>
      | CCloseCall n \<Rightarrow> s\<lparr>dos := os_close n (dos s), dclient := CCloseSet\<rparr>
      | CCloseSet \<Rightarrow> s\<lparr>dserver := (dserver s)\<lparr>clientFd := -1\<rparr>, dclient := CTop\<rparr>
      | CEnd \<Rightarrow> s)"

section \<open>Interleaving\<close>

definition rx_thread :: "mem \<Rightarrow> read_outcome \<Rightarrow> daemon \<Rightarrow> daemon" where
  "rx_thread g r s =
     (let (pc, sh) = recvPacketInfoThread (dnl s) g r (drx s, dsh s) in s\<lparr>drx := pc, dsh := sh\<rparr>)"

definition on_signal :: "daemon \<Rightarrow> daemon" where
  "on_signal s = s\<lparr>dsh := handleSignal (dsh s)\<rparr>"

fun ended :: "main_pc \<Rightarrow> bool" where
  "ended (MExit _) = True"
| "ended MTerminate = True"
| "ended MKilled = True"
| "ended MFault = True"
| "ended _ = False"

text \<open>
  Descriptors returned by \<open>socket\<close> and \<open>accept\<close> are unused ones or -1, and accepting on a socket
  that does not exist fails.
\<close>

definition io_valid :: "daemon_io \<Rightarrow> daemon \<Rightarrow> bool" where
  "io_valid io s \<longleftrightarrow> fd_result (io_socket io) (dos s) \<and> fd_result (io_accept io) (dos s) \<and>
     (serverFd (dserver s) = -1 \<longrightarrow> io_accept io = -1)"

inductive daemon_step :: "daemon \<Rightarrow> daemon \<Rightarrow> bool" where
  signal: "\<not> ended (dmain s) \<Longrightarrow> daemon_step s (on_signal s)"
| main: "\<not> ended (dmain s) \<Longrightarrow> io_valid io s \<Longrightarrow> daemon_step s (main_step io s)"
| client: "\<not> ended (dmain s) \<Longrightarrow> io_valid io s \<Longrightarrow> daemon_step s (client_thread io s)"
| receiver: "\<not> ended (dmain s) \<Longrightarrow> daemon_step s (rx_thread g r s)"

definition daemon_started :: "daemon \<Rightarrow> bool" where
  "daemon_started s \<longleftrightarrow>
     (\<exists>nl srv w m. ptp_valid m \<and> srv_wf srv \<and> clientFd srv = -1 \<and>
        srv_owned srv \<subseteq> set (open_fds w) \<and> bad_closes w = 0 \<and> daemon_init nl srv w (Inr m) = Inr s)"

section \<open>Memory\<close>

definition main_held :: "main_pc \<Rightarrow> ptr list" where
  "main_held pc = (case pc of MHave a \<Rightarrow> [a] | MFree a \<Rightarrow> [a] | _ \<Rightarrow> [])"

lemma main_held_simps [simp]: "main_held (MHave a) = [a]" "main_held (MFree a) = [a]"
  by (simp_all add: main_held_def)

definition holders :: "daemon \<Rightarrow> ptr list" where
  "holders s = rx_held (drx s) @ queue (mqueue (dsh s)) @ main_held (dmain s)"

text \<open>
  The phases of a run: the receiver exists after \<open>MSpawn\<close>, has ended after it was joined, and the
  queue is empty after it was cleaned.
\<close>

fun phase :: "main_pc \<Rightarrow> nat" where
  "phase MSubscribe = 0" | "phase MSetRunning = 0" | "phase MSpawn = 0"
| "phase MTop = 1" | "phase MPop = 1" | "phase (MHave _) = 1" | "phase (MFree _) = 1"
| "phase MUnsubscribe = 1" | "phase MJoinRx = 1" | "phase MClean = 2"
| "phase MGetClient = 3" | "phase MShutdown = 3" | "phase MCloseTest = 3"
| "phase (MCloseCall _) = 3" | "phase MCloseSet = 3" | "phase MStop = 3"
| "phase MJoinClient = 3" | "phase (MExit _) = 4"
| "phase MTerminate = 5" | "phase MKilled = 5" | "phase MFault = 6"

definition memory_ok :: "daemon \<Rightarrow> bool" where
  "memory_ok s \<longleftrightarrow> owned_ok (heap (dsh s)) (holders s) \<and> drx s \<noteq> RxFault \<and> dmain s \<noteq> MFault"

definition stop_block :: "packet_heap \<Rightarrow> ptr \<Rightarrow> bool" where
  "stop_block h a \<longleftrightarrow> (\<exists>p. cells h a = Some p \<and> is_stop_pckt p)"

definition leaked :: "daemon \<Rightarrow> ptr set" where
  "leaked s = live (heap (dsh s)) - set (holders s)"

definition leaks_ok :: "daemon \<Rightarrow> bool" where
  "leaks_ok s \<longleftrightarrow>
     (phase (dmain s) \<le> 4 \<longrightarrow>
        (drx s \<noteq> RxEnd \<longrightarrow> leaked s = {}) \<and> (\<forall>a \<in> leaked s. \<forall>b \<in> leaked s. a = b) \<and>
        (\<forall>a \<in> leaked s. stop_block (heap (dsh s)) a))"

definition phases_ok :: "daemon \<Rightarrow> bool" where
  "phases_ok s \<longleftrightarrow>
     (phase (dmain s) \<le> 4 \<longrightarrow> (phase (dmain s) = 0 \<longleftrightarrow> drx s = RxIdle)) \<and>
     (2 \<le> phase (dmain s) \<and> phase (dmain s) \<le> 4 \<longrightarrow> drx s = RxEnd) \<and>
     (3 \<le> phase (dmain s) \<and> phase (dmain s) \<le> 4 \<longrightarrow> queue (mqueue (dsh s)) = []) \<and>
     (phase (dmain s) = 4 \<longrightarrow> dclient s = CEnd \<and> dmain s = MExit 0)"

lemmas daemon_defs = holders_def memory_ok_def

lemma main_held_none [simp]:
  "main_held MSubscribe = []" "main_held MSetRunning = []" "main_held MSpawn = []"
  "main_held MTop = []" "main_held MPop = []" "main_held MUnsubscribe = []" "main_held MJoinRx = []"
  "main_held MClean = []" "main_held MGetClient = []" "main_held MShutdown = []"
  "main_held MCloseTest = []" "main_held (MCloseCall n) = []" "main_held MCloseSet = []"
  "main_held MStop = []" "main_held MJoinClient = []" "main_held (MExit i) = []"
  "main_held MTerminate = []" "main_held MKilled = []" "main_held MFault = []"
  by (simp_all add: main_held_def)

text \<open>What each thread leaves alone.\<close>

lemma send_command_frame [simp]:
  "dsh (snd (send_command io msg s)) = dsh s" "drx (snd (send_command io msg s)) = drx s"
  "dports (snd (send_command io msg s)) = dports s"
  "dserver (snd (send_command io msg s)) = dserver s" "dos (snd (send_command io msg s)) = dos s"
  "dclient (snd (send_command io msg s)) = dclient s"
  by (simp_all add: send_command_def split: prod.split bool.split option.split)

lemma client_frame:
  "dsh (client_thread io s) = dsh s \<and> drx (client_thread io s) = drx s \<and>
   dports (client_thread io s) = dports s \<and>
   (dmain (client_thread io s) = dmain s \<or> dmain (client_thread io s) = MKilled)"
  by (auto simp: client_thread_def Let_def
      split: client_pc.split prod.split sum.split signal_death.split)

lemma rx_frame:
  "dmain (rx_thread g r s) = dmain s \<and> dclient (rx_thread g r s) = dclient s \<and>
   dports (rx_thread g r s) = dports s \<and> dserver (rx_thread g r s) = dserver s \<and>
   dos (rx_thread g r s) = dos s"
  by (simp add: rx_thread_def split: prod.split)

lemma memory_client: "memory_ok s \<Longrightarrow> memory_ok (client_thread io s)"
  using client_frame [of io s] owned_drop [of "heap (dsh s)" "holders s" "holders (client_thread io s)"]
  by (auto simp: daemon_defs)

lemma memory_signal: "memory_ok s \<Longrightarrow> memory_ok (on_signal s)"
  by (simp add: daemon_defs on_signal_def handleSignal_def)

lemma memory_rx:
  assumes "memory_ok s"
  shows "memory_ok (rx_thread g r s)"
proof -
  obtain pc sh where st: "recvPacketInfoThread (dnl s) g r (drx s, dsh s) = (pc, sh)" by fastforce
  show ?thesis
    using rx_owned [OF _ _ st, of "main_held (dmain s)"] assms st
    by (simp add: daemon_defs rx_thread_def)
qed

lemma memory_pop:
  assumes ok: "memory_ok s" and pc: "dmain s = MPop"
  shows "memory_ok (main_step io s)"
proof (cases "queue (mqueue (dsh s))")
  case Nil
  then show ?thesis
    using ok pc by (simp add: main_step_def daemon_defs mq_pop_def)
next
  case (Cons a as)
  then have "a \<noteq> nullptr"
    using ok owned_nonnull by (fastforce simp: daemon_defs)
  moreover have "owned_ok (heap (dsh s)) (rx_held (drx s) @ as @ [a])"
    using ok pc Cons by (auto simp: daemon_defs intro: owned_perm)
  ultimately show ?thesis
    using ok pc Cons by (simp add: main_step_def daemon_defs mq_pop_def)
qed

lemma memory_main:
  assumes ok: "memory_ok s" and ph: "phases_ok s"
  shows "memory_ok (main_step io s)"
proof (cases "dmain s")
  case MSubscribe
  then show ?thesis
    using ok by (simp add: main_step_def daemon_defs split_beta)
next
  case MUnsubscribe
  then show ?thesis
    using ok by (simp add: main_step_def daemon_defs split_beta)
next
  case MSpawn
  then show ?thesis
    using ok ph by (simp add: main_step_def daemon_defs phases_ok_def)
next
  case MPop
  then show ?thesis using memory_pop [OF ok] by blast
next
  case (MHave a)
  then obtain p where "cells (heap (dsh s)) a = Some p"
    using ok owned_live [of "heap (dsh s)" "holders s" a] by (auto simp: daemon_defs)
  moreover have "owned_ok (heap (dsh s)) (rx_held (drx s) @ queue (mqueue (dsh s)))"
    using ok MHave by (auto simp: daemon_defs intro: owned_drop)
  ultimately show ?thesis
    using ok MHave by (auto simp: main_step_def daemon_defs split: sum.split prod.split)
next
  case (MFree a)
  have "owned_ok (heap (dsh s)) (a # rx_held (drx s) @ queue (mqueue (dsh s)))"
    using ok MFree by (auto simp: daemon_defs intro: owned_perm)
  then show ?thesis
    using ok MFree owned_free by (simp add: main_step_def daemon_defs freePacketInfo_def)
next
  case MClean
  have "owned_ok (heap (dsh s)) (queue (mqueue (dsh s)) @ rx_held (drx s))"
    using ok MClean by (auto simp: daemon_defs intro: owned_perm)
  then show ?thesis
    using ok MClean owned_free_all by (simp add: main_step_def daemon_defs cleanMessageQueue_eq)
next
  case MJoinRx
  then show ?thesis
    using ok by (auto simp: main_step_def daemon_defs)
qed (use ok in \<open>simp_all add: main_step_def daemon_defs Let_def split: prod.split\<close>)

text \<open>The phases.\<close>

lemma rx_idle: "drx s \<in> {RxIdle, RxEnd, RxFault} \<Longrightarrow> rx_thread g r s = s"
  by (auto simp: rx_thread_def)

lemma rx_not_idle: "drx s \<noteq> RxIdle \<Longrightarrow> drx (rx_thread g r s) \<noteq> RxIdle"
  by (cases "drx s") (auto simp: rx_thread_def Let_def split: prod.split option.split)

lemma phases_rx: "phases_ok s \<Longrightarrow> phases_ok (rx_thread g r s)"
  using rx_idle [of s g r] rx_not_idle [of s g r] rx_frame [of g r s] by (auto simp: phases_ok_def)

lemma phases_client: "phases_ok s \<Longrightarrow> \<not> ended (dmain s) \<Longrightarrow> phases_ok (client_thread io s)"
  using client_frame [of io s] by (cases "dmain s") (auto simp: phases_ok_def)

lemma phases_main:
  assumes ok: "phases_ok s"
  shows "phases_ok (main_step io s)"
proof (cases "dmain s")
  case MClean
  then show ?thesis
    using ok by (simp add: main_step_def phases_ok_def cleanMessageQueue_eq)
qed (use ok in \<open>auto simp: main_step_def phases_ok_def split_beta Let_def
      split: option.split sum.split\<close>)

lemma phases_signal: "phases_ok s \<Longrightarrow> phases_ok (on_signal s)"
  by (simp add: phases_ok_def on_signal_def handleSignal_def)

text \<open>The leak: nothing but the block of the terminate message.\<close>

lemma receive_leak:
  assumes "owned_ok h as" and "receivePacketInfo c g r h = (a, h1)"
  shows "a = nullptr \<and> h1 = h \<or> live h1 = insert a (live h) \<and> a \<notin> live h \<and> a \<noteq> nullptr \<and>
    (\<forall>b. b \<noteq> a \<longrightarrow> cells h1 b = cells h b)"
proof (cases "a = nullptr")
  case True
  then show ?thesis
    using receive_null_or_new [of c g r h] assms owned_new [OF assms(1)] by fastforce
next
  case False
  then obtain p where "heap_new p h = (a, h1)"
    using receive_null_or_new [of c g r h] assms(2) by auto
  then show ?thesis
    using heap_new_fresh [of h p] assms(1) False by (auto simp: heap_new_def owned_ok_def)
qed

lemma rx_leak:
  assumes "owned_ok (heap s) (rx_held pc @ queue (mqueue s) @ as)"
    and "recvPacketInfoThread c g r (pc, s) = (pc', s')"
  defines "h \<equiv> heap s" and "h' \<equiv> heap s'"
    and "X \<equiv> live (heap s) - set (rx_held pc @ queue (mqueue s) @ as)"
    and "X' \<equiv> live (heap s') - set (rx_held pc' @ queue (mqueue s') @ as)"
  shows "X' = X \<and> (\<forall>a \<in> X. cells h' a = cells h a) \<or>
    (\<exists>a. X' = insert a X \<and> pc' = RxEnd \<and> pc \<noteq> RxEnd \<and> h' = h \<and> stop_block h a)"
proof (cases pc)
  case (RxHave a)
  then obtain p where p: "cells h a = Some p"
    using owned_live [OF assms(1)] by (fastforce simp: h_def)
  have a: "a \<in> live h" "a \<notin> set (queue (mqueue s) @ as)"
    using assms(1) RxHave by (auto simp: owned_ok_def h_def)
  show ?thesis
  proof (cases "is_stop_pckt p")
    case True
    then show ?thesis
      using assms(2) RxHave p a
      by (intro disjI2 exI [of _ a]) (auto simp: X_def X'_def h_def h'_def stop_block_def)
  next
    case False
    then show ?thesis
      using assms(2) RxHave p a
      by (auto simp: X_def X'_def h_def h'_def mq_push_def)
  qed
next
  case RxRecv
  obtain a h1 where a: "receivePacketInfo c g r (heap s) = (a, h1)" by fastforce
  have own: "owned_ok (heap s) (queue (mqueue s) @ as)"
    using assms(1) RxRecv by simp
  have "s' = s\<lparr>heap := h1\<rparr>" "pc' = (if a \<noteq> nullptr then RxHave a else RxTop)"
    using assms(2) RxRecv a by auto
  then show ?thesis
    using receive_leak [OF own a] RxRecv by (auto simp: X_def X'_def h_def h'_def)
qed (use assms(2) in \<open>auto simp: X_def X'_def h_def h'_def split: if_splits\<close>)

lemma leaks_rx:
  assumes "leaks_ok s" and "memory_ok s"
  shows "leaks_ok (rx_thread g r s)"
proof -
  obtain pc sh where st: "recvPacketInfoThread (dnl s) g r (drx s, dsh s) = (pc, sh)" by fastforce
  have own: "owned_ok (heap (dsh s)) (rx_held (drx s) @ queue (mqueue (dsh s)) @ main_held (dmain s))"
    using assms(2) by (simp add: daemon_defs)
  let ?t = "rx_thread g r s"
  have t: "dsh ?t = sh" "drx ?t = pc" "dmain ?t = dmain s"
    using st by (simp_all add: rx_thread_def)
  have fin: "drx s = RxEnd \<Longrightarrow> pc = RxEnd"
    using st by simp
  consider (same) "leaked ?t = leaked s"
      "\<forall>a \<in> leaked s. cells (heap (dsh ?t)) a = cells (heap (dsh s)) a"
    | (stop) a where "leaked ?t = insert a (leaked s)" "drx ?t = RxEnd" "drx s \<noteq> RxEnd"
      "heap (dsh ?t) = heap (dsh s)" "stop_block (heap (dsh s)) a"
    using rx_leak [OF own st] unfolding leaked_def holders_def t by blast
  then show ?thesis
  proof cases
    case same
    then have "\<forall>a \<in> leaked s. stop_block (heap (dsh ?t)) a = stop_block (heap (dsh s)) a"
      by (simp add: stop_block_def)
    with same assms(1) fin t show ?thesis by (simp add: leaks_ok_def) blast
  next
    case (stop a)
    with assms(1) t show ?thesis by (simp add: leaks_ok_def)
  qed
qed

lemma leaks_cong:
  assumes "leaks_ok s" and "phase (dmain s) \<le> 4" and "leaked t \<subseteq> leaked s"
    and "\<And>a. a \<in> leaked s \<Longrightarrow> cells (heap (dsh t)) a = cells (heap (dsh s)) a"
    and "drx t \<noteq> RxEnd \<Longrightarrow> drx s \<noteq> RxEnd"
  shows "leaks_ok t"
proof -
  have "\<forall>a \<in> leaked t. stop_block (heap (dsh t)) a"
    using assms(1-4) unfolding leaks_ok_def stop_block_def by (metis subsetD)
  moreover have "\<forall>a \<in> leaked t. \<forall>b \<in> leaked t. a = b"
    using assms(1-3) unfolding leaks_ok_def by blast
  moreover have "drx t \<noteq> RxEnd \<longrightarrow> leaked t = {}"
    using assms(1-3,5) unfolding leaks_ok_def by blast
  ultimately show ?thesis by (simp add: leaks_ok_def)
qed

lemma leaks_client: "leaks_ok s \<Longrightarrow> \<not> ended (dmain s) \<Longrightarrow> leaks_ok (client_thread io s)"
proof -
  assume lk: "leaks_ok s"
  have "leaks_ok (client_thread io s)" if "dmain (client_thread io s) = dmain s"
  proof -
    have "leaked (client_thread io s) = leaked s"
      using that client_frame [of io s] by (simp add: leaked_def holders_def)
    with that lk show ?thesis using client_frame [of io s] by (simp add: leaks_ok_def)
  qed
  moreover have "leaks_ok (client_thread io s)" if "dmain (client_thread io s) = MKilled"
    using that by (simp add: leaks_ok_def)
  ultimately show ?thesis using client_frame [of io s] by blast
qed

lemma leaks_signal: "leaks_ok s \<Longrightarrow> leaks_ok (on_signal s)"
  by (simp add: leaks_ok_def leaked_def holders_def on_signal_def handleSignal_def)

lemma live_phase: "\<not> ended pc \<Longrightarrow> phase pc \<le> 3"
  by (cases pc) auto

lemma leaks_pop:
  assumes lk: "leaks_ok s" and mem: "memory_ok s" and pc: "dmain s = MPop"
  shows "leaks_ok (main_step io s)"
proof (cases "queue (mqueue (dsh s))")
  case Nil
  then show ?thesis
    using pc by (intro leaks_cong [OF lk]) (simp_all add: main_step_def leaked_def holders_def mq_pop_def)
next
  case (Cons a as)
  then have "a \<noteq> nullptr"
    using mem owned_nonnull by (fastforce simp: daemon_defs)
  then show ?thesis
    using pc Cons
    by (intro leaks_cong [OF lk]) (auto simp: main_step_def leaked_def holders_def mq_pop_def)
qed

lemma leaks_clean:
  assumes lk: "leaks_ok s" and wf: "heap_wf (heap (dsh s))" and pc: "dmain s = MClean"
  shows "leaks_ok (main_step io s)"
proof -
  let ?t = "main_step io s"
  have "leaked ?t \<subseteq> leaked s"
    using live_delete_all [OF wf] pc
    by (auto simp: main_step_def leaked_def holders_def cleanMessageQueue_eq)
  moreover have "cells (heap (dsh ?t)) a = cells (heap (dsh s)) a" if "a \<in> leaked s" for a
    using pc that
    by (simp add: main_step_def leaked_def holders_def cleanMessageQueue_eq cells_delete_all)
  ultimately show ?thesis
    using pc by (intro leaks_cong [OF lk]) (auto simp: main_step_def split_beta)
qed

lemma leaks_main:
  assumes lk: "leaks_ok s" and mem: "memory_ok s" and ph: "phases_ok s" and run: "\<not> ended (dmain s)"
  shows "leaks_ok (main_step io s)"
proof -
  let ?t = "main_step io s"
  have p4: "phase (dmain s) \<le> 4"
    using live_phase [OF run] by simp
  have wf: "heap_wf (heap (dsh s))"
    using mem by (simp add: memory_ok_def owned_ok_def)
  show ?thesis
  proof (cases "dmain s")
    case (MHave a)
    then show ?thesis
    proof (cases "phase (dmain ?t) \<le> 4")
      case True
      then show ?thesis
        using MHave
        by (intro leaks_cong [OF lk p4])
          (auto simp: main_step_def leaked_def holders_def split: option.splits sum.splits prod.splits)
    qed (simp add: leaks_ok_def)
  next
    case (MFree a)
    then show ?thesis
      using wf
      by (intro leaks_cong [OF lk p4])
        (auto simp: main_step_def leaked_def holders_def freePacketInfo_def live_delete
          intro!: cells_delete_other)
  next
    case MSpawn
    then show ?thesis
      using ph
      by (intro leaks_cong [OF lk p4]) (auto simp: main_step_def leaked_def holders_def phases_ok_def)
  next
    case MPop
    then show ?thesis using leaks_pop [OF lk mem] by blast
  next
    case MClean
    then show ?thesis using leaks_clean [OF lk wf] by blast
  qed (use run in \<open>auto simp: main_step_def leaked_def holders_def split_beta Let_def
      intro!: leaks_cong [OF lk p4] split: if_splits\<close>)
qed

section \<open>Descriptors before shutdown\<close>

definition fd_ok :: "client_pc \<Rightarrow> unix_server \<Rightarrow> os \<Rightarrow> bool" where
  "fd_ok pc c w \<longleftrightarrow>
     srv_wf c \<and> bad_closes w = 0 \<and> (serverFd c \<noteq> -1 \<longrightarrow> serverFd c \<in> set (open_fds w)) \<and>
     (case pc of
        CTop \<Rightarrow> clientFd c = -1
      | CAccept \<Rightarrow> clientFd c = -1
      | CEnd \<Rightarrow> clientFd c = -1
      | CCloseCall n \<Rightarrow> clientFd c = n \<and> n \<noteq> -1 \<and> n \<in> set (open_fds w)
      | CCloseSet \<Rightarrow> True
      | _ \<Rightarrow> clientFd c \<noteq> -1 \<longrightarrow> clientFd c \<in> set (open_fds w))"

definition fds_ok :: "daemon \<Rightarrow> bool" where
  "fds_ok s \<longleftrightarrow> (phase (dmain s) \<le> 2 \<longrightarrow> fd_ok (dclient s) (dserver s) (dos s))"

lemma fd_ok_connect:
  assumes "fd_ok CAccept c w" and "fd_result r w" and "serverFd c = -1 \<longrightarrow> r = -1"
    and "connectToClient r (c, w) = (b, c', w')"
  shows "fd_ok (if b then CHandle else CCloseTest) c' w'"
proof (cases "r = -1")
  case True
  with assms show ?thesis
    by (auto simp: fd_ok_def connectToClient_def os_open_def srv_wf_def)
next
  case False
  then have "0 \<le> r" "r \<notin> set (open_fds w)" "serverFd c \<noteq> -1"
    using assms by (auto simp: fd_result_def fresh_fd_def)
  with assms show ?thesis
    by (auto simp: fd_ok_def connectToClient_def srv_wf_def os_simps)
qed

lemma fd_ok_close:
  assumes "fd_ok (CCloseCall n) c w"
  shows "fd_ok CCloseSet c (os_close n w)"
proof -
  have "serverFd c \<noteq> n"
    using assms by (auto simp: fd_ok_def srv_wf_def)
  with assms show ?thesis by (simp add: fd_ok_def os_simps)
qed

lemma fds_client:
  assumes ok: "fds_ok s" and run: "\<not> ended (dmain s)" and io: "io_valid io s"
  shows "fds_ok (client_thread io s)"
proof (cases "phase (dmain s) \<le> 2")
  case False
  then have "\<not> phase (dmain (client_thread io s)) \<le> 2"
    using client_frame [of io s] by auto
  then show ?thesis by (simp add: fds_ok_def)
next
  case True
  with ok have fd: "fd_ok (dclient s) (dserver s) (dos s)" by (simp add: fds_ok_def)
  show ?thesis
  proof (cases "dclient s")
    case CAccept
    obtain b c w where con: "connectToClient (io_accept io) (dserver s, dos s) = (b, c, w)"
      by (metis prod_cases3)
    then have "fd_ok (if b then CHandle else CCloseTest) c w"
      by (intro fd_ok_connect [OF _ _ _ con]) (use fd io CAccept in \<open>simp_all add: io_valid_def\<close>)
    with CAccept con show ?thesis by (simp add: client_thread_def fds_ok_def)
  next
    case (CCloseCall n)
    then show ?thesis
      using fd fd_ok_close by (simp add: client_thread_def fds_ok_def)
  next
    case CCloseSet
    then show ?thesis
      using fd by (simp add: client_thread_def fds_ok_def fd_ok_def srv_wf_def)
  next
    case (CRead port)
    then show ?thesis
      using fd by (simp add: client_thread_def fds_ok_def fd_ok_def split_beta)
  next
    case (CSend port pid)
    then show ?thesis
      using fd
      by (auto simp: client_thread_def fds_ok_def fd_ok_def
          split: prod.split sum.split signal_death.split)
  qed (use fd in \<open>simp_all add: client_thread_def fds_ok_def fd_ok_def Let_def\<close>)
qed

lemma fds_main:
  assumes "fds_ok s" and "\<not> ended (dmain s)"
  shows "fds_ok (main_step io s)"
  using assms
  by (cases "dmain s")
    (simp_all add: main_step_def fds_ok_def split_beta Let_def split: option.split sum.split)

lemma fds_rx: "fds_ok s \<Longrightarrow> fds_ok (rx_thread g r s)"
  using rx_frame [of g r s] by (simp add: fds_ok_def)

lemma fds_signal: "fds_ok s \<Longrightarrow> fds_ok (on_signal s)"
  by (simp add: fds_ok_def on_signal_def)

section \<open>Answers\<close>

definition answers_ok :: "daemon \<Rightarrow> bool" where
  "answers_ok s \<longleftrightarrow> ptp_valid (dports s) \<and> (\<forall>(port, pid) \<in> set (danswers s). pid \<noteq> 0) \<and>
     (\<forall>port pid. dclient s = CSend port pid \<longrightarrow> pid \<noteq> 0)"

lemma answer_nonzero: "answer m port \<noteq> 0"
  by (simp add: answer_def Let_def)

lemma answers_client: "answers_ok s \<Longrightarrow> answers_ok (client_thread io s)"
  by (cases "dclient s")
    (auto simp: client_thread_def answers_ok_def Let_def answer_nonzero
      split: prod.splits sum.split signal_death.split)

lemma send_command_answers [simp]: "danswers (snd (send_command io msg s)) = danswers s"
  by (simp add: send_command_def split: prod.split bool.split option.split)

lemma answers_main: "answers_ok s \<Longrightarrow> answers_ok (main_step io s)"
  by (cases "dmain s")
    (auto simp: main_step_def answers_ok_def split_beta Let_def dest: addPidMapping_valid
      split: option.split sum.split prod.split)

lemma answers_rx: "answers_ok s \<Longrightarrow> answers_ok (rx_thread g r s)"
  by (simp add: answers_ok_def rx_thread_def split: prod.split)

lemma answers_signal: "answers_ok s \<Longrightarrow> answers_ok (on_signal s)"
  by (simp add: answers_ok_def on_signal_def)

section \<open>All reachable states\<close>

definition daemon_inv :: "daemon \<Rightarrow> bool" where
  "daemon_inv s \<longleftrightarrow> memory_ok s \<and> phases_ok s \<and> leaks_ok s \<and> fds_ok s \<and> answers_ok s"

lemma daemon_inv_step: "daemon_step s t \<Longrightarrow> daemon_inv s \<Longrightarrow> daemon_inv t"
  unfolding daemon_inv_def
  by (induction rule: daemon_step.induct)
    (simp_all add: memory_signal memory_main memory_client memory_rx phases_signal phases_main
      phases_client phases_rx leaks_signal leaks_main leaks_client leaks_rx fds_signal fds_main
      fds_client fds_rx answers_signal answers_main answers_client answers_rx)

lemma daemon_inv_started: "daemon_started s \<Longrightarrow> daemon_inv s"
proof -
  assume "daemon_started s"
  then obtain nl srv w m where s: "daemon_init nl srv w (Inr m) = Inr s" "ptp_valid m" "srv_wf srv"
    "clientFd srv = -1" "srv_owned srv \<subseteq> set (open_fds w)" "bad_closes w = 0"
    unfolding daemon_started_def by blast
  then have "s = \<lparr>dsh = \<lparr>running = True, heap = heap_init, mqueue = mq_init\<rparr>, dports = m,
      dserver = srv, dos = w, dnl = nl, drx = RxIdle, dmain = MSubscribe, dclient = CTop,
      dcommands = [], danswers = [], dshut = False, dwake = False\<rparr>"
    by (simp add: daemon_init_def)
  moreover have "live heap_init = {}"
    by (simp add: heap_init_def)
  ultimately show ?thesis
    using s owned_init
    by (auto simp: daemon_inv_def memory_ok_def holders_def phases_ok_def leaks_ok_def leaked_def
        fds_ok_def fd_ok_def answers_ok_def mq_init_def srv_owned_def)
qed

interpretation dmn: transition_invariant daemon_started daemon_step daemon_inv
  by unfold_locales (auto intro: daemon_inv_step daemon_inv_started)

text \<open>
  C5: The daemon's memory discipline holds under every interleaving of its threads and of signals:
  no thread ever reads a freed packet, no packet is freed twice, each packet is held in exactly
  one place (the receiver's variable, the queue, the main thread's variable), and while the
  program runs the only block that nobody holds is that of the terminate message, at most one.
\<close>

theorem daemon_memory_safe:
  assumes "daemon_started s0" and "daemon_step\<^sup>*\<^sup>* s0 s"
  shows "drx s \<noteq> RxFault \<and> dmain s \<noteq> MFault \<and> bad_frees (heap (dsh s)) = 0 \<and>
    distinct (holders s) \<and> set (holders s) \<subseteq> live (heap (dsh s)) \<and>
    (\<not> ended (dmain s) \<longrightarrow>
      (\<forall>a \<in> live (heap (dsh s)) - set (holders s). \<exists>p. cells (heap (dsh s)) a = Some p \<and> is_stop_pckt p) \<and>
      (\<forall>a \<in> live (heap (dsh s)) - set (holders s). \<forall>b \<in> live (heap (dsh s)) - set (holders s). a = b))"
proof -
  have inv: "memory_ok s" "leaks_ok s"
    using dmn.inv_reachable [OF assms] by (simp_all add: daemon_inv_def)
  from inv(1) have "drx s \<noteq> RxFault" "dmain s \<noteq> MFault" "owned_ok (heap (dsh s)) (holders s)"
    by (simp_all add: memory_ok_def)
  moreover have "\<not> ended (dmain s) \<Longrightarrow>
      (\<forall>a \<in> leaked s. stop_block (heap (dsh s)) a) \<and> (\<forall>a \<in> leaked s. \<forall>b \<in> leaked s. a = b)"
    using inv(2) live_phase [of "dmain s"] by (simp add: leaks_ok_def)
  ultimately show ?thesis
    by (auto simp: owned_ok_def leaked_def stop_block_def)
qed

text \<open>
  C16: An orderly exit is complete: when the main thread returns, it returns 0, the receiver and
  the client thread have ended, the queue is empty, and every block that is still allocated is
  the one of the terminate message.
\<close>

theorem daemon_exit_clean:
  assumes "daemon_started s0" and "daemon_step\<^sup>*\<^sup>* s0 s" and "dmain s = MExit code"
  shows "code = 0 \<and> drx s = RxEnd \<and> dclient s = CEnd \<and> mq_empty (mqueue (dsh s)) \<and>
    (\<forall>a \<in> live (heap (dsh s)). \<exists>p. cells (heap (dsh s)) a = Some p \<and> is_stop_pckt p) \<and>
    (\<forall>a \<in> live (heap (dsh s)). \<forall>b \<in> live (heap (dsh s)). a = b)"
proof -
  have inv: "phases_ok s" "leaks_ok s"
    using dmn.inv_reachable [OF assms(1,2)] by (simp_all add: daemon_inv_def)
  then have ph: "code = 0" "drx s = RxEnd" "dclient s = CEnd" "queue (mqueue (dsh s)) = []"
    using assms(3) by (simp_all add: phases_ok_def)
  then have "leaked s = live (heap (dsh s))"
    using assms(3) by (simp add: leaked_def holders_def)
  then show ?thesis
    using inv(2) ph assms(3) by (simp add: leaks_ok_def stop_block_def mq_empty_def)
qed

text \<open>
  C35: Until the main thread starts to shut down the connection, the descriptors are in order: no
  descriptor is closed twice, and a new client is accepted only when the descriptor of the last
  one has been given up. No client is ever told process 0.
\<close>

theorem daemon_descriptors:
  assumes "daemon_started s0" and "daemon_step\<^sup>*\<^sup>* s0 s"
  shows "(phase (dmain s) \<le> 2 \<longrightarrow> bad_closes (dos s) = 0 \<and>
      (dclient s \<in> {CTop, CAccept, CEnd} \<longrightarrow> clientFd (dserver s) = -1)) \<and>
    (\<forall>(port, pid) \<in> set (danswers s). pid \<noteq> 0)"
  using dmn.inv_reachable [OF assms] by (auto simp: daemon_inv_def fds_ok_def fd_ok_def answers_ok_def)

section \<open>Signals\<close>

lemma stopped_step:
  "daemon_step s t \<Longrightarrow> \<not> running (dsh s) \<Longrightarrow> dmain s \<notin> {MSubscribe, MSetRunning} \<Longrightarrow>
    \<not> running (dsh t) \<and> dmain t \<notin> {MSubscribe, MSetRunning}"
proof (induction rule: daemon_step.induct)
  case (signal s)
  then show ?case by (simp add: on_signal_def handleSignal_def)
next
  case (main s io)
  then show ?case
    by (cases "dmain s")
      (auto simp: main_step_def split_beta Let_def split: option.split sum.split)
next
  case (client s io)
  then show ?case using client_frame [of io s] by auto
next
  case (receiver s g r)
  then show ?case
    by (cases "drx s") (auto simp: rx_thread_def split_beta Let_def split: option.split)
qed

text \<open>
  A signal that arrives after the assignment of \<open>running\<close> in \<open>main\<close> is final: no thread
  sets the flag again.
\<close>

theorem daemon_signal_sticks:
  assumes "daemon_step\<^sup>*\<^sup>* (on_signal s) t" and "dmain s \<notin> {MSubscribe, MSetRunning}"
  shows "\<not> running (dsh t)"
proof -
  have "\<not> running (dsh t) \<and> dmain t \<notin> {MSubscribe, MSetRunning}"
    using assms(1)
    by (induction rule: rtranclp_induct)
      (use assms(2) stopped_step in \<open>auto simp: on_signal_def handleSignal_def\<close>)
  then show ?thesis by blast
qed

section \<open>Schedules\<close>

text \<open>A schedule as data, so that concrete runs can be evaluated.\<close>

datatype action = Signal | Main daemon_io | Client daemon_io | Receiver mem read_outcome

fun act :: "action \<Rightarrow> daemon \<Rightarrow> daemon option" where
  "act Signal s = (if ended (dmain s) then None else Some (on_signal s))"
| "act (Main io) s =
     (if ended (dmain s) \<or> \<not> io_valid io s then None else Some (main_step io s))"
| "act (Client io) s =
     (if ended (dmain s) \<or> \<not> io_valid io s then None else Some (client_thread io s))"
| "act (Receiver g r) s = (if ended (dmain s) then None else Some (rx_thread g r s))"

fun run_acts :: "action list \<Rightarrow> daemon \<Rightarrow> daemon option" where
  "run_acts [] s = Some s"
| "run_acts (a # as) s = (case act a s of None \<Rightarrow> None | Some t \<Rightarrow> run_acts as t)"

lemma act_step: "act a s = Some t \<Longrightarrow> daemon_step s t"
  by (cases a) (auto split: if_splits intro: daemon_step.intros)

lemma run_acts_reach: "run_acts as s = Some t \<Longrightarrow> daemon_step\<^sup>*\<^sup>* s t"
proof (induction as arbitrary: s)
  case (Cons a as)
  then show ?case
    using act_step [of a s] by (auto split: option.splits intro: converse_rtranclp_into_rtranclp)
qed simp

lemma run_acts_append:
  "run_acts (as @ bs) s = (case run_acts as s of None \<Rightarrow> None | Some t \<Rightarrow> run_acts bs t)"
  by (induction as arbitrary: s) (auto split: option.split)

definition io0 :: daemon_io where
  "io0 = \<lparr>io_malloc = True, io_pid = 812, io_sendmsg = 1040,
     io_scan = \<lparr>env_tcp = None, env_udp = None, env_procs = []\<rparr>,
     io_socket = -1, io_connect = 0, io_accept = -1, io_read = GotBytes [], io_write = Wrote 4,
     io_uninit = 0\<rparr>"

definition daemon0 :: daemon where
  "daemon0 = \<lparr>dsh = \<lparr>running = True, heap = heap_init, mqueue = mq_init\<rparr>,
     dports = \<lparr>pmap = (\<lambda>_. None)\<rparr>, dserver = \<lparr>serverFd = 4, clientFd = -1, isShuttingDown = False\<rparr>,
     dos = \<lparr>open_fds = [4, 3], bad_closes = 0, sock_file = True\<rparr>,
     dnl = \<lparr>sock_fd = 3, src_addr = None, dest_addr = None\<rparr>, drx = RxIdle, dmain = MSubscribe,
     dclient = CTop, dcommands = [], danswers = [], dshut = False, dwake = False\<rparr>"

lemma daemon_startedI:
  "daemon_init nl srv w (Inr m) = Inr s \<Longrightarrow> ptp_valid m \<Longrightarrow> srv_wf srv \<Longrightarrow> clientFd srv = -1 \<Longrightarrow>
    srv_owned srv \<subseteq> set (open_fds w) \<Longrightarrow> bad_closes w = 0 \<Longrightarrow> daemon_started s"
  unfolding daemon_started_def by blast

lemma daemon0_started: "daemon_started daemon0"
  by (rule daemon_startedI [of "dnl daemon0" "dserver daemon0" "dos daemon0" "dports daemon0"])
    (auto simp: daemon_init_def daemon0_def ptp_valid_def srv_wf_def srv_owned_def)

lemmas daemon_exec =
  io_valid_def fd_result_def fresh_fd_def main_step_def client_thread_def rx_thread_def on_signal_def
  handleSignal_def send_command_def sendMessage_def connectToClient_def getClientFd_def
  receivePort_def sendPid_def mq_pop_def mq_init_def cleanMessageQueue_eq os_open_def os_close_def
  stopListeningForNewClients_def Let_def

text \<open>A client is connected and waits; then the main thread is told to stop and joins the receiver.\<close>

definition connect_acts :: "action list" where
  "connect_acts = [Main io0, Main io0, Main io0, Client io0, Client (io0\<lparr>io_accept := 5\<rparr>),
     Client io0, Client io0]"

definition connected :: daemon where
  "connected = daemon0\<lparr>dserver := \<lparr>serverFd = 4, clientFd = 5, isShuttingDown = False\<rparr>,
     dos := \<lparr>open_fds = [5, 4, 3], bad_closes = 0, sock_file = True\<rparr>, drx := RxTop, dmain := MTop,
     dclient := CRead 0, dcommands := [message_bytes 812 ''daemon_subscribe'']\<rparr>"

lemma run_connect: "run_acts connect_acts daemon0 = Some connected"
  by (simp add: connect_acts_def daemon0_def connected_def io0_def daemon_exec)

definition stop_acts :: "action list" where
  "stop_acts = [Signal, Main io0, Main io0, Receiver [] ReadError, Main io0, Main io0, Main io0, Main io0]"

lemma run_stop: "run_acts stop_acts connected = Some (connected\<lparr>
    dsh := \<lparr>running = False, heap = heap_init, mqueue = \<lparr>queue = []\<rparr>\<rparr>, drx := RxEnd, dmain := MCloseTest,
    dshut := True, dcommands := [message_bytes 812 ''daemon_subscribe'', message_bytes 812 ''daemon_unsubscribe'']\<rparr>)"
  by (simp add: stop_acts_def daemon0_def connected_def io0_def daemon_exec)

definition stopping :: daemon where
  "stopping = connected\<lparr>dsh := \<lparr>running = False, heap = heap_init, mqueue = \<lparr>queue = []\<rparr>\<rparr>,
    drx := RxEnd, dmain := MCloseTest,
    dshut := True, dcommands := [message_bytes 812 ''daemon_subscribe'', message_bytes 812 ''daemon_unsubscribe'']\<rparr>"

text \<open>The client thread wakes from its read and closes, before or while the main thread closes.\<close>

definition orderly_acts :: "action list" where
  "orderly_acts = [Client io0, Client io0, Client io0, Client io0, Main io0, Main io0, Client io0, Main io0]"

definition racing_acts :: "action list" where
  "racing_acts = [Client io0, Client io0, Main io0, Main io0, Client io0]"

lemma run_orderly:
  "\<exists>t. run_acts orderly_acts stopping = Some t \<and> dmain t = MExit 0 \<and> live (heap (dsh t)) = {} \<and>
    bad_closes (dos t) = 0"
  by (simp add: orderly_acts_def stopping_def connected_def daemon0_def io0_def daemon_exec heap_init_def)

lemma run_racing: "\<exists>t. run_acts racing_acts stopping = Some t \<and> bad_closes (dos t) = 1"
  by (simp add: racing_acts_def stopping_def connected_def daemon0_def io0_def daemon_exec)

lemma reach_stopping: "daemon_step\<^sup>*\<^sup>* daemon0 stopping"
  using run_acts_reach [OF run_connect] run_acts_reach [OF run_stop] by (simp add: stopping_def)

text \<open>
  C40: The shutdown has a race. \<open>closeClientFd\<close> is called by the main thread and by the client
  thread without a lock, and there is a run in which both close the same number: the second close
  hits a descriptor that is no longer open (or one that was opened since).
\<close>

theorem daemon_double_close:
  "\<exists>s0 s. daemon_started s0 \<and> daemon_step\<^sup>*\<^sup>* s0 s \<and> bad_closes (dos s0) = 0 \<and> bad_closes (dos s) = 1"
proof -
  obtain t where t: "run_acts racing_acts stopping = Some t" "bad_closes (dos t) = 1"
    using run_racing by blast
  have "daemon_step\<^sup>*\<^sup>* daemon0 t"
    using reach_stopping run_acts_reach [OF t(1)] by simp
  moreover have "bad_closes (dos daemon0) = 0" by (simp add: daemon0_def)
  ultimately show ?thesis using daemon0_started t(2) by blast
qed

text \<open>
  A signal that arrives before \<open>main\<close> assigns \<open>running = true\<close> is lost: there is a run in
  which the handler has run, no thread is told, and the program goes on into its main loop.
\<close>

theorem daemon_early_signal_lost:
  "\<exists>s0 s t. daemon_started s0 \<and> daemon_step\<^sup>*\<^sup>* s0 (on_signal s) \<and> daemon_step\<^sup>*\<^sup>* (on_signal s) t \<and>
    running (dsh t) \<and> dmain t = MPop"
proof -
  let ?s = "daemon0\<lparr>dmain := MSetRunning, dcommands := [message_bytes 812 ''daemon_subscribe'']\<rparr>"
  have 1: "run_acts [Main io0, Signal] daemon0 = Some (on_signal ?s)"
    by (simp add: daemon0_def io0_def daemon_exec)
  have 2: "\<exists>t. run_acts [Main io0, Main io0, Main io0] (on_signal ?s) = Some t \<and>
      running (dsh t) \<and> dmain t = MPop"
    by (simp add: daemon0_def io0_def daemon_exec)
  show ?thesis
    using daemon0_started run_acts_reach [OF 1] 2 run_acts_reach by blast
qed

theorem daemon_memory_safe_witness:
  "bad_frees (heap (dsh connected)) = 0 \<and> holders connected = []"
  using daemon_memory_safe [OF daemon0_started run_acts_reach [OF run_connect]]
  by (simp add: holders_def connected_def daemon0_def mq_init_def)

theorem daemon_exit_clean_witness:
  "\<exists>t. daemon_step\<^sup>*\<^sup>* daemon0 t \<and> dmain t = MExit 0 \<and> drx t = RxEnd \<and> dclient t = CEnd"
proof -
  obtain t where t: "run_acts orderly_acts stopping = Some t" "dmain t = MExit 0"
    using run_orderly by blast
  have "daemon_step\<^sup>*\<^sup>* daemon0 t"
    using reach_stopping run_acts_reach [OF t(1)] by simp
  with daemon_exit_clean [OF daemon0_started this t(2)] t(2) show ?thesis by blast
qed

theorem daemon_descriptors_witness:
  "dclient connected = CRead 0 \<and> clientFd (dserver connected) = 5 \<and> bad_closes (dos connected) = 0"
  using daemon_descriptors [OF daemon0_started run_acts_reach [OF run_connect]]
  by (simp add: connected_def)

theorem daemon_signal_sticks_witness:
  "daemon_step\<^sup>*\<^sup>* (on_signal connected) stopping \<and> \<not> running (dsh stopping)"
proof -
  have "run_acts (tl stop_acts) (on_signal connected) = Some stopping"
    using run_stop by (simp add: stop_acts_def stopping_def connected_def)
  then have "daemon_step\<^sup>*\<^sup>* (on_signal connected) stopping"
    by (rule run_acts_reach)
  then show ?thesis
    using daemon_signal_sticks [of connected stopping] by (simp add: connected_def)
qed

end
