(* ===== verification/PidToPacketsInfoMap.thy ===== *)
theory PidToPacketsInfoMap
  imports SharedThreads
begin

text \<open>
  \<^verbatim>\<open>packet_hunter/src/PidToPacketsInfoMap.cpp\<close>: the packets the hunter has seen, by process. The
  map holds pointers; comparing packets reads the blocks they point to, and reading a freed block
  is \<open>None\<close>. A \<open>std::unordered_map\<close> is iterated in an order the program does not control: that
  order is an argument, a list of the keys (\<open>valid_iter\<close>).
\<close>

record pid_to_packets =
  pktmap :: "pid_t \<Rightarrow> ptr list option"

definition ptpi_init :: pid_to_packets where
  "ptpi_init = \<lparr>pktmap = (\<lambda>_. None)\<rparr>"

definition comparePacketInfo :: "pckt_info \<Rightarrow> pckt_info \<Rightarrow> bool" where
  "comparePacketInfo a b \<longleftrightarrow>
     src_ip a = src_ip b \<and> dst_ip a = dst_ip b \<and> src_port a = src_port b \<and>
     dst_port a = dst_port b \<and> proto a = proto b"

definition valid_iter :: "pid_t list \<Rightarrow> pid_to_packets \<Rightarrow> bool" where
  "valid_iter ord m \<longleftrightarrow> distinct ord \<and> set ord = dom (pktmap m)"

definition getMap :: "pid_t list \<Rightarrow> pid_to_packets \<Rightarrow> (pid_t \<times> ptr list) list" where
  "getMap ord m = map (\<lambda>pid. (pid, the (pktmap m pid))) ord"

fun scan_vector :: "packet_heap \<Rightarrow> pckt_info \<Rightarrow> ptr list \<Rightarrow> bool option" where
  "scan_vector h new [] = Some False"
| "scan_vector h new (packet # ps) =
     (case cells h packet of
        None \<Rightarrow> None
      | Some p \<Rightarrow> if comparePacketInfo p new then Some True else scan_vector h new ps)"

fun scan_map :: "packet_heap \<Rightarrow> pckt_info \<Rightarrow> (pid_t \<times> ptr list) list \<Rightarrow> bool option" where
  "scan_map h new [] = Some False"
| "scan_map h new ((pid, ps) # rest) =
     (case scan_vector h new ps of
        None \<Rightarrow> None
      | Some True \<Rightarrow> Some True
      | Some False \<Rightarrow> scan_map h new rest)"

definition containsPacket :: "pid_t list \<Rightarrow> packet_heap \<Rightarrow> ptr \<Rightarrow> pid_to_packets \<Rightarrow> bool option" where
  "containsPacket ord h newPacket m =
     (case cells h newPacket of
        None \<Rightarrow> None
      | Some p \<Rightarrow> scan_map h p (getMap ord m))"

definition insertPacketInfo :: "pid_t \<Rightarrow> ptr \<Rightarrow> pid_to_packets \<Rightarrow> pid_to_packets" where
  "insertPacketInfo pid newPacket m =
     (if pid = -1 then m
      else
        let m1 = (if pktmap m pid = None then m\<lparr>pktmap := (pktmap m)(pid \<mapsto> [])\<rparr> else m)
        in m1\<lparr>pktmap := (pktmap m1)(pid \<mapsto> the (pktmap m1 pid) @ [newPacket])\<rparr>)"

section \<open>What the map holds\<close>

definition held :: "pid_t list \<Rightarrow> pid_to_packets \<Rightarrow> ptr list" where
  "held ord m = concat (map snd (getMap ord m))"

definition packets_at :: "pid_to_packets \<Rightarrow> pid_t \<Rightarrow> ptr list" where
  "packets_at m pid = (case pktmap m pid of None \<Rightarrow> [] | Some ps \<Rightarrow> ps)"

definition stored :: "pid_to_packets \<Rightarrow> ptr set" where
  "stored m = (\<Union>pid. set (packets_at m pid))"

lemma set_held: "valid_iter ord m \<Longrightarrow> set (held ord m) = stored m"
proof -
  assume iter: "valid_iter ord m"
  have "set (held ord m) = (\<Union>pid \<in> dom (pktmap m). set (packets_at m pid))"
    using iter by (auto simp: held_def getMap_def valid_iter_def packets_at_def dom_def)
  also have "\<dots> = stored m"
  proof -
    have "pid \<in> dom (pktmap m)" if "a \<in> set (packets_at m pid)" for a pid
      using that by (cases "pktmap m pid") (simp_all add: packets_at_def domI)
    then show ?thesis by (force simp add: stored_def)
  qed
  finally show ?thesis .
qed

lemma comparePacketInfo_key: "comparePacketInfo a b \<longleftrightarrow> pckt_key a = pckt_key b"
  by (auto simp: comparePacketInfo_def pckt_key_def)

lemma scan_vector_eq:
  "set ps \<subseteq> live h \<Longrightarrow> scan_vector h new ps =
    Some (\<exists>a \<in> set ps. \<exists>p. cells h a = Some p \<and> pckt_key p = pckt_key new)"
  by (induction ps) (auto simp: comparePacketInfo_key split: option.split)

lemma scan_map_eq:
  "set (concat (map snd pss)) \<subseteq> live h \<Longrightarrow> scan_map h new pss =
    Some (\<exists>a \<in> set (concat (map snd pss)). \<exists>p. cells h a = Some p \<and> pckt_key p = pckt_key new)"
proof (induction pss)
  case (Cons x pss)
  obtain pid ps where "x = (pid, ps)" by fastforce
  with Cons scan_vector_eq [of ps h new] show ?case
    by (auto split: bool.split option.split)
qed simp

lemma containsPacket_eq:
  assumes "valid_iter ord m" and "stored m \<subseteq> live h" and "cells h new = Some p"
  shows "containsPacket ord h new m =
    Some (\<exists>a \<in> stored m. \<exists>q. cells h a = Some q \<and> pckt_key q = pckt_key p)"
  using scan_map_eq [of "getMap ord m" h p] assms(2,3) set_held [OF assms(1)]
  by (simp add: containsPacket_def held_def flip: set_concat)

lemma insert_view:
  "packets_at (insertPacketInfo pid a m) pid' =
    (if pid' = pid \<and> pid \<noteq> -1 then packets_at m pid @ [a] else packets_at m pid')"
  by (auto simp: insertPacketInfo_def packets_at_def Let_def split: option.splits)

lemma insert_none: "insertPacketInfo (-1) a m = m"
  by (simp add: insertPacketInfo_def)

lemma stored_init [simp]: "stored ptpi_init = {}"
  by (simp add: stored_def ptpi_init_def packets_at_def)

lemma stored_insert:
  "stored (insertPacketInfo pid a m) = (if pid = -1 then stored m else insert a (stored m))"
  by (auto simp: stored_def insert_view split: if_splits)

lemma finite_insert: "finite (dom (pktmap m)) \<Longrightarrow> finite (dom (pktmap (insertPacketInfo pid a m)))"
  by (simp add: insertPacketInfo_def Let_def)

section \<open>No packet twice\<close>

text \<open>
  The map holds allocated blocks only, no block twice, and no two packets with the same addresses,
  ports and protocol, whatever processes they belong to.
\<close>

definition map_ok :: "packet_heap \<Rightarrow> pid_to_packets \<Rightarrow> bool" where
  "map_ok h m \<longleftrightarrow>
     finite (dom (pktmap m)) \<and> stored m \<subseteq> live h \<and>
     (\<forall>pid. distinct (packets_at m pid)) \<and>
     (\<forall>pid pid'. pid \<noteq> pid' \<longrightarrow> set (packets_at m pid) \<inter> set (packets_at m pid') = {}) \<and>
     (\<forall>a \<in> stored m. \<forall>b \<in> stored m.
        map_option pckt_key (cells h a) = map_option pckt_key (cells h b) \<longrightarrow> a = b)"

lemma map_ok_init: "map_ok h ptpi_init"
  by (simp add: map_ok_def) (simp add: ptpi_init_def packets_at_def)

lemma stored_in: "a \<in> set (packets_at m pid) \<Longrightarrow> a \<in> stored m"
  by (auto simp: stored_def)

lemma map_ok_insert:
  assumes ok: "map_ok h m" and new: "a \<in> live h" "a \<notin> stored m"
    and key: "\<And>b. b \<in> stored m \<Longrightarrow> map_option pckt_key (cells h b) \<noteq> map_option pckt_key (cells h a)"
  shows "map_ok h (insertPacketInfo pid a m)"
proof (cases "pid = -1")
  case True
  with ok show ?thesis by (simp add: insert_none)
next
  case False
  let ?m = "insertPacketInfo pid a m"
  have fresh: "a \<notin> set (packets_at m p)" for p
    using new(2) stored_in by blast
  have "distinct (packets_at ?m p)" for p
    using ok fresh by (simp add: insert_view map_ok_def)
  moreover have "set (packets_at ?m p) \<inter> set (packets_at ?m q) = {}" if "p \<noteq> q" for p q
    using ok fresh that False by (auto simp: insert_view map_ok_def)
  moreover have "b = c" if bc: "b \<in> stored ?m" "c \<in> stored ?m"
      "map_option pckt_key (cells h b) = map_option pckt_key (cells h c)" for b c
  proof -
    have old: "b = c" if "b \<in> stored m" "c \<in> stored m"
      using ok that \<open>map_option pckt_key (cells h b) = _\<close> unfolding map_ok_def by blast
    consider "b = a" "c = a" | "b = a" "c \<in> stored m" | "b \<in> stored m" "c = a"
      | "b \<in> stored m" "c \<in> stored m"
      using bc(1,2) False by (auto simp: stored_insert)
    then show ?thesis
      using old key [of b] key [of c] bc(3) by cases metis+
  qed
  moreover have "finite (dom (pktmap ?m))" "stored ?m \<subseteq> live h"
    using ok new finite_insert False by (simp_all add: map_ok_def stored_insert)
  ultimately show ?thesis by (simp add: map_ok_def)
qed

lemma map_ok_heap:
  assumes "map_ok h m" and "\<And>a. a \<in> stored m \<Longrightarrow> cells h' a = cells h a"
  shows "map_ok h' m"
proof -
  have "stored m \<subseteq> live h'"
    using assms by (auto simp: map_ok_def dom_def)
  with assms show ?thesis by (simp add: map_ok_def)
qed

text \<open>
  The duplicate test is exact: on a map of allocated packets it never reads a freed block, and
  whatever the order in which the container is iterated it answers whether some stored packet has
  the new packet's addresses, ports and protocol. The payload size does not count.
\<close>

theorem containsPacket_correct:
  assumes "valid_iter ord m" and "map_ok h m" and "cells h new = Some p"
  shows "containsPacket ord h new m =
    Some (\<exists>pid. \<exists>a \<in> set (packets_at m pid). \<exists>q. cells h a = Some q \<and>
      src_ip q = src_ip p \<and> dst_ip q = dst_ip p \<and> src_port q = src_port p \<and>
      dst_port q = dst_port p \<and> proto q = proto p)"
  using containsPacket_eq [OF assms(1) _ assms(3)] assms(2)
  by (auto simp: map_ok_def stored_def pckt_key_def)

lemma guarded_insert_ok:
  assumes "valid_iter ord m" and "map_ok h m" and "containsPacket ord h new m = Some False"
  shows "map_ok h (insertPacketInfo pid new m)"
proof -
  obtain p where p: "cells h new = Some p"
    using assms(3) by (auto simp: containsPacket_def split: option.splits)
  have none: "\<not> (\<exists>a \<in> stored m. \<exists>q. cells h a = Some q \<and> pckt_key q = pckt_key p)"
    using containsPacket_eq [OF assms(1) _ p] assms(2,3) by (simp add: map_ok_def)
  have "map_option pckt_key (cells h b) \<noteq> map_option pckt_key (cells h new)" if "b \<in> stored m" for b
    using none that p by auto
  moreover have "new \<notin> stored m"
    using none p by blast
  ultimately show ?thesis
    using map_ok_insert [OF assms(2), of new pid] p by blast
qed

text \<open>
  The hunter's rule "insert what is not contained" keeps the map free of duplicates: after it
  no block is stored twice and no two stored packets agree in addresses, ports and protocol. The
  packet goes to the end of its process's list, everything else stays, and for a packet of
  unknown process (-1) the map does not change.
\<close>

theorem insertPacketInfo_correct:
  assumes "valid_iter ord m" and "map_ok h m" and "containsPacket ord h new m = Some False"
  shows "map_ok h (insertPacketInfo pid new m) \<and>
    (pid = -1 \<longrightarrow> insertPacketInfo pid new m = m) \<and>
    packets_at (insertPacketInfo pid new m) =
      (if pid = -1 then packets_at m else (packets_at m)(pid := packets_at m pid @ [new]))"
  using guarded_insert_ok [OF assms] by (auto simp: insert_none insert_view)

definition example_heap :: packet_heap where
  "example_heap = snd (heap_new (example_pckt\<lparr>payload_size := 9\<rparr>)
     (snd (heap_new (example_pckt\<lparr>dst_port := 80\<rparr>) (snd (heap_new example_pckt heap_init)))))"

lemma example_cells:
  "cells example_heap = [1 \<mapsto> example_pckt, 2 \<mapsto> example_pckt\<lparr>dst_port := 80\<rparr>,
     3 \<mapsto> example_pckt\<lparr>payload_size := 9\<rparr>]"
  by (simp add: example_heap_def heap_new_def heap_init_def numeral_2_eq_2 numeral_3_eq_3)

definition example_map :: pid_to_packets where
  "example_map = insertPacketInfo 2897 1 ptpi_init"

lemma example_map_simps: "packets_at example_map pid = (if pid = 2897 then [1] else [])"
  by (simp add: example_map_def insert_view) (simp add: packets_at_def ptpi_init_def)

lemma example_map_ok: "map_ok example_heap example_map" "valid_iter [2897] example_map"
proof -
  show "map_ok example_heap example_map"
    unfolding example_map_def by (rule map_ok_insert [OF map_ok_init]) (simp_all add: example_cells)
  show "valid_iter [2897] example_map"
    by (simp add: example_map_def valid_iter_def insertPacketInfo_def ptpi_init_def)
qed

theorem containsPacket_correct_witness:
  "containsPacket [2897] example_heap 3 example_map = Some True"
proof -
  have "cells example_heap 3 = Some (example_pckt\<lparr>payload_size := 9\<rparr>)"
    by (simp add: example_cells)
  from containsPacket_correct [OF example_map_ok(2,1) this] show ?thesis
    by (auto simp: example_cells example_map_simps intro!: exI [of _ 2897])
qed

theorem insertPacketInfo_correct_witness:
  "map_ok example_heap (insertPacketInfo 812 2 example_map)"
proof -
  have "containsPacket [2897] example_heap 2 example_map = Some False"
    by (subst containsPacket_eq [OF example_map_ok(2), where p = "example_pckt\<lparr>dst_port := 80\<rparr>"])
      (auto simp: example_cells stored_def example_map_simps example_pckt_def pckt_key_def)
  from insertPacketInfo_correct [OF example_map_ok(2,1) this] show ?thesis by blast
qed

end
