(* ===== verification/PacketLog.thy ===== *)
theory PacketLog
  imports PidToPacketsInfoMap
begin

text \<open>
  The output functions of \<^verbatim>\<open>packet_hunter/src/main.cpp\<close>: \<open>printPacketInfo\<close> and
  \<open>savePacketMapToFile\<close>. Text is the list of bytes that is written (the arrow is three bytes of
  UTF-8). Whether the file can be opened and what the user types are arguments. An exception of
  \<open>fs::canonical\<close> and an error of writing to an open file are left out.
\<close>

section \<open>Formatting\<close>

definition octets :: "u32 \<Rightarrow> nat list" where
  "octets ip = map of_char (word_bytes ip)"

text \<open>\<open>inet_ntoa\<close> prints the four bytes of the address in memory order.\<close>

definition inet_ntoa :: "u32 \<Rightarrow> string" where
  "inet_ntoa ip =
     dec_nat (octets ip ! 0) @ ''.'' @ dec_nat (octets ip ! 1) @ ''.'' @
     dec_nat (octets ip ! 2) @ ''.'' @ dec_nat (octets ip ! 3)"

definition dec_u16 :: "u16 \<Rightarrow> string" where
  "dec_u16 w = dec_nat (unat w)"

definition dec_pid :: "pid_t \<Rightarrow> string" where
  "dec_pid pid = dec_int (sint pid)"

definition arrow :: string where
  "arrow = [CHR 0xE2, CHR 0x86, CHR 0x92]"

definition newline :: string where
  "newline = [CHR 0x0A]"

definition proto_name :: "string \<Rightarrow> char \<Rightarrow> string" where
  "proto_name other c = (if c = CHR ''T'' then ''TCP'' else if c = CHR ''U'' then ''UDP'' else other)"

definition printPacketInfo :: "pckt_info \<Rightarrow> pid_t \<Rightarrow> string" where
  "printPacketInfo p pid =
     (let pr = proto_name ''other'' (proto p) in
      if pid \<noteq> -1 then
        ''PID: '' @ dec_pid pid @ '' | '' @ ''Proto: '' @ pr @ '' | '' @ ''Src: '' @
        inet_ntoa (src_ip p) @ '':'' @ dec_u16 (src_port p) @ '' '' @ arrow @ '' '' @ ''Dst: '' @
        inet_ntoa (dst_ip p) @ '':'' @ dec_u16 (dst_port p) @ newline
      else
        ''PID: unknown  | '' @ ''Proto: '' @ pr @ '' | '' @ ''Src: '' @
        inet_ntoa (src_ip p) @ '':'' @ dec_u16 (src_port p) @ '' '' @ arrow @ '' '' @ ''Dst: '' @
        inet_ntoa (dst_ip p) @ '':'' @ dec_u16 (dst_port p) @ newline)"

definition save_line :: "pid_t \<Rightarrow> pckt_info \<Rightarrow> string" where
  "save_line pid p =
     ''PID: '' @ dec_pid pid @ '' | Proto: '' @ proto_name ''Other'' (proto p) @ '' | Src: '' @
     inet_ntoa (src_ip p) @ '':'' @ dec_u16 (src_port p) @ '' '' @ arrow @ '' Dst: '' @
     inet_ntoa (dst_ip p) @ '':'' @ dec_u16 (dst_port p) @ newline"

section \<open>Writing the file\<close>

text \<open>The canonical path of the executable is a list of components; its parent drops the last one.\<close>

definition default_log_path :: "string list \<Rightarrow> string" where
  "default_log_path exePath =
     concat (map (\<lambda>c. ''/'' @ c) (butlast (butlast (butlast exePath)) @ [''packets.log'']))"

fun write_vector :: "pid_t \<Rightarrow> ptr list \<Rightarrow> string \<times> packet_heap \<Rightarrow> (string \<times> packet_heap) option" where
  "write_vector pid [] (out, h) = Some (out, h)"
| "write_vector pid (a # as) (out, h) =
     (case cells h a of
        None \<Rightarrow> None
      | Some p \<Rightarrow> write_vector pid as (out @ save_line pid p, freePacketInfo a h))"

fun write_map ::
  "(pid_t \<times> ptr list) list \<Rightarrow> string \<times> packet_heap \<Rightarrow> (string \<times> packet_heap) option" where
  "write_map [] oh = Some oh"
| "write_map ((pid, as) # rest) oh =
     (case write_vector pid as oh of
        None \<Rightarrow> None
      | Some oh' \<Rightarrow> write_map rest oh')"

text \<open>The path used, the content written if the file could be opened, and the heap afterwards.\<close>

definition savePacketMapToFile ::
  "string list \<Rightarrow> string \<Rightarrow> bool \<Rightarrow> pid_t list \<Rightarrow> pid_to_packets \<Rightarrow> packet_heap \<Rightarrow>
    (string \<times> string option \<times> packet_heap) option" where
  "savePacketMapToFile exePath input open_ok ord m h =
     (let path = default_log_path exePath;
          path = (if input \<noteq> [] then input else path)
      in
      if \<not> open_ok then Some (path, None, h)
      else
        case write_map (getMap ord m) ([], h) of
          None \<Rightarrow> None
        | Some (out, h') \<Rightarrow> Some (path, Some out, h'))"

section \<open>Lines can be told apart\<close>

lemma digits_sep:
  assumes "list_all is_digit a" and "list_all is_digit b" and "\<not> is_digit c" and "\<not> is_digit d"
  shows "a @ c # r = b @ d # r' \<longleftrightarrow> a = b \<and> c = d \<and> r = r'"
proof
  assume eq: "a @ c # r = b @ d # r'"
  have "takeWhile is_digit (a @ c # r) = a" "takeWhile is_digit (b @ d # r') = b"
    using assms by (simp_all add: takeWhile_append list_all_iff)
  with eq show "a = b \<and> c = d \<and> r = r'" by (metis list.inject same_append_eq)
qed simp

lemma dec_nat_all_digits: "list_all is_digit (dec_nat n)"
  using dec_nat_digits by (simp add: list_all_iff)

lemma dec_nat_sep:
  "\<not> is_digit c \<Longrightarrow> \<not> is_digit d \<Longrightarrow> dec_nat m @ c # r = dec_nat n @ d # r' \<longleftrightarrow> m = n \<and> c = d \<and> r = r'"
  using digits_sep [OF dec_nat_all_digits dec_nat_all_digits] by simp

lemma dec_nat_not_minus: "dec_nat n = CHR ''-'' # s \<Longrightarrow> False"
  using dec_nat_all_digits [of n] by (simp add: is_digit_def)

lemma dec_nat_hd: "\<exists>c s. dec_nat n = c # s \<and> c \<noteq> CHR ''-''"
  using dec_nat_not_minus [of n] dec_nat_nonempty [of n] by (cases "dec_nat n") auto

lemma dec_int_sep:
  assumes "\<not> is_digit c" and "\<not> is_digit d"
  shows "dec_int i @ c # r = dec_int j @ d # r' \<longleftrightarrow> i = j \<and> c = d \<and> r = r'"
proof -
  obtain x s where x: "dec_nat (nat i) = x # s" "x \<noteq> CHR ''-''" using dec_nat_hd by blast
  obtain y t where y: "dec_nat (nat j) = y # t" "y \<noteq> CHR ''-''" using dec_nat_hd by blast
  show ?thesis
    using dec_nat_sep [OF assms, of "nat i" r "nat j" r']
      dec_nat_sep [OF assms, of "nat (- i)" r "nat (- j)" r'] x y
    by (cases "i < 0"; cases "j < 0") (auto simp: dec_int_def)
qed

lemma octets_inj: "octets a = octets b \<longleftrightarrow> a = b"
  by (metis codec_u32.enc_inj inj_map_eq_map inj_of_char octets_def)

lemma octets_nth: "octets a = [octets a ! 0, octets a ! 1, octets a ! 2, octets a ! 3]"
proof -
  have "length (octets a) = 4" by (simp add: octets_def)
  then obtain w x y z where "octets a = [w, x, y, z]"
    by (auto simp: numeral_eq_Suc length_Suc_conv)
  then show ?thesis by simp
qed

lemma inet_ntoa_sep:
  assumes "\<not> is_digit c" and "\<not> is_digit d"
  shows "inet_ntoa a @ c # r = inet_ntoa b @ d # r' \<longleftrightarrow> a = b \<and> c = d \<and> r = r'"
proof -
  have dot: "\<not> is_digit CHR ''.''" by (simp add: is_digit_def)
  have "inet_ntoa a @ c # r = inet_ntoa b @ d # r' \<longleftrightarrow>
      (octets a ! 0 = octets b ! 0 \<and> octets a ! 1 = octets b ! 1 \<and>
       octets a ! 2 = octets b ! 2 \<and> octets a ! 3 = octets b ! 3) \<and> c = d \<and> r = r'"
    by (auto simp: inet_ntoa_def dec_nat_sep [OF dot dot] dec_nat_sep [OF assms])
  also have "\<dots> \<longleftrightarrow> octets a = octets b \<and> c = d \<and> r = r'"
    using octets_nth by metis
  finally show ?thesis by (simp add: octets_inj)
qed

lemma dec_pid_sep:
  "\<not> is_digit c \<Longrightarrow> \<not> is_digit d \<Longrightarrow> dec_pid a @ c # r = dec_pid b @ d # r' \<longleftrightarrow> a = b \<and> c = d \<and> r = r'"
  using signed_word_eqI [of a b] by (auto simp: dec_pid_def dec_int_sep)

lemma dec_u16_sep:
  "\<not> is_digit c \<Longrightarrow> \<not> is_digit d \<Longrightarrow> dec_u16 a @ c # r = dec_u16 b @ d # r' \<longleftrightarrow> a = b \<and> c = d \<and> r = r'"
  using unsigned_word_eqI [of a b] by (auto simp: dec_u16_def dec_nat_sep)

lemma dec_u16_inject: "dec_u16 a = dec_u16 b \<longleftrightarrow> a = b"
  using unsigned_word_eqI [of a b] by (auto simp: dec_u16_def)

lemma separators:
  "\<not> is_digit CHR '' ''" "\<not> is_digit CHR '':''" "\<not> is_digit CHR 0x0A"
  by (simp_all add: is_digit_def)

lemma proto_name_sep:
  "pr \<in> {CHR ''T'', CHR ''U''} \<Longrightarrow> pr' \<in> {CHR ''T'', CHR ''U''} \<Longrightarrow>
    proto_name other pr @ r = proto_name other pr' @ r' \<longleftrightarrow> pr = pr' \<and> r = r'"
  by (auto simp: proto_name_def)

text \<open>
  The log keeps the information: two saved lines of TCP or UDP packets are equal only if the
  processes, the addresses, the ports and the protocols are, and what is printed on the screen for
  a packet of known process is its line in the file.
\<close>

theorem log_lines:
  assumes "proto p \<in> {PROTO_TCP, PROTO_UDP}" and "proto p' \<in> {PROTO_TCP, PROTO_UDP}"
  shows "(save_line pid p = save_line pid' p' \<longleftrightarrow> pid = pid' \<and> pckt_key p = pckt_key p') \<and>
    (pid \<noteq> -1 \<longrightarrow> printPacketInfo p pid = save_line pid p)"
proof
  have pr: "proto p \<in> {CHR ''T'', CHR ''U''}" "proto p' \<in> {CHR ''T'', CHR ''U''}"
    using assms by (simp_all add: PROTO_TCP_def PROTO_UDP_def)
  show "save_line pid p = save_line pid' p' \<longleftrightarrow> pid = pid' \<and> pckt_key p = pckt_key p'"
    by (auto simp: save_line_def newline_def dec_pid_sep dec_u16_sep inet_ntoa_sep separators
        proto_name_sep [OF pr] dec_u16_inject pckt_key_def)
  show "pid \<noteq> -1 \<longrightarrow> printPacketInfo p pid = save_line pid p"
    using pr by (auto simp: printPacketInfo_def save_line_def proto_name_def)
qed

section \<open>Saving frees everything\<close>

lemma write_vector_eq:
  "owned_ok h (as @ bs) \<Longrightarrow> write_vector pid as (out, h) =
     Some (out @ concat (map (\<lambda>a. save_line pid (the (cells h a))) as), heap_delete_all as h)"
proof (induction as arbitrary: out h)
  case (Cons a as)
  obtain p where p: "cells h a = Some p"
    using owned_live [OF Cons.prems] by fastforce
  have "owned_ok (heap_delete a h) (as @ bs)"
    using owned_free [of h a "as @ bs"] Cons.prems by simp
  moreover have "cells (heap_delete a h) b = cells h b" if "b \<in> set as" for b
    using Cons.prems that by (intro cells_delete_other) (auto simp: owned_ok_def)
  ultimately show ?case
    using Cons.IH [of "heap_delete a h"] p by (simp add: freePacketInfo_def cong: map_cong)
qed simp

lemma write_map_eq:
  "owned_ok h (concat (map snd pss)) \<Longrightarrow> write_map pss (out, h) =
     Some (out @ concat (map (\<lambda>(pid, as). concat (map (\<lambda>a. save_line pid (the (cells h a))) as)) pss),
       heap_delete_all (concat (map snd pss)) h)"
proof (induction pss arbitrary: out h)
  case (Cons x pss)
  obtain pid as where x: "x = (pid, as)" by fastforce
  let ?h = "heap_delete_all as h"
  have ok: "owned_ok h (as @ concat (map snd pss))"
    using Cons.prems x by simp
  have "cells ?h a = cells h a" if "(q, bs) \<in> set pss" "a \<in> set bs" for a q bs
    using ok that by (intro cells_delete_all) (force simp: owned_ok_def)
  then have "concat (map (\<lambda>(pid, as). concat (map (\<lambda>a. save_line pid (the (cells ?h a))) as)) pss) =
      concat (map (\<lambda>(pid, as). concat (map (\<lambda>a. save_line pid (the (cells h a))) as)) pss)"
    by (intro arg_cong [where f = concat] map_cong refl) (auto intro!: arg_cong [where f = concat])
  then show ?case
    using Cons.IH [OF owned_free_all [OF ok]] write_vector_eq [OF ok] x
    by (simp add: heap_delete_all_append)
qed simp

lemma held_distinct:
  assumes "map_ok h m" and "valid_iter ord m"
  shows "distinct (held ord m)"
proof -
  have dist: "distinct ord" and dom: "set ord \<subseteq> dom (pktmap m)"
    using assms(2) by (auto simp: valid_iter_def)
  have the: "the (pktmap m pid) = packets_at m pid" if "pid \<in> dom (pktmap m)" for pid
    using that by (auto simp: packets_at_def)
  have "distinct (concat (map (packets_at m) ord))"
    using dist
  proof (induction ord)
    case (Cons pid ord)
    have "set (packets_at m pid) \<inter> set (packets_at m q) = {}" if "q \<in> set ord" for q
      using assms(1) Cons.prems that unfolding map_ok_def by (metis distinct.simps(2))
    then have "set (packets_at m pid) \<inter> set (concat (map (packets_at m) ord)) = {}"
      by auto
    then show ?case
      using Cons assms(1) by (simp add: map_ok_def)
  qed simp
  moreover have "held ord m = concat (map (packets_at m) ord)"
    using the subsetD [OF dom] by (simp add: held_def getMap_def o_def cong: map_cong)
  ultimately show ?thesis by simp
qed

lemma map_owned:
  assumes "map_ok h m" and "valid_iter ord m" and "heap_wf h" and "bad_frees h = 0"
  shows "owned_ok h (held ord m)"
  using assms held_distinct [OF assms(1,2)] set_held [OF assms(2)] by (simp add: owned_ok_def map_ok_def)

text \<open>
  C30: Saving writes one line per stored packet, process by process in the container's order, and
  frees exactly the stored packets, each once and after its line is written. If the file cannot be
  opened, nothing is written and nothing is freed.
\<close>

theorem savePacketMapToFile_correct:
  assumes "map_ok h m" and "valid_iter ord m" and "heap_wf h" and "bad_frees h = 0"
  shows "(\<exists>h'. savePacketMapToFile exe input True ord m h =
      Some (if input \<noteq> [] then input else default_log_path exe, Some (concat (map (\<lambda>pid.
        concat (map (\<lambda>a. save_line pid (the (cells h a))) (packets_at m pid))) ord)), h') \<and>
      live h' = live h - stored m \<and> bad_frees h' = 0) \<and>
    (\<exists>path. savePacketMapToFile exe input False ord m h = Some (path, None, h))"
proof -
  let ?h = "heap_delete_all (held ord m) h"
  have own: "owned_ok h (held ord m)"
    using map_owned [OF assms(1-4)] .
  have "map (\<lambda>(pid, as). concat (map (\<lambda>a. save_line pid (the (cells h a))) as)) (getMap ord m) =
      map (\<lambda>pid. concat (map (\<lambda>a. save_line pid (the (cells h a))) (packets_at m pid))) ord"
    using assms(2) by (auto simp: getMap_def valid_iter_def packets_at_def dom_def)
  moreover have "write_map (getMap ord m) ([], h) = Some (concat (map (\<lambda>(pid, as).
      concat (map (\<lambda>a. save_line pid (the (cells h a))) as)) (getMap ord m)), ?h)"
    using write_map_eq [of h "getMap ord m" "[]"] own by (simp add: held_def)
  moreover have "live ?h = live h - stored m" "bad_frees ?h = 0"
    using own set_held [OF assms(2)] live_delete_all bad_frees_delete_all
    by (auto simp: owned_ok_def)
  ultimately show ?thesis
    by (simp add: savePacketMapToFile_def)
qed

lemma example_owned: "heap_wf example_heap" "bad_frees example_heap = 0"
  by (simp_all add: example_heap_def heap_simps) (simp add: heap_init_def)

theorem log_lines_witness:
  "save_line 2897 example_pckt \<noteq> save_line 2898 example_pckt \<and>
   printPacketInfo example_pckt 2897 = save_line 2897 example_pckt"
  using log_lines [of example_pckt example_pckt 2897 2898]
    log_lines [of example_pckt example_pckt 2897 2897]
  by (simp add: example_pckt_def PROTO_UDP_def)

theorem savePacketMapToFile_correct_witness:
  "\<exists>h'. savePacketMapToFile [''root'', ''hut_karish'', ''build'', ''packet_hunter'', ''packet_hunter''] []
      True [2897] example_map example_heap =
    Some (''/root/hut_karish/packets.log'', Some (save_line 2897 example_pckt), h') \<and>
    live h' = {2, 3}"
proof -
  have "stored example_map = {1}"
    by (auto simp: stored_def example_map_simps split: if_splits)
  then show ?thesis
    using savePacketMapToFile_correct [OF example_map_ok example_owned, where input = "[]"
        and exe = "[''root'', ''hut_karish'', ''build'', ''packet_hunter'', ''packet_hunter'']"]
    by (auto simp: default_log_path_def example_map_simps example_cells)
qed

end
