(* ===== verification/UnixSocketClient.thy ===== *)
theory UnixSocketClient
  imports UnixSocketServer
begin

text \<open>
  \<^verbatim>\<open>packet_hunter/src/UnixSocketClient.cpp\<close>: the packet hunter's end of the Unix domain socket. The
  results of \<open>socket\<close>, \<open>connect\<close>, \<open>send\<close> and \<open>recv\<close> are arguments.
\<close>

record unix_client =
  sockFd :: fd
  isConnected :: bool

definition disconnect :: "unix_client \<times> os \<Rightarrow> unix_client \<times> os" where
  "disconnect = (\<lambda>(c, s).
     if isConnected c then (c\<lparr>sockFd := -1, isConnected := False\<rparr>, os_close (sockFd c) s)
     else (c, s))"

definition connectToServer :: "int \<Rightarrow> int \<Rightarrow> unix_client \<times> os \<Rightarrow> bool \<times> unix_client \<times> os" where
  "connectToServer socket_res connect_res = (\<lambda>(c, s).
     let c = c\<lparr>sockFd := socket_res\<rparr>; s = os_open socket_res s in
     if sockFd c < 0 then (False, c, s)
     else if connect_res < 0 then (False, disconnect (c, s))
     else (True, c\<lparr>isConnected := True\<rparr>, s))"

definition UnixSocketClient_ctor :: "int \<Rightarrow> int \<Rightarrow> os \<Rightarrow> unix_client \<times> os" where
  "UnixSocketClient_ctor socket_res connect_res s =
     snd (connectToServer socket_res connect_res (\<lparr>sockFd = -1, isConnected = False\<rparr>, s))"

definition UnixSocketClient_dtor :: "unix_client \<times> os \<Rightarrow> unix_client \<times> os" where
  "UnixSocketClient_dtor cs = disconnect cs"

definition getSocketFd :: "unix_client \<Rightarrow> fd" where
  "getSocketFd c = sockFd c"

text \<open>The bytes that reach the stream, and the result if the process survives the signal.\<close>

definition sendPort :: "unix_client \<Rightarrow> u16 \<Rightarrow> write_outcome \<Rightarrow> mem \<times> (signal_death + bool)" where
  "sendPort c port w =
     (if \<not> isConnected c then ([], Inr False)
      else
        case w of
          Wrote n \<Rightarrow> (take n (word_bytes port), Inr (n = 2))
        | WriteError \<Rightarrow> ([], Inr False)
        | PeerGone \<Rightarrow> ([], Inl SigPipe))"

text \<open>\<open>recv\<close> stores what it got over the front of the caller's variable.\<close>

definition receivePid :: "unix_client \<Rightarrow> pid_t \<Rightarrow> read_outcome \<Rightarrow> bool \<times> pid_t" where
  "receivePid c pid r =
     (if \<not> isConnected c then (False, pid)
      else
        case r of
          ReadError \<Rightarrow> (False, pid)
        | GotBytes bs \<Rightarrow>
            let d = take 4 bs in (length d = 4, bytes_word (store 0 d (word_bytes pid))))"

text \<open>Sending no bytes, with \<open>MSG_NOSIGNAL\<close>: a lost peer is an error and no signal.\<close>

definition isServerAlive :: "unix_client \<Rightarrow> write_outcome \<Rightarrow> bool" where
  "isServerAlive c w =
     (if \<not> isConnected c then False
      else case w of Wrote n \<Rightarrow> True | WriteError \<Rightarrow> False | PeerGone \<Rightarrow> False)"

lemma receivePid_full:
  "isConnected c \<Longrightarrow> 4 \<le> length bs \<Longrightarrow>
    receivePid c pid (GotBytes bs) = (True, bytes_word (take 4 bs))"
  by (simp add: receivePid_def store_def)

lemma sendPort_ok:
  "snd (sendPort c port w) = Inr True \<Longrightarrow> isConnected c \<and> fst (sendPort c port w) = word_bytes port"
  by (auto simp: sendPort_def split: write_outcome.splits if_splits)

section \<open>The descriptor\<close>

text \<open>
  The descriptor in \<open>sockFd\<close> belongs to the client whether it is connected or not; only a
  connected one is ever closed.
\<close>

definition cli_owned :: "unix_client \<Rightarrow> fd set" where
  "cli_owned c = (if sockFd c < 0 then {} else {sockFd c})"

definition cli_wf :: "unix_client \<Rightarrow> bool" where
  "cli_wf c \<longleftrightarrow> (isConnected c \<longrightarrow> 0 \<le> sockFd c)"

inductive client_step :: "unix_client \<times> os \<Rightarrow> unix_client \<times> os \<Rightarrow> bool" where
  step_connect:
    "sockFd c = -1 \<Longrightarrow> fd_result r s \<Longrightarrow> connectToServer r q (c, s) = (b, c', s') \<Longrightarrow>
      client_step (c, s) (c', s')"
| step_disconnect: "disconnect (c, s) = (c', s') \<Longrightarrow> client_step (c, s) (c', s')"

lemma ok_disconnect:
  assumes "cli_wf c" and "cli_owned c \<subseteq> set (open_fds s)" and "disconnect (c, s) = (c', s')"
  shows "cli_wf c' \<and> fd_frame (cli_owned c) s (cli_owned c') s'"
  using assms
  by (auto simp: disconnect_def cli_wf_def cli_owned_def fd_frame_def os_simps split: if_splits)

lemma ok_connect_client:
  assumes "cli_wf c" and "cli_owned c \<subseteq> set (open_fds s)" and "sockFd c = -1" and "fd_result r s"
    and "connectToServer r q (c, s) = (b, c', s')"
  shows "cli_wf c' \<and> fd_frame (cli_owned c) s (cli_owned c') s' \<and> (b \<longleftrightarrow> isConnected c') \<and>
    (r \<noteq> -1 \<longrightarrow> sockFd c' = r)"
proof -
  have "\<not> isConnected c" "cli_owned c = {}"
    using assms(1,3) by (auto simp: cli_wf_def cli_owned_def)
  with assms(3-5) show ?thesis
    by (cases "r = -1")
      (auto simp: connectToServer_def disconnect_def cli_wf_def cli_owned_def fd_frame_def
        fd_result_def fresh_fd_def os_simps Let_def split: if_splits)
qed

lemma client_step_ok:
  assumes "client_step (c, s) (c', s')" and "cli_wf c" and "cli_owned c \<subseteq> set (open_fds s)"
  shows "cli_wf c' \<and> fd_frame (cli_owned c) s (cli_owned c') s'"
  using assms(1)
proof (cases rule: client_step.cases)
  case (step_connect r q b)
  then show ?thesis using ok_connect_client [OF assms(2,3)] by blast
next
  case step_disconnect
  then show ?thesis using ok_disconnect [OF assms(2,3)] by blast
qed

interpretation client: fd_component cli_owned cli_wf client_step
  by unfold_locales (rule client_step_ok)

text \<open>
  What the hunter's socket costs: construction and destruction close everything that was
  opened if the daemon accepts the connection. If \<open>socket\<close> succeeds and \<open>connect\<close> fails, exactly
  that one descriptor stays open, because \<open>disconnect\<close> closes connected sockets only.
\<close>

theorem unix_client_releases:
  assumes "fd_result r s" and "UnixSocketClient_ctor r q s = (c, s1)"
    and "UnixSocketClient_dtor (c, s1) = (c', s2)"
  shows "set (open_fds s2) = (if 0 \<le> r \<and> q < 0 then insert r (set (open_fds s)) else set (open_fds s)) \<and>
    bad_closes s2 = bad_closes s \<and> (isConnected c \<longleftrightarrow> 0 \<le> r \<and> 0 \<le> q)"
proof -
  let ?c0 = "\<lparr>sockFd = -1, isConnected = False\<rparr>"
  obtain b where con: "connectToServer r q (?c0, s) = (b, c, s1)"
    using assms(2) by (metis UnixSocketClient_ctor_def prod.collapse)
  have "client_step (?c0, s) (c, s1)"
    using step_connect [OF _ assms(1) con] by simp
  moreover have "client_step (c, s1) (c', s2)"
    using step_disconnect assms(3) by (simp add: UnixSocketClient_dtor_def)
  ultimately have run: "client_step\<^sup>*\<^sup>* (?c0, s) (c', s2)"
    by simp
  have c0: "cli_owned ?c0 = {}" "cli_wf ?c0"
    by (simp_all add: cli_owned_def cli_wf_def)
  have "isConnected c \<longleftrightarrow> 0 \<le> r \<and> 0 \<le> q" "cli_owned c' = (if 0 \<le> r \<and> q < 0 then {r} else {})"
    using con assms(3) by (auto simp: connectToServer_def disconnect_def UnixSocketClient_dtor_def
        cli_owned_def Let_def split: if_splits)
  then show ?thesis
    using client.run_released [OF run] c0 by auto
qed

theorem unix_client_releases_witness:
  "\<exists>c s1 c' s2. UnixSocketClient_ctor 6 (-1) \<lparr>open_fds = [3], bad_closes = 0, sock_file = False\<rparr> = (c, s1) \<and>
     UnixSocketClient_dtor (c, s1) = (c', s2) \<and> set (open_fds s2) = {3, 6}"
proof -
  let ?s = "\<lparr>open_fds = [3], bad_closes = 0, sock_file = False\<rparr>"
  obtain c s1 where 1: "UnixSocketClient_ctor 6 (-1) ?s = (c, s1)" by fastforce
  obtain c' s2 where 2: "UnixSocketClient_dtor (c, s1) = (c', s2)" by fastforce
  have "set (open_fds s2) = {3, 6}"
    using unix_client_releases [OF _ 1 2] by (auto simp: fd_result_def fresh_fd_def)
  with 1 2 show ?thesis by blast
qed

end
