(* ===== verification/PacketHunter.thy ===== *)
theory PacketHunter
  imports PacketLog UnixSocketClient
begin

text \<open>
  \<^verbatim>\<open>packet_hunter/src/main.cpp\<close>: the packet hunter as a main thread, the receiving thread and a
  signal handler over shared state, with the same conventions as the daemon: one atomic action per
  step, results of calls as inputs, a blocked call leaves the state as it is. \<open>HTerminate\<close> is
  \<open>std::terminate\<close> (the listener thread was not joined), \<open>HKilled\<close> the default action of SIGPIPE,
  \<open>HFault\<close> a read of a freed packet. \<open>hscreen\<close> holds the lines of packets that \<open>printPacketInfo\<close> writes;
  the notices and prompts of the other functions go to the same terminal and are left out.
\<close>

section \<open>State\<close>

datatype hunter_pc =
    HSubscribe | HSpawn | HTop | HPop | HAlive
  | HCheck ptr | HSendPort ptr | HReceive ptr | HPrint ptr pid_t | HInsert ptr pid_t
  | HUnsubscribe | HJoin | HClean | HAsk | HSave | HFreeAll
  | HExit int | HTerminate | HKilled | HFault

record hunter =
  hsh :: shared
  hmap :: pid_to_packets
  hclient :: unix_client
  hnl :: netlink_client
  hrx :: rx_pc
  hmain :: hunter_pc
  hcommands :: "mem list"
  hscreen :: string
  hfile :: "(string \<times> string) option"

record hunter_io =
  hio_malloc :: bool
  hio_pid :: u32
  hio_sendmsg :: int
  hio_ord :: "pid_t list"
  hio_alive :: write_outcome
  hio_write :: write_outcome
  hio_read :: read_outcome
  hio_uninit :: pid_t
  hio_choice :: char
  hio_exe :: "string list"
  hio_input :: string
  hio_open :: bool

definition hunter_init :: "netlink_client \<Rightarrow> unix_client \<Rightarrow> hunter" where
  "hunter_init nl c =
     \<lparr>hsh = \<lparr>running = True, heap = heap_init, mqueue = mq_init\<rparr>, hmap = ptpi_init, hclient = c,
      hnl = nl, hrx = RxIdle, hmain = HSubscribe, hcommands = [], hscreen = [], hfile = None\<rparr>"

section \<open>The main thread\<close>

definition hunter_command :: "hunter_io \<Rightarrow> string \<Rightarrow> hunter \<Rightarrow> bool \<times> hunter" where
  "hunter_command io msg s =
     (case sendMessage (hnl s) (hio_malloc io) (hio_pid io) (hio_sendmsg io) msg of
        (True, Some d) \<Rightarrow> (True, s\<lparr>hcommands := hcommands s @ [d]\<rparr>)
      | _ \<Rightarrow> (False, s))"

text \<open>The loop that frees the map when the user does not save it.\<close>

fun free_map :: "(pid_t \<times> ptr list) list \<Rightarrow> packet_heap \<Rightarrow> packet_heap" where
  "free_map [] h = h"
| "free_map ((pid, as) # rest) h = free_map rest (fold freePacketInfo as h)"

definition hunter_main :: "hunter_io \<Rightarrow> hunter \<Rightarrow> hunter" where
  "hunter_main io s =
     (case hmain s of
        HSubscribe \<Rightarrow>
          (let (ok, s) = hunter_command io ''packet_hunter_subscribe'' s
           in s\<lparr>hmain := if ok then HSpawn else HExit (-1)\<rparr>)
      | HSpawn \<Rightarrow> s\<lparr>hrx := RxTop, hmain := HTop\<rparr>
      | HTop \<Rightarrow> s\<lparr>hmain := if running (hsh s) then HPop else HUnsubscribe\<rparr>
      | HPop \<Rightarrow>
          (let (pckt, q) = mq_pop (mqueue (hsh s))
           in s\<lparr>hsh := (hsh s)\<lparr>mqueue := q\<rparr>, hmain := if pckt = nullptr then HAlive else HCheck pckt\<rparr>)
      | HAlive \<Rightarrow>
          (if \<not> isServerAlive (hclient s) (hio_alive io)
           then s\<lparr>hsh := (hsh s)\<lparr>running := False\<rparr>, hmain := HTop\<rparr>
           else s\<lparr>hmain := HTop\<rparr>)
      | HCheck pckt \<Rightarrow>
          (case containsPacket (hio_ord io) (heap (hsh s)) pckt (hmap s) of
             None \<Rightarrow> s\<lparr>hmain := HFault\<rparr>
           | Some True \<Rightarrow> s\<lparr>hmain := HTop\<rparr>
           | Some False \<Rightarrow> s\<lparr>hmain := HSendPort pckt\<rparr>)
      | HSendPort pckt \<Rightarrow>
          (case cells (heap (hsh s)) pckt of
             None \<Rightarrow> s\<lparr>hmain := HFault\<rparr>
           | Some p \<Rightarrow>
               (case snd (sendPort (hclient s) (dst_port p) (hio_write io)) of
                  Inl SigPipe \<Rightarrow> s\<lparr>hmain := HKilled\<rparr>
                | Inr True \<Rightarrow> s\<lparr>hmain := HReceive pckt\<rparr>
                | Inr False \<Rightarrow> s\<lparr>hmain := HUnsubscribe\<rparr>))
      | HReceive pckt \<Rightarrow>
          (let (ok, pid) = receivePid (hclient s) (hio_uninit io) (hio_read io)
           in s\<lparr>hmain := if ok then HPrint pckt pid else HUnsubscribe\<rparr>)
      | HPrint pckt pid \<Rightarrow>
          (case cells (heap (hsh s)) pckt of
             None \<Rightarrow> s\<lparr>hmain := HFault\<rparr>
           | Some p \<Rightarrow> s\<lparr>hscreen := hscreen s @ printPacketInfo p pid, hmain := HInsert pckt pid\<rparr>)
      | HInsert pckt pid \<Rightarrow> s\<lparr>hmap := insertPacketInfo pid pckt (hmap s), hmain := HTop\<rparr>
      | HUnsubscribe \<Rightarrow>
          (let (ok, s) = hunter_command io ''packet_hunter_unsubscribe'' s
           in s\<lparr>hmain := if ok then HJoin else HTerminate\<rparr>)
      | HJoin \<Rightarrow> if hrx s = RxEnd then s\<lparr>hmain := HClean\<rparr> else s
      | HClean \<Rightarrow>
          (let (q, h) = cleanMessageQueue (mqueue (hsh s)) (heap (hsh s))
           in s\<lparr>hsh := (hsh s)\<lparr>heap := h, mqueue := q\<rparr>, hmain := HAsk\<rparr>)
      | HAsk \<Rightarrow>
          s\<lparr>hmain := if hio_choice io = CHR ''y'' \<or> hio_choice io = CHR ''Y'' then HSave else HFreeAll\<rparr>
      | HSave \<Rightarrow>
          (case savePacketMapToFile (hio_exe io) (hio_input io) (hio_open io) (hio_ord io) (hmap s)
                  (heap (hsh s)) of
             None \<Rightarrow> s\<lparr>hmain := HFault\<rparr>
           | Some (path, out, h) \<Rightarrow>
               s\<lparr>hsh := (hsh s)\<lparr>heap := h\<rparr>, hfile := map_option (\<lambda>t. (path, t)) out, hmain := HExit 0\<rparr>)
      | HFreeAll \<Rightarrow>
          s\<lparr>hsh := (hsh s)\<lparr>heap := free_map (getMap (hio_ord io) (hmap s)) (heap (hsh s))\<rparr>,
            hmain := HExit 0\<rparr>
      | _ \<Rightarrow> s)"

section \<open>Interleaving\<close>

definition hunter_rx :: "mem \<Rightarrow> read_outcome \<Rightarrow> hunter \<Rightarrow> hunter" where
  "hunter_rx g r s =
     (let (pc, sh) = recvPacketInfoThread (hnl s) g r (hrx s, hsh s) in s\<lparr>hrx := pc, hsh := sh\<rparr>)"

definition hunter_signal :: "hunter \<Rightarrow> hunter" where
  "hunter_signal s = s\<lparr>hsh := handleSignal (hsh s)\<rparr>"

fun hunter_ended :: "hunter_pc \<Rightarrow> bool" where
  "hunter_ended (HExit _) = True"
| "hunter_ended HTerminate = True"
| "hunter_ended HKilled = True"
| "hunter_ended HFault = True"
| "hunter_ended _ = False"

inductive hunter_step :: "hunter \<Rightarrow> hunter \<Rightarrow> bool" where
  hsignal: "\<not> hunter_ended (hmain s) \<Longrightarrow> hunter_step s (hunter_signal s)"
| hmain_act:
    "\<not> hunter_ended (hmain s) \<Longrightarrow> valid_iter (hio_ord io) (hmap s) \<Longrightarrow>
      hunter_step s (hunter_main io s)"
| hreceive: "\<not> hunter_ended (hmain s) \<Longrightarrow> hunter_step s (hunter_rx g r s)"

definition hunter_started :: "hunter \<Rightarrow> bool" where
  "hunter_started s \<longleftrightarrow> (\<exists>nl c. s = hunter_init nl c)"

section \<open>Who holds which packet\<close>

definition pc_held :: "hunter_pc \<Rightarrow> ptr list" where
  "pc_held pc = (case pc of HCheck a \<Rightarrow> [a] | HSendPort a \<Rightarrow> [a] | HReceive a \<Rightarrow> [a]
     | HPrint a pid \<Rightarrow> [a] | HInsert a pid \<Rightarrow> [a] | _ \<Rightarrow> [])"

text \<open>The packet that was found not to be in the map.\<close>

definition checked :: "hunter_pc \<Rightarrow> ptr list" where
  "checked pc = (case pc of HCheck a \<Rightarrow> [] | _ \<Rightarrow> pc_held pc)"

definition hunter_holders :: "hunter \<Rightarrow> ptr list" where
  "hunter_holders s = rx_held (hrx s) @ queue (mqueue (hsh s)) @ pc_held (hmain s)"

definition new_key :: "packet_heap \<Rightarrow> pid_to_packets \<Rightarrow> ptr \<Rightarrow> bool" where
  "new_key h m a \<longleftrightarrow>
     (\<forall>b \<in> stored m. map_option pckt_key (cells h b) \<noteq> map_option pckt_key (cells h a))"

definition hunter_mem :: "hunter \<Rightarrow> bool" where
  "hunter_mem s \<longleftrightarrow>
     owned_ok (heap (hsh s)) (hunter_holders s) \<and> map_ok (heap (hsh s)) (hmap s) \<and>
     stored (hmap s) \<inter> set (hunter_holders s) = {} \<and>
     (\<forall>a \<in> set (checked (hmain s)). new_key (heap (hsh s)) (hmap s) a)"

text \<open>After the end of the program the map's pointers are stale; what remains is the count of frees.\<close>

definition hunter_ok :: "hunter \<Rightarrow> bool" where
  "hunter_ok s \<longleftrightarrow> hrx s \<noteq> RxFault \<and> hmain s \<noteq> HFault \<and> bad_frees (heap (hsh s)) = 0 \<and>
     (\<not> hunter_ended (hmain s) \<longrightarrow> hunter_mem s)"

definition hunter_phases :: "hunter \<Rightarrow> bool" where
  "hunter_phases s \<longleftrightarrow>
     (hmain s \<in> {HSubscribe, HSpawn} \<longrightarrow> hrx s = RxIdle) \<and>
     (hmain s \<in> {HClean, HAsk, HSave, HFreeAll, HExit 0} \<longrightarrow> hrx s = RxEnd) \<and>
     (hmain s \<in> {HAsk, HSave, HFreeAll, HExit 0} \<longrightarrow> queue (mqueue (hsh s)) = [])"

lemma pc_held_simps [simp]:
  "pc_held HSubscribe = []" "pc_held HSpawn = []" "pc_held HTop = []" "pc_held HPop = []"
  "pc_held HAlive = []" "pc_held (HCheck a) = [a]" "pc_held (HSendPort a) = [a]"
  "pc_held (HReceive a) = [a]" "pc_held (HPrint a pid) = [a]" "pc_held (HInsert a pid) = [a]"
  "pc_held HUnsubscribe = []" "pc_held HJoin = []" "pc_held HClean = []" "pc_held HAsk = []"
  "pc_held HSave = []" "pc_held HFreeAll = []" "pc_held (HExit i) = []" "pc_held HTerminate = []"
  "pc_held HKilled = []" "pc_held HFault = []"
  by (simp_all add: pc_held_def)

lemma checked_simps [simp]:
  "checked HSubscribe = []" "checked HSpawn = []" "checked HTop = []" "checked HPop = []"
  "checked HAlive = []" "checked (HCheck a) = []" "checked (HSendPort a) = [a]"
  "checked (HReceive a) = [a]" "checked (HPrint a pid) = [a]" "checked (HInsert a pid) = [a]"
  "checked HUnsubscribe = []" "checked HJoin = []" "checked HClean = []" "checked HAsk = []"
  "checked HSave = []" "checked HFreeAll = []" "checked (HExit i) = []" "checked HTerminate = []"
  "checked HKilled = []" "checked HFault = []"
  by (simp_all add: checked_def)

lemma checked_held: "set (checked pc) \<subseteq> set (pc_held pc)"
  by (cases pc) simp_all

lemma hunter_command_frame [simp]:
  "hsh (snd (hunter_command io msg s)) = hsh s" "hrx (snd (hunter_command io msg s)) = hrx s"
  "hmap (snd (hunter_command io msg s)) = hmap s"
  "hclient (snd (hunter_command io msg s)) = hclient s"
  by (simp_all add: hunter_command_def split: prod.split bool.split option.split)

section \<open>The receiver does not disturb the map\<close>

lemma rx_fresh:
  assumes "heap_wf (heap s)" and "recvPacketInfoThread c g r (pc, s) = (pc', s')"
    and "b \<in> live (heap s)"
  shows "cells (heap s') b = cells (heap s) b \<and>
    (b \<in> set (rx_held pc' @ queue (mqueue s')) \<longrightarrow> b \<in> set (rx_held pc @ queue (mqueue s)))"
proof (cases pc)
  case RxRecv
  obtain a h where a: "receivePacketInfo c g r (heap s) = (a, h)" by fastforce
  have new: "a \<noteq> b \<and> cells h b = cells (heap s) b" if "heap_new p (heap s) = (a, h)" for p
    using heap_new_fresh [OF assms(1), of p] that assms(3) by (auto simp: heap_new_def)
  have "a = nullptr \<and> h = heap s \<or> a \<noteq> b \<and> cells h b = cells (heap s) b"
    using receive_null_or_new [of c g r "heap s", unfolded a] new by (metis prod.inject)
  moreover have "b \<noteq> nullptr"
    using assms(1,3) by (auto simp: heap_wf_def)
  ultimately show ?thesis
    using assms(2) a RxRecv by (cases "a = nullptr") auto
next
  case (RxHave a)
  then show ?thesis
    using assms(2) by (auto simp: mq_push_def split: option.splits if_splits)
qed (use assms(2) in \<open>auto split: if_splits\<close>)

lemma new_key_cong:
  "new_key h m a \<Longrightarrow> cells h' a = cells h a \<Longrightarrow> (\<And>b. b \<in> stored m \<Longrightarrow> cells h' b = cells h b) \<Longrightarrow>
    new_key h' m a"
  by (simp add: new_key_def)

lemma hunter_mem_owned:
  "hunter_mem s \<Longrightarrow> owned_ok (heap (hsh s)) (hunter_holders s) \<and> heap_wf (heap (hsh s)) \<and>
    bad_frees (heap (hsh s)) = 0 \<and> set (hunter_holders s) \<subseteq> live (heap (hsh s)) \<and>
    map_ok (heap (hsh s)) (hmap s) \<and> stored (hmap s) \<subseteq> live (heap (hsh s)) \<and>
    stored (hmap s) \<inter> set (hunter_holders s) = {}"
  by (simp add: hunter_mem_def owned_ok_def map_ok_def)

lemma hunter_ok_rx:
  assumes ok: "hunter_ok s" and run: "\<not> hunter_ended (hmain s)"
  shows "hunter_ok (hunter_rx g r s)"
proof -
  obtain pc sh where st: "recvPacketInfoThread (hnl s) g r (hrx s, hsh s) = (pc, sh)" by fastforce
  let ?t = "hunter_rx g r s"
  have t: "hsh ?t = sh" "hrx ?t = pc" "hmain ?t = hmain s" "hmap ?t = hmap s"
    using st by (simp_all add: hunter_rx_def)
  have mem: "hunter_mem s" using ok run by (simp add: hunter_ok_def)
  note own = hunter_mem_owned [OF mem]
  have "owned_ok (heap sh) (hunter_holders ?t) \<and> pc \<noteq> RxFault"
    using rx_owned [OF _ _ st, of "pc_held (hmain s)"] own ok t
    by (simp add: hunter_holders_def hunter_ok_def)
  moreover have same: "cells (heap sh) b = cells (heap (hsh s)) b" if "b \<in> live (heap (hsh s))" for b
    using rx_fresh [OF _ st that] own by blast
  have "map_ok (heap sh) (hmap s)"
  proof (rule map_ok_heap)
    show "map_ok (heap (hsh s)) (hmap s)" using own by blast
    show "cells (heap sh) a = cells (heap (hsh s)) a" if "a \<in> stored (hmap s)" for a
      using same [of a] own that by blast
  qed
  moreover have "b \<notin> set (hunter_holders ?t)" if "b \<in> stored (hmap s)" for b
  proof -
    have b: "b \<in> live (heap (hsh s))" "b \<notin> set (hunter_holders s)"
      using own that by blast+
    have "b \<in> set (rx_held pc @ queue (mqueue sh)) \<longrightarrow>
        b \<in> set (rx_held (hrx s) @ queue (mqueue (hsh s)))"
      using rx_fresh [OF _ st b(1)] own by blast
    then show ?thesis using b(2) t by (auto simp: hunter_holders_def)
  qed
  then have "stored (hmap s) \<inter> set (hunter_holders ?t) = {}"
    by blast
  moreover have "new_key (heap sh) (hmap s) a" if "a \<in> set (checked (hmain s))" for a
  proof (rule new_key_cong [of "heap (hsh s)"])
    show "new_key (heap (hsh s)) (hmap s) a"
      using mem that by (simp add: hunter_mem_def)
    have "a \<in> set (hunter_holders s)"
      using that checked_held by (fastforce simp: hunter_holders_def)
    then show "cells (heap sh) a = cells (heap (hsh s)) a"
      using own same by blast
  qed (use own same in blast)
  moreover have "bad_frees (heap sh) = 0"
    using calculation(1) by (simp add: owned_ok_def)
  ultimately show ?thesis
    using t ok by (simp add: hunter_ok_def hunter_mem_def)
qed

lemma hunter_ok_signal: "hunter_ok s \<Longrightarrow> hunter_ok (hunter_signal s)"
  by (simp add: hunter_ok_def hunter_mem_def hunter_holders_def hunter_signal_def handleSignal_def)

section \<open>The main thread keeps the discipline\<close>

text \<open>Actions that keep heap and map and drop or keep what is held.\<close>

lemma hunter_ok_keep:
  assumes "hunter_mem s" and "hrx s \<noteq> RxFault" and "hmain t \<noteq> HFault" and "hrx t \<noteq> RxFault"
    and "heap (hsh t) = heap (hsh s)" and "hmap t = hmap s"
    and "mset (hunter_holders t) \<subseteq># mset (hunter_holders s)"
    and "set (checked (hmain t)) \<subseteq> set (checked (hmain s))"
  shows "hunter_ok t"
proof -
  have "set (hunter_holders t) \<subseteq> set (hunter_holders s)"
    using set_mset_mono [OF assms(7)] by simp
  moreover have "owned_ok (heap (hsh s)) (hunter_holders t)"
    using owned_drop [OF _ assms(7)] assms(1) by (simp add: hunter_mem_def)
  ultimately show ?thesis
    using assms by (auto simp: hunter_ok_def hunter_mem_def owned_ok_def)
qed

lemma hunter_main_check:
  assumes mem: "hunter_mem s" and rx: "hrx s \<noteq> RxFault" and pc: "hmain s = HCheck a"
    and ord: "valid_iter (hio_ord io) (hmap s)"
  shows "hunter_ok (hunter_main io s)"
proof -
  note own = hunter_mem_owned [OF mem]
  have "a \<in> live (heap (hsh s))"
    using own pc by (auto simp: hunter_holders_def)
  then obtain p where p: "cells (heap (hsh s)) a = Some p" by blast
  have c: "containsPacket (hio_ord io) (heap (hsh s)) a (hmap s) =
      Some (\<exists>b \<in> stored (hmap s). \<exists>q. cells (heap (hsh s)) b = Some q \<and> pckt_key q = pckt_key p)"
    using containsPacket_eq [OF ord _ p] own by blast
  show ?thesis
  proof (cases "containsPacket (hio_ord io) (heap (hsh s)) a (hmap s) = Some True")
    case True
    then show ?thesis
      using pc rx by (intro hunter_ok_keep [OF mem]) (auto simp: hunter_main_def hunter_holders_def)
  next
    case False
    then have no: "containsPacket (hio_ord io) (heap (hsh s)) a (hmap s) = Some False"
      using c by auto
    have "map_option pckt_key (cells (heap (hsh s)) b) \<noteq> map_option pckt_key (cells (heap (hsh s)) a)"
      if "b \<in> stored (hmap s)" for b
      using no c p that by auto
    then have "new_key (heap (hsh s)) (hmap s) a"
      by (simp add: new_key_def)
    then show ?thesis
      using mem rx pc no own by (simp add: hunter_main_def hunter_ok_def hunter_mem_def hunter_holders_def)
  qed
qed

lemma hunter_main_insert:
  assumes mem: "hunter_mem s" and rx: "hrx s \<noteq> RxFault" and pc: "hmain s = HInsert a pid"
  shows "hunter_ok (hunter_main io s)"
proof -
  note own = hunter_mem_owned [OF mem]
  let ?t = "hunter_main io s"
  have hold: "hunter_holders s = hunter_holders ?t @ [a]"
    using pc by (simp add: hunter_main_def hunter_holders_def)
  have "map_ok (heap (hsh s)) (insertPacketInfo pid a (hmap s))"
    using mem own hold pc by (intro map_ok_insert) (auto simp: hunter_mem_def new_key_def)
  moreover have "stored (insertPacketInfo pid a (hmap s)) \<subseteq> insert a (stored (hmap s))"
    by (auto simp: stored_insert)
  moreover have "a \<notin> set (hunter_holders ?t)"
    using own hold by (simp add: owned_ok_def)
  moreover have "owned_ok (heap (hsh s)) (hunter_holders ?t)"
    using own hold by (auto intro: owned_drop)
  moreover have "hsh ?t = hsh s" "hmap ?t = insertPacketInfo pid a (hmap s)" "hmain ?t = HTop" "hrx ?t = hrx s"
    using pc by (simp_all add: hunter_main_def)
  ultimately show ?thesis
    using own hold rx by (auto simp: hunter_ok_def hunter_mem_def)
qed

lemma hunter_main_clean:
  assumes mem: "hunter_mem s" and rx: "hrx s \<noteq> RxFault" and pc: "hmain s = HClean"
  shows "hunter_ok (hunter_main io s)"
proof -
  note own = hunter_mem_owned [OF mem]
  let ?t = "hunter_main io s" and ?q = "queue (mqueue (hsh s))"
  have t: "heap (hsh ?t) = heap_delete_all ?q (heap (hsh s))" "hunter_holders ?t = rx_held (hrx s)"
      "hmap ?t = hmap s" "hmain ?t = HAsk" "hrx ?t = hrx s"
    using pc by (simp_all add: hunter_main_def hunter_holders_def cleanMessageQueue_eq)
  have "owned_ok (heap (hsh s)) (?q @ rx_held (hrx s))"
    using own pc by (auto simp: hunter_holders_def intro: owned_perm)
  then have "owned_ok (heap (hsh ?t)) (hunter_holders ?t)"
    using owned_free_all t by simp
  moreover have "map_ok (heap (hsh ?t)) (hmap s)"
  proof (rule map_ok_heap)
    show "map_ok (heap (hsh s)) (hmap s)" using own by blast
    show "cells (heap (hsh ?t)) a = cells (heap (hsh s)) a" if "a \<in> stored (hmap s)" for a
      using own that pc t(1) by (auto simp: hunter_holders_def intro!: cells_delete_all)
  qed
  ultimately show ?thesis
    using t own rx pc by (auto simp: hunter_ok_def hunter_mem_def owned_ok_def hunter_holders_def)
qed

lemma free_map_eq: "free_map pss h = heap_delete_all (concat (map snd pss)) h"
proof -
  have f: "fold freePacketInfo as h = heap_delete_all as h" for as h
    by (induction as arbitrary: h) (simp_all add: freePacketInfo_def)
  show ?thesis
    by (induction pss h rule: free_map.induct) (simp_all add: f heap_delete_all_append)
qed

lemma hunter_main_end:
  assumes mem: "hunter_mem s" and rx: "hrx s \<noteq> RxFault" and pc: "hmain s \<in> {HSave, HFreeAll}"
    and ord: "valid_iter (hio_ord io) (hmap s)"
  shows "hunter_ok (hunter_main io s) \<and> hmain (hunter_main io s) = HExit 0 \<and>
    hrx (hunter_main io s) = hrx s \<and> mqueue (hsh (hunter_main io s)) = mqueue (hsh s) \<and>
    live (heap (hsh (hunter_main io s))) =
      (if hmain s = HSave \<and> \<not> hio_open io then live (heap (hsh s))
       else live (heap (hsh s)) - stored (hmap s))"
proof -
  note own = hunter_mem_owned [OF mem]
  let ?h = "heap (hsh s)" and ?l = "held (hio_ord io) (hmap s)"
  have l: "owned_ok ?h ?l"
    using map_owned [OF _ ord] own by blast
  then have d: "live (heap_delete_all ?l ?h) = live ?h - stored (hmap s)"
    "bad_frees (heap_delete_all ?l ?h) = 0"
    using live_delete_all bad_frees_delete_all set_held [OF ord] by (auto simp: owned_ok_def)
  show ?thesis
  proof (cases "hmain s = HSave")
    case True
    obtain out where "write_map (getMap (hio_ord io) (hmap s)) ([], ?h) =
        Some (out, heap_delete_all ?l ?h)"
      using write_map_eq [of ?h "getMap (hio_ord io) (hmap s)" "[]"] l by (simp add: held_def)
    then show ?thesis
      using True d rx own
      by (auto simp: hunter_main_def savePacketMapToFile_def hunter_ok_def Let_def)
  next
    case False
    then have "hmain s = HFreeAll" using pc by simp
    then show ?thesis
      using d rx by (simp add: hunter_main_def free_map_eq held_def hunter_ok_def)
  qed
qed

lemma hunter_main_pop:
  assumes mem: "hunter_mem s" and rx: "hrx s \<noteq> RxFault" and pc: "hmain s = HPop"
  shows "hunter_ok (hunter_main io s)"
proof (cases "queue (mqueue (hsh s))")
  case Nil
  then show ?thesis
    using pc rx by (intro hunter_ok_keep [OF mem]) (auto simp: hunter_main_def hunter_holders_def mq_pop_def)
next
  case (Cons a as)
  then have "a \<noteq> nullptr"
    using hunter_mem_owned [OF mem] owned_nonnull by (fastforce simp: hunter_holders_def)
  then show ?thesis
    using pc Cons rx
    by (intro hunter_ok_keep [OF mem]) (auto simp: hunter_main_def hunter_holders_def mq_pop_def)
qed

text \<open>The actions that read the packet they hold: it is allocated.\<close>

lemma hunter_main_reads:
  assumes mem: "hunter_mem s" and rx: "hrx s \<noteq> RxFault"
    and pc: "hmain s = HSendPort a \<or> hmain s = HPrint a pid"
  shows "hunter_ok (hunter_main io s)"
proof -
  obtain p where "cells (heap (hsh s)) a = Some p"
    using hunter_mem_owned [OF mem] pc by (fastforce simp: hunter_holders_def)
  then show ?thesis
    using pc rx
    by (intro hunter_ok_keep [OF mem])
      (auto simp: hunter_main_def hunter_holders_def split: sum.splits signal_death.splits bool.splits)
qed

lemma hunter_ok_main:
  assumes ok: "hunter_ok s" and run: "\<not> hunter_ended (hmain s)"
    and ord: "valid_iter (hio_ord io) (hmap s)" and ph: "hunter_phases s"
  shows "hunter_ok (hunter_main io s)"
proof -
  have mem: "hunter_mem s" and rx: "hrx s \<noteq> RxFault"
    using ok run by (simp_all add: hunter_ok_def)
  show ?thesis
  proof (cases "hmain s")
    case HSpawn
    then show ?thesis
      using ph rx
      by (intro hunter_ok_keep [OF mem])
        (auto simp: hunter_main_def hunter_holders_def hunter_phases_def)
  next
    case (HCheck a)
    then show ?thesis using hunter_main_check [OF mem rx _ ord] by blast
  next
    case (HInsert a pid)
    then show ?thesis using hunter_main_insert [OF mem rx] by blast
  next
    case HSave
    then show ?thesis using hunter_main_end [OF mem rx _ ord] by simp
  next
    case HFreeAll
    then show ?thesis using hunter_main_end [OF mem rx _ ord] by simp
  qed (use run rx mem in \<open>(simp add: hunter_main_pop hunter_main_reads hunter_main_clean; fail) |
      (intro hunter_ok_keep [OF mem]; auto simp: hunter_main_def hunter_holders_def split_beta)\<close>)+
qed

lemma hunter_rx_idle: "hrx s \<in> {RxIdle, RxEnd, RxFault} \<Longrightarrow> hunter_rx g r s = s"
  by (auto simp: hunter_rx_def)

lemma hunter_rx_frame: "hmain (hunter_rx g r s) = hmain s \<and> hmap (hunter_rx g r s) = hmap s"
  by (simp add: hunter_rx_def split: prod.split)

lemma hunter_phases_rx: "hunter_phases s \<Longrightarrow> hunter_phases (hunter_rx g r s)"
  using hunter_rx_idle [of s g r] hunter_rx_frame [of g r s] by (auto simp: hunter_phases_def)

lemma hunter_phases_signal: "hunter_phases s \<Longrightarrow> hunter_phases (hunter_signal s)"
  by (simp add: hunter_phases_def hunter_signal_def handleSignal_def)

lemma hunter_phases_main: "hunter_phases s \<Longrightarrow> hunter_phases (hunter_main io s)"
  by (cases "hmain s")
    (auto simp: hunter_main_def hunter_phases_def split_beta Let_def cleanMessageQueue_eq
      savePacketMapToFile_def split: option.split sum.split signal_death.split bool.split)

definition hunter_inv :: "hunter \<Rightarrow> bool" where
  "hunter_inv s \<longleftrightarrow> hunter_ok s \<and> hunter_phases s"

lemma hunter_inv_step: "hunter_step s t \<Longrightarrow> hunter_inv s \<Longrightarrow> hunter_inv t"
  unfolding hunter_inv_def
  by (induction rule: hunter_step.induct)
    (simp_all add: hunter_ok_signal hunter_ok_rx hunter_ok_main hunter_phases_signal
      hunter_phases_rx hunter_phases_main)

lemma hunter_inv_started: "hunter_started s \<Longrightarrow> hunter_inv s"
proof -
  assume "hunter_started s"
  then obtain nl c where s: "s = hunter_init nl c" by (auto simp: hunter_started_def)
  have "owned_ok heap_init []" "map_ok heap_init ptpi_init" "bad_frees heap_init = 0"
    using owned_init map_ok_init by (simp_all add: owned_ok_def)
  then show ?thesis
    by (simp add: s hunter_inv_def hunter_ok_def hunter_phases_def hunter_mem_def
        hunter_holders_def hunter_init_def mq_init_def)
qed

interpretation htr: transition_invariant hunter_started hunter_step hunter_inv
  by unfold_locales (auto intro: hunter_inv_step hunter_inv_started)

section \<open>What the hunter guarantees\<close>

text \<open>
  C18: Under every interleaving of the hunter's threads and of signals no packet is read after it
  was freed and none is freed twice; while the program runs, each packet is held by one thread,
  the queue or the map and nowhere else, and no two packets of the map agree in addresses, ports
  and protocol.
\<close>

theorem hunter_memory_safe:
  assumes "hunter_started s0" and "hunter_step\<^sup>*\<^sup>* s0 s"
  shows "hrx s \<noteq> RxFault \<and> hmain s \<noteq> HFault \<and> bad_frees (heap (hsh s)) = 0 \<and>
    (\<not> hunter_ended (hmain s) \<longrightarrow>
      distinct (hunter_holders s) \<and> set (hunter_holders s) \<subseteq> live (heap (hsh s)) \<and>
      stored (hmap s) \<inter> set (hunter_holders s) = {} \<and> map_ok (heap (hsh s)) (hmap s))"
  using htr.inv_reachable [OF assms]
  by (simp add: hunter_inv_def hunter_ok_def hunter_mem_def owned_ok_def)

text \<open>
  C31: The end of a run: when the user has answered, the receiver has ended and the queue is empty,
  and the last action frees the stored packets, all of them and nothing else, whether they are
  saved or not. The exception is a file that cannot be opened, where all of them stay allocated.
\<close>

theorem hunter_exit:
  assumes "hunter_started s0" and "hunter_step\<^sup>*\<^sup>* s0 s" and "hmain s \<in> {HSave, HFreeAll}"
    and "valid_iter (hio_ord io) (hmap s)"
  shows "hmain (hunter_main io s) = HExit 0 \<and> hrx (hunter_main io s) = RxEnd \<and>
    mq_empty (mqueue (hsh (hunter_main io s))) \<and> bad_frees (heap (hsh (hunter_main io s))) = 0 \<and>
    live (heap (hsh (hunter_main io s))) =
      (if hmain s = HSave \<and> \<not> hio_open io then live (heap (hsh s))
       else live (heap (hsh s)) - stored (hmap s))"
proof -
  have inv: "hunter_ok s" "hunter_phases s"
    using htr.inv_reachable [OF assms(1,2)] by (simp_all add: hunter_inv_def)
  have run: "\<not> hunter_ended (hmain s)" using assms(3) by auto
  have "hmain s \<in> {HClean, HAsk, HSave, HFreeAll, HExit 0}" "hmain s \<in> {HAsk, HSave, HFreeAll, HExit 0}"
    using assms(3) by blast+
  then have "hrx s = RxEnd" "mq_empty (mqueue (hsh s))"
    using inv(2) unfolding hunter_phases_def mq_empty_def by blast+
  moreover have "hunter_mem s" "hrx s \<noteq> RxFault"
    using inv(1) run by (simp_all add: hunter_ok_def)
  ultimately show ?thesis
    using hunter_main_end [OF _ _ assms(3,4)] unfolding hunter_ok_def by simp
qed

section \<open>Packets that are lost\<close>

definition lost :: "hunter \<Rightarrow> ptr \<Rightarrow> bool" where
  "lost s a \<longleftrightarrow>
     a \<in> live (heap (hsh s)) \<and> a \<notin> set (hunter_holders s) \<and> a \<notin> stored (hmap s)"

lemma lost_rx:
  assumes "lost s a" and "hunter_mem s"
  shows "lost (hunter_rx g r s) a"
proof -
  obtain pc sh where st: "recvPacketInfoThread (hnl s) g r (hrx s, hsh s) = (pc, sh)" by fastforce
  have wf: "heap_wf (heap (hsh s))" using hunter_mem_owned [OF assms(2)] by blast
  have a: "a \<in> live (heap (hsh s))" using assms(1) by (simp add: lost_def)
  have "cells (heap sh) a = cells (heap (hsh s)) a"
    "a \<in> set (rx_held pc @ queue (mqueue sh)) \<longrightarrow> a \<in> set (rx_held (hrx s) @ queue (mqueue (hsh s)))"
    using rx_fresh [OF wf st a] by blast+
  then show ?thesis
    using assms(1) st by (simp add: lost_def hunter_rx_def hunter_holders_def domIff)
qed

lemma lost_main:
  assumes lost: "lost s a" and mem: "hunter_mem s" and rx: "hrx s \<noteq> RxFault"
    and ord: "valid_iter (hio_ord io) (hmap s)" and ph: "hunter_phases s"
  shows "lost (hunter_main io s) a"
proof (cases "hmain s")
  case HSpawn
  then show ?thesis
    using lost ph by (simp add: lost_def hunter_main_def hunter_holders_def hunter_phases_def)
next
  case HPop
  then show ?thesis
    using lost by (auto simp: lost_def hunter_main_def hunter_holders_def mq_pop_def split: list.split)
next
  case (HInsert b pid)
  then show ?thesis
    using lost by (auto simp: lost_def hunter_main_def hunter_holders_def stored_insert)
next
  case HClean
  have "heap_wf (heap (hsh s))" using hunter_mem_owned [OF mem] by blast
  then show ?thesis
    using lost HClean live_delete_all
    by (auto simp: lost_def hunter_main_def hunter_holders_def cleanMessageQueue_eq cells_delete_all)
next
  case HSave
  have "hmap (hunter_main io s) = hmap s"
    using HSave by (simp add: hunter_main_def split: option.split prod.split)
  then show ?thesis
    using lost hunter_main_end [OF mem rx _ ord] HSave
    by (auto simp: lost_def hunter_holders_def split: if_splits)
next
  case HFreeAll
  have "hmap (hunter_main io s) = hmap s"
    using HFreeAll by (simp add: hunter_main_def)
  then show ?thesis
    using lost hunter_main_end [OF mem rx _ ord] HFreeAll
    by (auto simp: lost_def hunter_holders_def split: if_splits)
qed (use lost in \<open>auto simp: lost_def hunter_main_def hunter_holders_def split_beta
      split: option.split sum.split signal_death.split bool.split\<close>)

lemma lost_step:
  assumes "hunter_step s t" and "hunter_inv s" and "lost s a"
  shows "lost t a"
  using assms
proof (cases rule: hunter_step.cases)
  case hsignal
  then show ?thesis
    using assms(3) by (simp add: lost_def hunter_holders_def hunter_signal_def handleSignal_def)
next
  case (hmain_act io)
  then show ?thesis
    using assms(2,3) lost_main by (simp add: hunter_inv_def hunter_ok_def)
next
  case (hreceive g r)
  then show ?thesis
    using assms(2,3) lost_rx by (simp add: hunter_inv_def hunter_ok_def)
qed

lemma lost_forever: "hunter_step\<^sup>*\<^sup>* s t \<Longrightarrow> hunter_inv s \<Longrightarrow> lost s a \<Longrightarrow> hunter_inv t \<and> lost t a"
  by (induction rule: rtranclp_induct) (auto intro: hunter_inv_step lost_step)

text \<open>
  C38: The hunter leaks: a packet that is already in the map, and a packet whose process the daemon
  does not know, is dropped by the main thread without being freed, and stays allocated and
  unreachable in every later state, to the end of the run.
\<close>

theorem hunter_drops_leak:
  assumes "hunter_started s0" and "hunter_step\<^sup>*\<^sup>* s0 s" and "valid_iter (hio_ord io) (hmap s)"
    and "hmain s = HInsert a (-1) \<or> hmain s = HCheck a \<and>
      containsPacket (hio_ord io) (heap (hsh s)) a (hmap s) = Some True"
    and "hunter_step\<^sup>*\<^sup>* (hunter_main io s) t"
  shows "a \<in> live (heap (hsh t)) \<and> a \<notin> set (hunter_holders t) \<and> a \<notin> stored (hmap t)"
proof -
  have inv: "hunter_inv s" using htr.inv_reachable [OF assms(1,2)] .
  have run: "\<not> hunter_ended (hmain s)" using assms(4) by auto
  then have own: "owned_ok (heap (hsh s)) (hunter_holders s)" "stored (hmap s) \<inter> set (hunter_holders s) = {}"
    using inv by (simp_all add: hunter_inv_def hunter_ok_def hunter_mem_def)
  have nxt: "hunter_step s (hunter_main io s)"
    using run assms(3) by (rule hmain_act)
  have "lost (hunter_main io s) a"
  proof -
    have a: "a \<in> live (heap (hsh s))" "a \<notin> stored (hmap s)"
      "a \<notin> set (rx_held (hrx s) @ queue (mqueue (hsh s)))"
      using own assms(4) by (auto simp: hunter_holders_def owned_ok_def)
    consider "hmain s = HInsert a (-1)" | "hmain s = HCheck a"
      "containsPacket (hio_ord io) (heap (hsh s)) a (hmap s) = Some True"
      using assms(4) by blast
    then show ?thesis
      using a by cases (simp_all add: lost_def hunter_main_def hunter_holders_def insert_none)
  qed
  then have "lost t a"
    using lost_forever [OF assms(5)] hunter_inv_step [OF nxt inv] by blast
  then show ?thesis by (simp add: lost_def)
qed

section \<open>A concrete run\<close>

datatype hunter_action = HSignal | HMain hunter_io | HReceiver mem read_outcome

fun hact :: "hunter_action \<Rightarrow> hunter \<Rightarrow> hunter" where
  "hact HSignal s = hunter_signal s"
| "hact (HMain io) s = hunter_main io s"
| "hact (HReceiver g r) s = hunter_rx g r s"

fun hallowed :: "hunter_action \<Rightarrow> hunter \<Rightarrow> bool" where
  "hallowed (HMain io) s \<longleftrightarrow> \<not> hunter_ended (hmain s) \<and> valid_iter (hio_ord io) (hmap s)"
| "hallowed _ s \<longleftrightarrow> \<not> hunter_ended (hmain s)"

fun hrun :: "hunter_action list \<Rightarrow> hunter \<Rightarrow> hunter option" where
  "hrun [] s = Some s"
| "hrun (a # as) s = (if hallowed a s then hrun as (hact a s) else None)"

lemma hrun_reach: "hrun as s = Some t \<Longrightarrow> hunter_step\<^sup>*\<^sup>* s t"
proof (induction as arbitrary: s)
  case (Cons a as)
  then have "hunter_step s (hact a s)" "hunter_step\<^sup>*\<^sup>* (hact a s) t"
    by (cases a; auto split: if_splits intro: hunter_step.intros)+
  then show ?case by (rule converse_rtranclp_into_rtranclp)
qed simp

definition hio0 :: hunter_io where
  "hio0 = \<lparr>hio_malloc = True, hio_pid = 2900, hio_sendmsg = 1040, hio_ord = [], hio_alive = Wrote 0,
     hio_write = Wrote 2, hio_read = GotBytes (word_bytes (2897 :: pid_t)), hio_uninit = 0,
     hio_choice = CHR ''n'', hio_exe = [], hio_input = [], hio_open = True\<rparr>"

definition hunter0 :: hunter where
  "hunter0 = hunter_init \<lparr>sock_fd = 3, src_addr = None, dest_addr = None\<rparr>
     \<lparr>sockFd = 6, isConnected = True\<rparr>"

lemma hunter0_started: "hunter_started hunter0"
  by (auto simp: hunter_started_def hunter0_def)

definition recv_acts :: "hunter_action list" where
  "recv_acts =
     [HReceiver [] ReadError,
      case_prod HReceiver (kernel_datagram (example_datagram example_pckt)),
      HReceiver [] ReadError]"

definition one_packet :: hunter where
  "one_packet = hunter0\<lparr>
     hsh := \<lparr>running = True, heap = snd (heap_new example_pckt heap_init), mqueue = \<lparr>queue = []\<rparr>\<rparr>,
     hmap := \<lparr>pktmap = [2897 \<mapsto> [1]]\<rparr>, hrx := RxTop, hmain := HTop,
     hcommands := [message_bytes 2900 ''packet_hunter_subscribe''],
     hscreen := printPacketInfo example_pckt 2897\<rparr>"

lemma receive_example:
  "receivePacketInfo c [] (snd (kernel_datagram (example_datagram example_pckt))) h = heap_new example_pckt h"
  using receivePacketInfo_eq [of "pckt_mem [nul, nul, nul] example_pckt" c "[]" _ h]
  by (simp add: kernel_datagram_def example_datagram_def)

lemma example_not_stop: "\<not> is_stop_pckt example_pckt"
  by (simp add: is_stop_pckt_def example_pckt_def)

lemma recv_run:
  assumes "hrx s = RxTop" and "running (hsh s)" and "\<not> hunter_ended (hmain s)"
    and "heap_wf (heap (hsh s))"
  shows "hrun (recv_acts @ as) s = hrun as (s\<lparr>hrx := RxTop, hsh := (hsh s)\<lparr>heap := snd (heap_new example_pckt (heap (hsh s))),
    mqueue := mq_push (next_ptr (heap (hsh s))) (mqueue (hsh s))\<rparr>\<rparr>)"
proof -
  have nz: "next_ptr (heap (hsh s)) \<noteq> nullptr"
    using assms(4) by (auto simp: heap_wf_def)
  obtain g r where d: "kernel_datagram (example_datagram example_pckt) = (g, r)" by fastforce
  then have "g = []" by (simp add: kernel_datagram_def example_datagram_def)
  then have r: "receivePacketInfo c g r h = heap_new example_pckt h" for c h
    using receive_example [of c h] d by simp
  show ?thesis
    using assms(1-3) nz
    by (simp add: recv_acts_def d hunter_rx_def r heap_new_def example_not_stop)
qed

lemmas hunter_exec =
  hunter_main_def hunter_command_def sendMessage_def mq_pop_def mq_push_def mq_init_def
  cleanMessageQueue_eq containsPacket_def getMap_def sendPort_def receivePid_full
  insertPacketInfo_def valid_iter_def ptpi_init_def hunter_signal_def handleSignal_def
  hunter_rx_def isServerAlive_def Let_def

definition hio1 :: hunter_io where
  "hio1 = hio0\<lparr>hio_ord := [2897]\<rparr>"

lemma run_start: "hrun [HMain hio0, HMain hio0] hunter0 =
    Some (hunter0\<lparr>hrx := RxTop, hmain := HTop, hcommands := [message_bytes 2900 ''packet_hunter_subscribe'']\<rparr>)"
  by (simp add: hunter0_def hunter_init_def hio0_def hunter_exec)

lemma run_packet:
  "hrun (recv_acts @ [HMain hio0, HMain hio0, HMain hio0, HMain hio0, HMain hio0, HMain hio0, HMain hio0])
     (hunter0\<lparr>hrx := RxTop, hmain := HTop, hcommands := [message_bytes 2900 ''packet_hunter_subscribe'']\<rparr>) =
   Some one_packet"
proof -
  have "bytes_word (take 4 (word_bytes (2897 :: pid_t))) = (2897 :: pid_t)"
    by simp
  then show ?thesis
    by (subst recv_run)
      (simp_all add: hunter0_def hunter_init_def hio0_def one_packet_def heap_wf_def heap_new_def
        heap_init_def nullptr_def hunter_exec)
qed

lemma reach_one_packet: "hunter_step\<^sup>*\<^sup>* hunter0 one_packet"
  using hrun_reach [OF run_start] hrun_reach [OF run_packet] by simp

text \<open>The same packet again, up to the test; and the end of the run without saving.\<close>

definition duplicate :: hunter where
  "duplicate = one_packet\<lparr>
     hsh := \<lparr>running = True, heap = snd (heap_new example_pckt (snd (heap_new example_pckt heap_init))),
       mqueue = \<lparr>queue = []\<rparr>\<rparr>, hmain := HCheck 2\<rparr>"

lemma run_duplicate: "hrun (recv_acts @ [HMain hio1, HMain hio1]) one_packet = Some duplicate"
  by (subst recv_run)
    (auto simp: one_packet_def duplicate_def hunter0_def hunter_init_def hio0_def hio1_def heap_wf_def
      heap_new_def heap_init_def nullptr_def hunter_exec)

definition asked :: hunter where
  "asked = one_packet\<lparr>hsh := (hsh one_packet)\<lparr>running := False\<rparr>, hrx := RxEnd, hmain := HFreeAll,
     hcommands := [message_bytes 2900 ''packet_hunter_subscribe'',
       message_bytes 2900 ''packet_hunter_unsubscribe'']\<rparr>"

lemma run_end:
  "hrun [HSignal, HMain hio1, HMain hio1, HReceiver [] ReadError, HMain hio1, HMain hio1, HMain hio1]
     one_packet = Some asked"
  by (simp add: one_packet_def asked_def hunter0_def hunter_init_def hio0_def hio1_def
      heap_new_def heap_init_def nullptr_def hunter_exec)

lemma reach_asked: "hunter_step\<^sup>*\<^sup>* hunter0 asked"
  using reach_one_packet hrun_reach [OF run_end] by simp

lemma reach_duplicate: "hunter_step\<^sup>*\<^sup>* hunter0 duplicate"
  using reach_one_packet hrun_reach [OF run_duplicate] by simp

lemma one_packet_map: "stored (hmap one_packet) = {1}" "valid_iter [2897] (hmap one_packet)"
  by (auto simp: one_packet_def stored_def packets_at_def valid_iter_def split: if_splits)

theorem hunter_memory_safe_witness:
  "map_ok (heap (hsh one_packet)) (hmap one_packet) \<and> stored (hmap one_packet) = {1}"
  using hunter_memory_safe [OF hunter0_started reach_one_packet]
  by (simp add: one_packet_map) (simp add: one_packet_def)

theorem hunter_exit_witness:
  "hmain (hunter_main hio1 asked) = HExit 0 \<and> live (heap (hsh (hunter_main hio1 asked))) = {}"
proof -
  have "hmain asked \<in> {HSave, HFreeAll}" "valid_iter (hio_ord hio1) (hmap asked)"
    "stored (hmap asked) = {1}" "live (heap (hsh asked)) = {1}" "hmain asked = HFreeAll"
    using one_packet_map by (simp_all add: asked_def hio1_def)
      (simp add: one_packet_def heap_new_def heap_init_def)
  then show ?thesis
    using hunter_exit [OF hunter0_started reach_asked, of hio1] by simp
qed

theorem hunter_drops_leak_witness:
  "2 \<in> live (heap (hsh (hunter_main hio1 duplicate))) \<and>
   2 \<notin> set (hunter_holders (hunter_main hio1 duplicate)) \<and>
   2 \<notin> stored (hmap (hunter_main hio1 duplicate))"
proof -
  have m: "hmap duplicate = hmap one_packet" "hmain duplicate = HCheck 2"
    by (simp_all add: duplicate_def)
  have "containsPacket (hio_ord hio1) (heap (hsh duplicate)) 2 (hmap duplicate) = Some True"
    by (simp add: duplicate_def one_packet_def hio1_def containsPacket_def getMap_def heap_new_def
        heap_init_def comparePacketInfo_def)
  moreover have "valid_iter (hio_ord hio1) (hmap duplicate)"
    using one_packet_map m by (simp add: hio1_def)
  ultimately show ?thesis
    using hunter_drops_leak [OF hunter0_started reach_duplicate, of hio1 2 "hunter_main hio1 duplicate"] m
    by blast
qed

end
