(* ===== verification/System.thy ===== *)
theory System
  imports SnifferMessages Daemon PacketHunter
begin

text \<open>
  The three programs together: the loaded kernel module, the daemon and the packet hunter as one
  transition system. Commands of the programs are processed by the module's input function when
  they are sent; messages of the module wait in the netlink socket of the process they were sent
  to; the two programs exchange bytes over one stream connection. The results of calls that each
  program's own model leaves open are here the bytes that are really there: a \<open>recv\<close> of the
  netlink socket returns the next message the module has sent to that process or fails, a \<open>read\<close>
  returns a prefix of the stream (nothing: the end of the stream) or fails. \<open>dp\<close> and \<open>hp\<close> are the
  process ids of the daemon and the hunter. A fault of the module has no successor.
\<close>

section \<open>State and channels\<close>

record system =
  kern :: kernel
  dproc :: daemon
  hproc :: hunter
  d_taken :: nat
  h_taken :: nat
  up :: mem
  down :: mem
  accepted :: bool
  seen :: "sk_buff list"

text \<open>
  The messages delivered to a process, in order; a program has taken the first \<open>d_taken\<close> or
  \<open>h_taken\<close> of them. \<open>up\<close> and \<open>down\<close> hold the bytes on their way to the daemon and to the hunter,
  \<open>accepted\<close> says that the daemon has accepted the hunter's connection, and \<open>seen\<close> is the history of
  the packets the hook was called with.
\<close>

definition delivered :: "u32 \<Rightarrow> kernel \<Rightarrow> mem list" where
  "delivered pid k = map (\<lambda>(q, m, r). m) (filter (\<lambda>(q, m, r). q = pid \<and> 0 \<le> r) (unicasts k))"

fun run_commands :: "knl_env \<Rightarrow> mem list \<Rightarrow> kernel \<Rightarrow> kernel_fault + kernel" where
  "run_commands env [] k = Inr k"
| "run_commands env (d # ds) k =
     (case nl_recv_msg env (Some d) k of
        Inl f \<Rightarrow> Inl f
      | Inr k \<Rightarrow> run_commands env ds k)"

text \<open>The module's share of an action that sent the commands \<open>ds\<close>.\<close>

definition commands_done :: "knl_env \<Rightarrow> mem list \<Rightarrow> kernel \<Rightarrow> kernel \<Rightarrow> bool" where
  "commands_done env ds k k' \<longleftrightarrow>
     env_sized env \<and> (ds \<noteq> [] \<longrightarrow> nl_sock_open k) \<and> run_commands env ds k = Inr k'"

text \<open>An action of a receiving thread takes at most one message.\<close>

definition net_recv :: "mem list \<Rightarrow> nat \<Rightarrow> rx_pc \<Rightarrow> read_outcome \<Rightarrow> nat \<Rightarrow> bool" where
  "net_recv ms n pc r n' \<longleftrightarrow>
     (if pc = RxRecv \<and> r \<noteq> ReadError then n < length ms \<and> r = GotBytes (ms ! n) \<and> n' = Suc n
      else n' = n)"

definition stream_read :: "nat \<Rightarrow> mem \<Rightarrow> read_outcome \<Rightarrow> mem \<Rightarrow> bool" where
  "stream_read limit s r s' \<longleftrightarrow>
     (case r of ReadError \<Rightarrow> s' = s | GotBytes bs \<Rightarrow> length bs \<le> limit \<and> s = bs @ s')"

definition wrote_at_most :: "nat \<Rightarrow> write_outcome \<Rightarrow> bool" where
  "wrote_at_most n w \<longleftrightarrow> (case w of Wrote k \<Rightarrow> k \<le> n | _ \<Rightarrow> True)"

text \<open>
  The streams after an action of the daemon's client thread. The hunter connects once; a later
  connection the daemon accepts is its own, made to wake it.
\<close>

definition client_streams :: "daemon_io \<Rightarrow> system \<Rightarrow> mem \<Rightarrow> mem \<Rightarrow> bool \<Rightarrow> bool" where
  "client_streams io S up' down' accepted' \<longleftrightarrow>
     (case dclient (dproc S) of
        CAccept \<Rightarrow> up' = up S \<and> down' = down S \<and> accepted' = (accepted S \<or> 0 \<le> io_accept io) \<and>
          (0 \<le> io_accept io \<longrightarrow> \<not> accepted S \<or> isShuttingDown (dserver (dproc S)))
      | CRead port \<Rightarrow> stream_read 2 (up S) (io_read io) up' \<and> down' = down S \<and> accepted' = accepted S
      | CSend port pid \<Rightarrow> up' = up S \<and> down' = down S @ fst (sendPid pid (io_write io)) \<and>
          accepted' = accepted S \<and> wrote_at_most 4 (io_write io)
      | _ \<Rightarrow> up' = up S \<and> down' = down S \<and> accepted' = accepted S)"

text \<open>The streams after an action of the hunter's main thread.\<close>

definition hunter_streams :: "hunter_io \<Rightarrow> system \<Rightarrow> mem \<Rightarrow> mem \<Rightarrow> bool" where
  "hunter_streams io S up' down' \<longleftrightarrow>
     (case hmain (hproc S) of
        HSendPort a \<Rightarrow> down' = down S \<and> wrote_at_most 2 (hio_write io) \<and>
          up' = up S @ (case cells (heap (hsh (hproc S))) a of
              None \<Rightarrow> []
            | Some p \<Rightarrow> fst (sendPort (hclient (hproc S)) (dst_port p) (hio_write io)))
      | HReceive a \<Rightarrow> up' = up S \<and> stream_read 4 (down S) (hio_read io) down'
      | _ \<Rightarrow> up' = up S \<and> down' = down S)"

section \<open>Steps\<close>

inductive sys_step :: "u32 \<Rightarrow> u32 \<Rightarrow> system \<Rightarrow> system \<Rightarrow> bool" for dp hp where
  arrive:
    "hook_registered (kern S) \<Longrightarrow> env_sized e1 \<Longrightarrow> env_sized e2 \<Longrightarrow>
      packet_sniffer_hook e1 e2 (Some skb) (kern S) = Inr (v, k') \<Longrightarrow>
      sys_step dp hp S (S\<lparr>kern := k', seen := seen S @ [skb]\<rparr>)"
| unload_module: "sys_step dp hp S (S\<lparr>kern := sniffer_exit (kern S)\<rparr>)"
| d_signal:
    "\<not> ended (dmain (dproc S)) \<Longrightarrow> sys_step dp hp S (S\<lparr>dproc := on_signal (dproc S)\<rparr>)"
| d_main:
    "\<not> ended (dmain (dproc S)) \<Longrightarrow> io_valid io (dproc S) \<Longrightarrow> io_pid io = dp \<Longrightarrow>
      commands_done env
        (drop (length (dcommands (dproc S))) (dcommands (main_step io (dproc S)))) (kern S) k' \<Longrightarrow>
      sys_step dp hp S (S\<lparr>kern := k', dproc := main_step io (dproc S)\<rparr>)"
| d_client:
    "\<not> ended (dmain (dproc S)) \<Longrightarrow> io_valid io (dproc S) \<Longrightarrow> client_streams io S u d c \<Longrightarrow>
      sys_step dp hp S (S\<lparr>dproc := client_thread io (dproc S), up := u, down := d, accepted := c\<rparr>)"
| d_recv:
    "\<not> ended (dmain (dproc S)) \<Longrightarrow>
      net_recv (delivered dp (kern S)) (d_taken S) (drx (dproc S)) r n \<Longrightarrow>
      sys_step dp hp S (S\<lparr>dproc := rx_thread g r (dproc S), d_taken := n\<rparr>)"
| h_signal:
    "\<not> hunter_ended (hmain (hproc S)) \<Longrightarrow>
      sys_step dp hp S (S\<lparr>hproc := hunter_signal (hproc S)\<rparr>)"
| h_main:
    "\<not> hunter_ended (hmain (hproc S)) \<Longrightarrow> valid_iter (hio_ord io) (hmap (hproc S)) \<Longrightarrow>
      hio_pid io = hp \<Longrightarrow>
      commands_done env
        (drop (length (hcommands (hproc S))) (hcommands (hunter_main io (hproc S)))) (kern S) k' \<Longrightarrow>
      hunter_streams io S u d \<Longrightarrow>
      sys_step dp hp S (S\<lparr>kern := k', hproc := hunter_main io (hproc S), up := u, down := d\<rparr>)"
| h_recv:
    "\<not> hunter_ended (hmain (hproc S)) \<Longrightarrow>
      net_recv (delivered hp (kern S)) (h_taken S) (hrx (hproc S)) r n \<Longrightarrow>
      sys_step dp hp S (S\<lparr>hproc := hunter_rx g r (hproc S), h_taken := n\<rparr>)"

definition sys_started :: "system \<Rightarrow> bool" where
  "sys_started S \<longleftrightarrow> kernel_loaded (kern S) \<and> daemon_started (dproc S) \<and> hunter_started (hproc S) \<and>
     d_taken S = 0 \<and> h_taken S = 0 \<and> up S = [] \<and> down S = [] \<and> \<not> accepted S \<and> seen S = []"

section \<open>The commands of the programs\<close>

definition program_commands :: "string list" where
  "program_commands =
     [''daemon_subscribe'', ''daemon_unsubscribe'', ''packet_hunter_subscribe'',
      ''packet_hunter_unsubscribe'']"

lemma sent_datagram:
  "sendMessage c ok pid res msg = (True, Some d) \<Longrightarrow> d = message_bytes pid msg"
  by (auto simp: sendMessage_def Let_def split: if_splits)

lemma command_text:
  assumes "msg \<in> set program_commands"
  shows "c_string (nlmsg_data (message_bytes pid msg)) = Some msg"
proof -
  have "nul \<notin> set msg" "length msg \<le> 1023"
    using assms by (auto simp: program_commands_def nul_def)
  then show ?thesis by (simp add: message_bytes_command takeWhile_nul_free)
qed

lemma send_command_commands:
  "io_pid io = dp \<Longrightarrow> send_command io msg s = (ok, t) \<Longrightarrow>
    dcommands t = dcommands s @ (if ok then [message_bytes dp msg] else []) \<and> dmain t = dmain s"
  by (auto simp: send_command_def split: prod.splits bool.splits option.splits dest: sent_datagram)

lemma hunter_command_commands:
  "hio_pid io = hp \<Longrightarrow> hunter_command io msg s = (ok, t) \<Longrightarrow>
    hcommands t = hcommands s @ (if ok then [message_bytes hp msg] else []) \<and> hmain t = hmain s"
  by (auto simp: hunter_command_def split: prod.splits bool.splits option.splits dest: sent_datagram)

text \<open>What the main threads send, and when.\<close>

lemma main_commands:
  assumes "io_pid io = dp"
  shows "drop (length (dcommands s)) (dcommands (main_step io s)) =
    (if dmain s = MSubscribe \<and> dmain (main_step io s) = MSetRunning
     then [message_bytes dp ''daemon_subscribe'']
     else if dmain s = MUnsubscribe \<and> dmain (main_step io s) = MJoinRx
     then [message_bytes dp ''daemon_unsubscribe''] else [])"
proof (cases "dmain s")
  case MSubscribe
  obtain ok t where "send_command io ''daemon_subscribe'' s = (ok, t)" by fastforce
  with send_command_commands [OF assms this] show ?thesis
    by (simp add: main_step_def MSubscribe)
next
  case MUnsubscribe
  obtain ok t where "send_command io ''daemon_unsubscribe'' s = (ok, t)" by fastforce
  with send_command_commands [OF assms this] show ?thesis
    by (simp add: main_step_def MUnsubscribe)
qed (auto simp: main_step_def split_beta Let_def split: option.split sum.split)

lemma hunter_commands:
  assumes "hio_pid io = hp"
  shows "drop (length (hcommands s)) (hcommands (hunter_main io s)) =
    (if hmain s = HSubscribe \<and> hmain (hunter_main io s) = HSpawn
     then [message_bytes hp ''packet_hunter_subscribe'']
     else if hmain s = HUnsubscribe \<and> hmain (hunter_main io s) = HJoin
     then [message_bytes hp ''packet_hunter_unsubscribe''] else [])"
proof (cases "hmain s")
  case HSubscribe
  obtain ok t where "hunter_command io ''packet_hunter_subscribe'' s = (ok, t)" by fastforce
  with hunter_command_commands [OF assms this] show ?thesis
    by (simp add: hunter_main_def HSubscribe)
next
  case HUnsubscribe
  obtain ok t where "hunter_command io ''packet_hunter_unsubscribe'' s = (ok, t)" by fastforce
  with hunter_command_commands [OF assms this] show ?thesis
    by (simp add: hunter_main_def HUnsubscribe)
qed (auto simp: hunter_main_def split_beta Let_def
      split: option.split sum.split signal_death.split bool.split)

text \<open>The module's answer to no command or one.\<close>

definition stop_to :: "u32 \<Rightarrow> u32 \<times> mem \<times> int \<Rightarrow> bool" where
  "stop_to pid u \<longleftrightarrow> unicast_key u = (pid, 0, 0, 0, 0, nul)"

lemma commands_none [simp]: "commands_done env [] k k' \<longleftrightarrow> env_sized env \<and> k' = k"
  by (auto simp: commands_done_def)

lemma commands_one:
  assumes "commands_done env [message_bytes pid msg] k k'" and "msg \<in> set program_commands"
    and "kernel_inv k"
  shows "kstep k k' \<and> kernel_inv k' \<and> subs_of k' = sub_spec (parse_command msg) pid (subs_of k) \<and>
    adds (\<lambda>u. \<exists>c. parse_command msg = Unsubscribe c \<and> stop_to (slot_pid c k) u) k k'"
proof -
  have env: "env_sized env" and sk: "nl_sock_open k"
    and r: "nl_recv_msg env (Some (message_bytes pid msg)) k = Inr k'"
    using assms(1) by (auto simp: commands_done_def split: sum.splits)
  have s: "c_string (nlmsg_data (message_bytes pid msg)) = Some msg"
    using command_text [OF assms(2)] .
  have "nlmsg_pid (hdr_of_mem (message_bytes pid msg)) = pid"
    by (simp add: message_bytes_command)
  then show ?thesis
    using recv [OF sk env r] kernel_inv_recv [OF assms(3) env r] nl_recv_subs [OF s r]
      recv_adds [OF r env s] by (simp add: stop_to_def)
qed

section \<open>Each part behaves as its own model\<close>

lemma commands_steps:
  assumes "commands_done env ds k k'" and "kernel_inv k"
    and "ds = [] \<or> (\<exists>msg \<in> set program_commands. ds = [message_bytes pid msg])"
  shows "kstep\<^sup>*\<^sup>* k k'"
  using assms(3)
proof
  assume "ds = []"
  then show ?thesis using assms(1) by simp
next
  assume "\<exists>msg \<in> set program_commands. ds = [message_bytes pid msg]"
  then obtain msg where m: "msg \<in> set program_commands" "ds = [message_bytes pid msg]" by blast
  then have "kstep k k'"
    using commands_one [OF _ m(1) assms(2)] assms(1) by blast
  then show ?thesis by blast
qed

lemma own_commands:
  assumes "io_pid io = dp"
  shows "drop (length (dcommands s)) (dcommands (main_step io s)) = [] \<or>
    (\<exists>msg \<in> set program_commands.
      drop (length (dcommands s)) (dcommands (main_step io s)) = [message_bytes dp msg])"
  unfolding main_commands [OF assms] by (simp add: program_commands_def)

lemma hunter_own_commands:
  assumes "hio_pid io = hp"
  shows "drop (length (hcommands s)) (hcommands (hunter_main io s)) = [] \<or>
    (\<exists>msg \<in> set program_commands.
      drop (length (hcommands s)) (hcommands (hunter_main io s)) = [message_bytes hp msg])"
  unfolding hunter_commands [OF assms] by (simp add: program_commands_def)

lemma sys_step_parts:
  assumes "sys_step dp hp S T" and "kernel_inv (kern S)"
  shows "kstep\<^sup>*\<^sup>* (kern S) (kern T) \<and> daemon_step\<^sup>*\<^sup>* (dproc S) (dproc T) \<and>
    hunter_step\<^sup>*\<^sup>* (hproc S) (hproc T)"
  using assms
proof (induction rule: sys_step.induct)
  case (arrive S e1 e2 skb v k')
  then have "kstep (kern S) k'" by (intro packet)
  then show ?case by auto
next
  case (unload_module S)
  then show ?case using unload [of "kern S"] by auto
next
  case (d_signal S)
  then show ?case using daemon_step.signal [of "dproc S"] by auto
next
  case (d_main S io env k')
  then show ?case
    using daemon_step.main [of "dproc S" io] commands_steps [OF _ _ own_commands] by auto
next
  case (d_client S io u d c)
  then show ?case using daemon_step.client [of "dproc S" io] by auto
next
  case (d_recv S r n g)
  then show ?case using daemon_step.receiver [of "dproc S" g r] by auto
next
  case (h_signal S)
  then show ?case using hsignal [of "hproc S"] by auto
next
  case (h_main S io env k' u d)
  then show ?case
    using hmain_act [of "hproc S" io] commands_steps [OF _ _ hunter_own_commands] by auto
next
  case (h_recv S r n g)
  then show ?case using hreceive [of "hproc S" g r] by auto
qed

definition parts_ok :: "system \<Rightarrow> bool" where
  "parts_ok S \<longleftrightarrow> kernel_inv (kern S) \<and> daemon_inv (dproc S) \<and> hunter_inv (hproc S)"

lemma parts_step: "sys_step dp hp S T \<Longrightarrow> parts_ok S \<Longrightarrow> parts_ok T"
  using sys_step_parts [of dp hp S T] knl.inv_steps dmn.inv_steps htr.inv_steps
  by (auto simp: parts_ok_def)

lemma parts_started: "sys_started S \<Longrightarrow> parts_ok S"
  using knl.inv_init dmn.inv_init htr.inv_init by (simp add: sys_started_def parts_ok_def)

end
