(* ===== verification/SystemRun.thy ===== *)
theory SystemRun
  imports System
begin

text \<open>
  A run of the whole system: the hunter subscribes, a packet arrives, is reported, and the hunter
  asks the daemon for its port, gets the answer and prints the line.
\<close>

definition daemon1 :: daemon where
  "daemon1 = daemon0\<lparr>dports := \<lparr>pmap = [44280 \<mapsto> 2897]\<rparr>\<rparr>"

definition kernel1 :: kernel where
  "kernel1 = snd (sniffer_init True True kernel_static)"

definition sys1 :: system where
  "sys1 = \<lparr>kern = kernel1, dproc = daemon1, hproc = hunter0, d_taken = 0, h_taken = 0, up = [],
     down = [], accepted = False, seen = []\<rparr>"

lemma daemon1_started: "daemon_started daemon1"
  by (rule daemon_startedI [of "dnl daemon1" "dserver daemon1" "dos daemon1" "dports daemon1"])
    (auto simp: daemon_init_def daemon1_def daemon0_def ptp_valid_def srv_wf_def srv_owned_def
      split: if_splits)

lemma sys1_started: "sys_started sys1"
  using daemon1_started hunter0_started
  by (simp add: sys_started_def sys1_def kernel_loaded_def kernel1_def)

text \<open>The states of the run: what changes in the hunter, and what changes in the daemon.\<close>

definition hun :: "hunter_pc \<Rightarrow> rx_pc \<Rightarrow> shared \<Rightarrow> string \<Rightarrow> hunter" where
  "hun pc rx sh scr = hunter0\<lparr>hsh := sh, hrx := rx, hmain := pc,
     hcommands := [message_bytes 2900 ''packet_hunter_subscribe''], hscreen := scr\<rparr>"

definition dae :: "client_pc \<Rightarrow> fd \<Rightarrow> (u16 \<times> pid_t) list \<Rightarrow> daemon" where
  "dae pc fd ans = daemon1\<lparr>dclient := pc, danswers := ans,
     dserver := \<lparr>serverFd = 4, clientFd = fd, isShuttingDown = False\<rparr>,
     dos := \<lparr>open_fds = (if fd = -1 then [4, 3] else [fd, 4, 3]), bad_closes = 0, sock_file = True\<rparr>\<rparr>"

definition sh :: "packet_heap \<Rightarrow> ptr list \<Rightarrow> shared" where
  "sh h q = \<lparr>running = True, heap = h, mqueue = \<lparr>queue = q\<rparr>\<rparr>"

lemma hun_simps [simp]:
  "hsh (hun pc rx s scr) = s" "hrx (hun pc rx s scr) = rx" "hmain (hun pc rx s scr) = pc"
  "hmap (hun pc rx s scr) = ptpi_init" "hscreen (hun pc rx s scr) = scr"
  "hclient (hun pc rx s scr) = \<lparr>sockFd = 6, isConnected = True\<rparr>"
  "(hun pc rx s scr)\<lparr>hsh := s'\<rparr> = hun pc rx s' scr" "(hun pc rx s scr)\<lparr>hrx := rx'\<rparr> = hun pc rx' s scr"
  "(hun pc rx s scr)\<lparr>hmain := pc'\<rparr> = hun pc' rx s scr"
  "(hun pc rx s scr)\<lparr>hscreen := scr'\<rparr> = hun pc rx s scr'"
  by (simp_all add: hun_def hunter0_def hunter_init_def)

lemma sh_simps [simp]:
  "running (sh h q)" "heap (sh h q) = h" "mqueue (sh h q) = \<lparr>queue = q\<rparr>"
  "(sh h q)\<lparr>heap := h'\<rparr> = sh h' q" "(sh h q)\<lparr>mqueue := \<lparr>queue = q'\<rparr>\<rparr> = sh h q'"
  by (simp_all add: sh_def)

text \<open>Steps that send no command.\<close>

lemma h_main_one:
  assumes "hio_pid io = hp" and "\<not> hunter_ended (hmain (hproc S))"
    and "valid_iter (hio_ord io) (hmap (hproc S))"
    and "hcommands (hunter_main io (hproc S)) = hcommands (hproc S)"
    and "hunter_streams io S u d" and "S\<lparr>hproc := hunter_main io (hproc S), up := u, down := d\<rparr> = T"
  shows "sys_step dp hp S T"
proof -
  have "commands_done good_env (drop (length (hcommands (hproc S))) (hcommands (hunter_main io (hproc S))))
      (kern S) (kern S)"
    using assms by (simp add: commands_done_def env_sized_def good_env_def)
  from h_main [OF assms(2,3,1) this assms(5), of dp] assms(6) show ?thesis by auto
qed

lemmas h_main_quiet = r_into_rtranclp [of "sys_step dp hp" for dp hp, OF h_main_one]

lemma d_client_step:
  assumes "\<not> ended (dmain (dproc S))" and "io_valid io (dproc S)" and "client_streams io S u d c"
    and "S\<lparr>dproc := client_thread io (dproc S), up := u, down := d, accepted := c\<rparr> = T"
  shows "(sys_step dp hp)\<^sup>*\<^sup>* S T"
  using d_client [OF assms(1-3), of dp hp] assms(4) by auto

lemma h_recv_step:
  assumes "\<not> hunter_ended (hmain (hproc S))"
    and "net_recv (delivered hp (kern S)) (h_taken S) (hrx (hproc S)) r n"
    and "S\<lparr>hproc := hunter_rx [] r (hproc S), h_taken := n\<rparr> = T"
  shows "(sys_step dp hp)\<^sup>*\<^sup>* S T"
  using h_recv [OF assms(1,2), of dp "[]"] assms(3) by auto

lemma first_heap:
  "cells (snd (heap_new p heap_init)) 1 = Some p" "fst (heap_new p heap_init) = 1"
  by (simp_all add: heap_new_def heap_init_def)

text \<open>The receiver takes the report of a packet, and the main thread asks for its port.\<close>

definition at_port :: "kernel \<Rightarrow> daemon \<Rightarrow> hunter \<Rightarrow> nat \<Rightarrow> mem \<Rightarrow> mem \<Rightarrow> bool \<Rightarrow> sk_buff list \<Rightarrow> system" where
  "at_port k d h n u dn c s = \<lparr>kern = k, dproc = d, hproc = h, d_taken = 0, h_taken = n, up = u,
     down = dn, accepted = c, seen = s\<rparr>"

lemma at_port_simps [simp]:
  "kern (at_port k d h n u dn c s) = k" "dproc (at_port k d h n u dn c s) = d"
  "hproc (at_port k d h n u dn c s) = h" "h_taken (at_port k d h n u dn c s) = n"
  "up (at_port k d h n u dn c s) = u" "down (at_port k d h n u dn c s) = dn"
  "accepted (at_port k d h n u dn c s) = c" "seen (at_port k d h n u dn c s) = s"
  "(at_port k d h n u dn c s)\<lparr>hproc := h', h_taken := n'\<rparr> = at_port k d h' n' u dn c s"
  "(at_port k d h n u dn c s)\<lparr>hproc := h', up := u', down := dn'\<rparr> = at_port k d h' n u' dn' c s"
  "(at_port k d h n u dn c s)\<lparr>dproc := d', up := u', down := dn', accepted := c'\<rparr> =
     at_port k d' h n u' dn' c' s"
  by (simp_all add: at_port_def)

lemma run_receive:
  assumes "delivered 2900 k = [m]" and "length m = 36" and "nlmsg_len (hdr_of_mem m) = 36"
    and "p = pckt_of_mem (nlmsg_data m)" and "\<not> is_stop_pckt p" and "h = snd (heap_new p heap_init)"
  shows "(sys_step 812 2900)\<^sup>*\<^sup>* (at_port k d (hun HTop RxTop (sh heap_init []) []) 0 [] [] False s)
    (at_port k d (hun HTop RxTop (sh h [1]) []) 1 [] [] False s)" (is "rtranclp _ ?A ?D")
proof -
  let ?B = "at_port k d (hun HTop RxRecv (sh heap_init []) []) 0 [] [] False s"
  let ?C = "at_port k d (hun HTop (RxHave 1) (sh h []) []) 1 [] [] False s"
  have r: "receivePacketInfo c g (GotBytes m) heap_init = (1, h)" for c g
    using receive_wire [OF assms(2,3)] assms(4,6) first_heap(2) [of p] by (simp add: prod_eq_iff)
  have "(sys_step 812 2900)\<^sup>*\<^sup>* ?A ?B"
    by (rule h_recv_step [where r = ReadError and n = 0]) (simp_all add: net_recv_def hunter_rx_def)
  moreover have "(sys_step 812 2900)\<^sup>*\<^sup>* ?B ?C"
    by (rule h_recv_step [where r = "GotBytes m" and n = 1])
      (simp_all add: net_recv_def hunter_rx_def assms(1) r nullptr_def)
  moreover have "(sys_step 812 2900)\<^sup>*\<^sup>* ?C ?D"
    by (rule h_recv_step [where r = ReadError and n = 1])
      (simp_all add: net_recv_def hunter_rx_def assms(5,6) first_heap [simplified] mq_push_def)
  ultimately show ?thesis by (meson rtranclp_trans)
qed

lemma run_ask:
  assumes "cells h 1 = Some p" and "dst_port p = q"
  shows "(sys_step 812 2900)\<^sup>*\<^sup>* (at_port k d (hun HTop RxTop (sh h [1]) []) 1 [] [] False s)
    (at_port k d (hun (HReceive 1) RxTop (sh h []) []) 1 (word_bytes q) [] False s)"
    (is "rtranclp _ ?A ?E")
proof -
  let ?st = "\<lambda>pc q. at_port k d (hun pc RxTop (sh h q) []) 1 [] [] False s"
  have step: "(sys_step 812 2900)\<^sup>*\<^sup>* (?st pc q) (?st pc' q')"
    if "hunter_main hio0 (hun pc RxTop (sh h q) []) = hun pc' RxTop (sh h q') []"
      "\<not> hunter_ended pc" "\<forall>a. pc \<noteq> HSendPort a" "\<forall>a. pc \<noteq> HReceive a" for pc q pc' q'
  proof (rule h_main_quiet [where io = hio0 and u = "[]" and d = "[]"])
    show "hunter_streams hio0 (?st pc q) [] []"
      using that by (cases pc) (simp_all add: hunter_streams_def)
    show "hcommands (hunter_main hio0 (hproc (?st pc q))) = hcommands (hproc (?st pc q))"
      using that(1) by (simp add: hun_def hunter0_def hunter_init_def)
  qed (use that in \<open>simp_all add: hio0_def valid_iter_def ptpi_init_def\<close>)
  have "(sys_step 812 2900)\<^sup>*\<^sup>* (?st HTop [1]) (?st HPop [1])"
    by (rule step) (simp_all add: hunter_main_def)
  moreover have "(sys_step 812 2900)\<^sup>*\<^sup>* (?st HPop [1]) (?st (HCheck 1) [])"
    by (rule step) (simp_all add: hunter_main_def mq_pop_def nullptr_def)
  moreover have "(sys_step 812 2900)\<^sup>*\<^sup>* (?st (HCheck 1) []) (?st (HSendPort 1) [])"
    by (rule step) (simp_all add: hunter_main_def containsPacket_def getMap_def hio0_def assms(1) [simplified])
  moreover have "(sys_step 812 2900)\<^sup>*\<^sup>* (?st (HSendPort 1) []) ?E"
    by (rule h_main_quiet [where io = hio0 and u = "word_bytes q" and d = "[]"])
      (simp_all add: hunter_main_def sendPort_def hio0_def valid_iter_def ptpi_init_def assms [simplified]
        hunter_streams_def wrote_at_most_def hun_def hunter0_def hunter_init_def)
  ultimately show ?thesis by (meson rtranclp_trans)
qed

text \<open>The daemon's client thread accepts, reads the port, looks it up and answers.\<close>

lemma dae_simps [simp]:
  "dclient (dae pc fd ans) = pc" "dmain (dae pc fd ans) = MSubscribe" "running (dsh (dae pc fd ans))"
  "dports (dae pc fd ans) = \<lparr>pmap = [44280 \<mapsto> 2897]\<rparr>" "danswers (dae pc fd ans) = ans"
  "dserver (dae pc fd ans) = \<lparr>serverFd = 4, clientFd = fd, isShuttingDown = False\<rparr>"
  "(dae pc fd ans)\<lparr>dclient := pc'\<rparr> = dae pc' fd ans"
  "(dae pc fd ans)\<lparr>danswers := ans'\<rparr> = dae pc fd ans'"
  by (simp_all add: dae_def daemon1_def daemon0_def)

lemma dae_start: "daemon1 = dae CTop (-1) []"
  by (simp add: dae_def daemon1_def daemon0_def)

lemma dae_valid: "io_socket io = -1 \<Longrightarrow> io_accept io = -1 \<or> io_accept io = 5 \<and> fd = -1 \<Longrightarrow>
    io_valid io (dae pc fd ans)"
  by (auto simp: io_valid_def fd_result_def fresh_fd_def dae_def daemon1_def daemon0_def)

lemma run_answer:
  "(sys_step 812 2900)\<^sup>*\<^sup>* (at_port k daemon1 h n (word_bytes (44280 :: u16)) [] False s)
    (at_port k (dae (CLoop 44280) 5 [(44280, 2897)]) h n [] (word_bytes (2897 :: pid_t)) True s)"
proof -
  let ?port = "44280 :: u16" and ?pid = "2897 :: pid_t"
  let ?u = "word_bytes ?port" and ?d = "word_bytes ?pid"
  let ?io = "io0\<lparr>io_accept := 5\<rparr>" and ?read = "io0\<lparr>io_read := GotBytes ?u\<rparr>"
  let ?S = "\<lambda>pc. at_port k (dae pc (-1) []) h n ?u [] False s"
  let ?T = "\<lambda>pc u. at_port k (dae pc 5 []) h n u [] True s"
  have io: "io_socket io0 = -1" "io_accept io0 = -1" "io_write io0 = Wrote 4" "io_uninit io0 = 0"
    by (simp_all add: io0_def)
  have r: "receivePort 0 (GotBytes ?u) = (True, ?port)"
    using receivePort_full [of ?u 0] codec_u16.dec_take [of ?port "[]"] by simp
  have "(sys_step 812 2900)\<^sup>*\<^sup>* (?S CTop) (?S CAccept)"
    by (rule d_client_step [where io = io0 and u = ?u and d = "[]" and c = False])
      (simp_all add: client_thread_def client_streams_def dae_valid io)
  moreover have "(sys_step 812 2900)\<^sup>*\<^sup>* (?S CAccept) (?T CHandle ?u)"
    by (rule d_client_step [where io = ?io and u = ?u and d = "[]" and c = True])
      (simp_all add: client_thread_def client_streams_def dae_valid io connectToClient_def os_open_def
        dae_def daemon1_def daemon0_def io_valid_def fd_result_def fresh_fd_def)
  moreover have "(sys_step 812 2900)\<^sup>*\<^sup>* (?T CHandle ?u) (?T (CLoop 0) ?u)"
    by (rule d_client_step [where io = io0 and u = ?u and d = "[]" and c = True])
      (simp_all add: client_thread_def client_streams_def dae_valid io getClientFd_def)
  moreover have "(sys_step 812 2900)\<^sup>*\<^sup>* (?T (CLoop 0) ?u) (?T (CRead 0) ?u)"
    by (rule d_client_step [where io = io0 and u = ?u and d = "[]" and c = True])
      (simp_all add: client_thread_def client_streams_def dae_valid io)
  moreover have "(sys_step 812 2900)\<^sup>*\<^sup>* (?T (CRead 0) ?u) (?T (CLookup ?port) [])"
    by (rule d_client_step [where io = ?read and u = "[]" and d = "[]" and c = True])
      (simp_all add: client_thread_def client_streams_def dae_valid io stream_read_def r)
  moreover have "(sys_step 812 2900)\<^sup>*\<^sup>* (?T (CLookup ?port) []) (?T (CSend ?port ?pid) [])"
    by (rule d_client_step [where io = io0 and u = "[]" and d = "[]" and c = True])
      (simp_all add: client_thread_def client_streams_def dae_valid io answer_def getPid_def)
  moreover have "(sys_step 812 2900)\<^sup>*\<^sup>* (?T (CSend ?port ?pid) [])
      (at_port k (dae (CLoop ?port) 5 [(?port, ?pid)]) h n [] ?d True s)"
    by (rule d_client_step [where io = io0 and u = "[]" and d = ?d and c = True])
      (simp_all add: client_thread_def client_streams_def dae_valid io sendPid_def wrote_at_most_def)
  ultimately show ?thesis
    unfolding dae_start by (meson rtranclp_trans)
qed

lemma step_read:
  "sys_step 812 2900
    (at_port k d (hun (HReceive 1) RxTop (sh h []) []) 1 [] (word_bytes (2897 :: pid_t)) True s)
    (at_port k d (hun (HPrint 1 2897) RxTop (sh h []) []) 1 [] [] True s)"
proof -
  let ?d = "word_bytes (2897 :: pid_t)"
  have "receivePid \<lparr>sockFd = 6, isConnected = True\<rparr> 0 (GotBytes ?d) = (True, 2897)"
    using receivePid_full [of "\<lparr>sockFd = 6, isConnected = True\<rparr>" ?d 0]
      codec_u32.dec_take [of "2897 :: pid_t" "[]"] by simp
  then have m: "hunter_main hio0 (hun (HReceive 1) RxTop (sh h []) []) = hun (HPrint 1 2897) RxTop (sh h []) []"
    by (simp add: hunter_main_def hio0_def)
  show ?thesis
    by (rule h_main_one [where io = hio0 and u = "[]" and d = "[]"], simp_all only: at_port_simps m)
      (simp_all add: hio0_def valid_iter_def ptpi_init_def hunter_streams_def stream_read_def
        hun_def hunter0_def hunter_init_def)
qed

lemma run_print:
  assumes "cells h 1 = Some p"
  shows "(sys_step 812 2900)\<^sup>*\<^sup>*
    (at_port k d (hun (HReceive 1) RxTop (sh h []) []) 1 [] (word_bytes (2897 :: pid_t)) True s)
    (at_port k d (hun (HInsert 1 2897) RxTop (sh h []) (printPacketInfo p 2897)) 1 [] [] True s)"
    (is "rtranclp _ ?A ?C")
proof -
  let ?B = "at_port k d (hun (HPrint 1 2897) RxTop (sh h []) []) 1 [] [] True s"
  have "hunter_main hio0 (hun (HPrint 1 2897) RxTop (sh h []) []) =
      hun (HInsert 1 2897) RxTop (sh h []) (printPacketInfo p 2897)"
    using assms by (simp add: hunter_main_def)
  then have "sys_step 812 2900 ?B ?C"
    by (intro h_main_one [where io = hio0 and u = "[]" and d = "[]"])
      (simp_all add: hio0_def valid_iter_def ptpi_init_def hunter_streams_def
        hun_def hunter0_def hunter_init_def)
  with step_read show ?thesis by (meson rtranclp.rtrancl_into_rtrancl r_into_rtranclp)
qed

text \<open>The subscription, and the arrival of the packet.\<close>

lemma hook_dns:
  assumes "\<not> daemon_subscribed k" and "packet_hunter_subscribed k" and "packet_hunter_pid k = 2900"
    and "unicasts k = []"
  shows "\<exists>k' m. packet_sniffer_hook good_env good_env (Some dns_reply) k = Inr (NF_ACCEPT, k') \<and>
    unicasts k' = [(2900, m, 36)] \<and> pckt_key (pckt_of_mem (nlmsg_data m)) =
      (0x0302000A, 0x0F02000A, 53, 44280, PROTO_UDP)"
proof -
  have key: "packet_report (Some dns_reply) = Some (0x0302000A, 0x0F02000A, 53, 44280, PROTO_UDP)"
    by (simp add: packet_report_def dns_reply_def sizeof_iphdr_def IPPROTO_TCP_def IPPROTO_UDP_def be16_dns)
  obtain k' us where h: "packet_sniffer_hook good_env good_env (Some dns_reply) k = Inr (NF_ACCEPT, k')"
      "unicasts k' = us" "map unicast_key us = [(2900, 0x0302000A, 0x0F02000A, 53, 44280, PROTO_UDP)]"
    using hook_reports_eq [OF env_ok_good env_ok_good, of "Some dns_reply" k] key assms
    by (auto simp: recipients_def)
  have "map (\<lambda>(pid, m, r). r) (unicasts k') = [36]"
    using h(1) assms
    by (auto simp: packet_sniffer_hook_def dns_reply_def hook_ports_def hook_notify_def
        create_message_def send_packet_info_to_user_def good_env_def Let_def pr_def kfree_def
        IPPROTO_TCP_def IPPROTO_UDP_def sizeof_iphdr_def)
  then have "length us = 1" "map (\<lambda>(pid, m, r). r) us = [36]" using h(2) by auto
  then obtain m where "us = [(2900, m, 36)]"
    using h(3) by (auto simp: length_Suc_conv unicast_key_def)
  then show ?thesis using h by (auto simp: unicast_key_def)
qed

lemma run_subscribe:
  "\<exists>k1. (sys_step 812 2900)\<^sup>*\<^sup>* sys1
      (at_port k1 daemon1 (hun HTop RxTop (sh heap_init []) []) 0 [] [] False []) \<and>
    kernel_inv k1 \<and> hook_registered k1 \<and> \<not> daemon_subscribed k1 \<and> packet_hunter_subscribed k1 \<and>
    packet_hunter_pid k1 = 2900 \<and> unicasts k1 = []"
proof -
  let ?msg = "''packet_hunter_subscribe''"
  let ?B = "\<lambda>k pc rx. at_port k daemon1 (hun pc rx (sh heap_init []) []) 0 [] [] False []"
  have k0: "nl_sock_open kernel1" "hook_registered kernel1" "\<not> daemon_subscribed kernel1"
      "\<not> packet_hunter_subscribed kernel1" "unicasts kernel1 = []"
    by (simp_all add: kernel1_def sniffer_init_def kernel_static_def pr_def)
  have inv: "kernel_inv kernel1"
    using knl.inv_init [of kernel1] by (simp add: kernel_loaded_def kernel1_def)
  have mem: "?msg \<in> set program_commands" by (simp add: program_commands_def)
  have c: "c_string (nlmsg_data (message_bytes 2900 ?msg)) = Some ?msg"
    using command_text [OF mem] .
  obtain k1 where k1: "nl_recv_msg good_env (Some (message_bytes 2900 ?msg)) kernel1 = Inr k1"
      "hook_registered k1" "\<not> daemon_subscribed k1" "packet_hunter_subscribed k1"
      "packet_hunter_pid k1 = 2900" "unicasts k1 = []"
    using k0 message_bytes_command [of 2900 ?msg]
    by (auto simp: nl_recv_cases [OF c] parse_command_def pr_def)
  have cmd: "commands_done good_env [message_bytes 2900 ?msg] kernel1 k1"
    using k0(1) k1(1) by (simp add: commands_done_def env_sized_def good_env_def)
  have m: "hunter_main hio0 hunter0 = hun HSpawn RxIdle (sh heap_init []) []"
    by (simp add: hunter0_def hunter_init_def hio0_def hunter_exec hun_def sh_def)
  have h0: "hcommands hunter0 = []" "hmap hunter0 = ptpi_init" "hmain hunter0 = HSubscribe"
      "hcommands (hun HSpawn RxIdle (sh heap_init []) []) = [message_bytes 2900 ?msg]"
      "hio_pid hio0 = 2900" "hio_ord hio0 = []"
    by (simp_all add: hun_def hunter0_def hunter_init_def hio0_def)
  have "sys_step 812 2900 sys1 (sys1\<lparr>kern := k1, hproc := hunter_main hio0 (hproc sys1),
      up := [], down := []\<rparr>)"
    by (rule h_main [where env = good_env])
      (use cmd in \<open>simp_all add: sys1_def h0 m valid_iter_def ptpi_init_def hunter_streams_def\<close>)
  then have "(sys_step 812 2900)\<^sup>*\<^sup>* sys1 (?B k1 HSpawn RxIdle)"
    by (auto simp: sys1_def at_port_def m)
  moreover have "(sys_step 812 2900)\<^sup>*\<^sup>* (?B k1 HSpawn RxIdle) (?B k1 HTop RxTop)"
    by (rule h_main_quiet [where io = hio0 and u = "[]" and d = "[]"])
      (simp_all add: hio0_def valid_iter_def ptpi_init_def hunter_streams_def hunter_main_def
        hun_def hunter0_def hunter_init_def)
  moreover have "kernel_inv k1"
    using commands_one [OF cmd mem inv] by blast
  ultimately show ?thesis using k1 by (meson rtranclp_trans)
qed

lemma run_answered:
  "\<exists>k h p. (sys_step 812 2900)\<^sup>*\<^sup>* sys1
      (at_port k (dae (CLoop 44280) 5 [(44280, 2897)]) (hun (HReceive 1) RxTop (sh h []) []) 1
        [] (word_bytes (2897 :: pid_t)) True [dns_reply]) \<and>
    cells h 1 = Some p \<and> dst_port p = 44280"
proof -
  obtain k1 where 1: "(sys_step 812 2900)\<^sup>*\<^sup>* sys1
      (at_port k1 daemon1 (hun HTop RxTop (sh heap_init []) []) 0 [] [] False [])"
    and k1: "kernel_inv k1" "hook_registered k1" "\<not> daemon_subscribed k1" "packet_hunter_subscribed k1"
      "packet_hunter_pid k1 = 2900" "unicasts k1 = []"
    using run_subscribe by blast
  obtain k2 m where k2: "packet_sniffer_hook good_env good_env (Some dns_reply) k1 = Inr (NF_ACCEPT, k2)"
      "unicasts k2 = [(2900, m, 36)]" "pckt_key (pckt_of_mem (nlmsg_data m)) =
        (0x0302000A, 0x0F02000A, 53, 44280, PROTO_UDP)"
    using hook_dns [OF k1(3-6)] by blast
  let ?p = "pckt_of_mem (nlmsg_data m)"
  have env: "env_sized good_env" by (simp add: env_sized_def good_env_def)
  have inv: "kernel_inv k2"
    using kernel_inv_hook [OF k1(1) env env k2(1)] .
  have m: "length m = 36" "nlmsg_len (hdr_of_mem m) = 36"
    using inv k2(2) by (simp_all add: kernel_inv_def well_formed_unicast_def)
  have p: "dst_port ?p = 44280" "\<not> is_stop_pckt ?p"
    using k2(3) by (auto simp: pckt_key_def is_stop_pckt_def)
  have dl: "delivered 2900 k2 = [m]"
    using k2(2) by (simp add: delivered_def)
  let ?h = "snd (heap_new ?p heap_init)"
  have 2: "(sys_step 812 2900)\<^sup>*\<^sup>*
      (at_port k1 daemon1 (hun HTop RxTop (sh heap_init []) []) 0 [] [] False [])
      (at_port k2 daemon1 (hun HTop RxTop (sh heap_init []) []) 0 [] [] False [dns_reply])"
    using arrive [OF _ env env, of "at_port k1 daemon1 (hun HTop RxTop (sh heap_init []) []) 0 [] [] False []"
        dns_reply NF_ACCEPT k2 812 2900] k1(2) k2(1)
    by (auto simp: at_port_def)
  note 3 = run_receive [OF dl m refl p(2) refl, of daemon1 "[dns_reply]"]
  note 4 = run_ask [OF first_heap(1) p(1), of k2 daemon1 "[dns_reply]"]
  note 5 = run_answer [of k2 "hun (HReceive 1) RxTop (sh ?h []) []" 1 "[dns_reply]"]
  show ?thesis
    using rtranclp_trans [OF 1 rtranclp_trans [OF 2 rtranclp_trans [OF 3 rtranclp_trans [OF 4 5]]]]
      first_heap(1) p(1) by blast
qed

lemma run_prints:
  "\<exists>S p. (sys_step 812 2900)\<^sup>*\<^sup>* sys1 S \<and> hscreen (hproc S) = printPacketInfo p 2897 \<and>
    dst_port p = 44280 \<and> danswers (dproc S) = [(44280, 2897)] \<and> seen S = [dns_reply] \<and>
    hmain (hproc S) = HInsert 1 2897"
proof -
  obtain k h p where r: "(sys_step 812 2900)\<^sup>*\<^sup>* sys1
      (at_port k (dae (CLoop 44280) 5 [(44280, 2897)]) (hun (HReceive 1) RxTop (sh h []) []) 1
        [] (word_bytes (2897 :: pid_t)) True [dns_reply])"
    and p: "cells h 1 = Some p" "dst_port p = 44280"
    using run_answered by blast
  let ?S = "at_port k (dae (CLoop 44280) 5 [(44280, 2897)])
    (hun (HInsert 1 2897) RxTop (sh h []) (printPacketInfo p 2897)) 1 [] [] True [dns_reply]"
  have "(sys_step 812 2900)\<^sup>*\<^sup>* sys1 ?S"
    using rtranclp_trans [OF r run_print [OF p(1)]] .
  then show ?thesis
    using p(2) by (intro exI [of _ ?S] exI [of _ p] conjI) simp_all
qed

end
