(* ===== verification/HunterLog.thy ===== *)
theory HunterLog
  imports PacketHunter
begin

text \<open>
  The packet hunter's two outputs against each other: what is on the screen when the program ends and what
  it has saved. The log is the list of packets with their processes in the order they were printed.
  The screen is the lines of packets on it.
\<close>

definition screen_of :: "(pckt_info \<times> pid_t) list \<Rightarrow> string" where
  "screen_of log = concat (map (\<lambda>(p, pid). printPacketInfo p pid) log)"

definition file_of :: "(pckt_info \<times> pid_t) list \<Rightarrow> string" where
  "file_of log = concat (map (\<lambda>(p, pid). save_line pid p) log)"

text \<open>What one action of the main thread prints and writes.\<close>

lemma hunter_main_output:
  assumes "hunter_mem h" and "valid_iter (hio_ord io) (hmap h)"
  shows "hscreen (hunter_main io h) = hscreen h @
      screen_of (case hmain h of HPrint a pid \<Rightarrow> [(the (cells (heap (hsh h)) a), pid)] | _ \<Rightarrow> []) \<and>
    (hfile (hunter_main io h) = hfile h \<or> hmain h = HSave \<and>
      (\<exists>path. hfile (hunter_main io h) = None \<or> hfile (hunter_main io h) = Some (path,
        file_of (concat (map (\<lambda>(pid, as). map (\<lambda>a. (the (cells (heap (hsh h)) a), pid)) as)
          (getMap (hio_ord io) (hmap h)))))))"
proof (cases "hmain h")
  case (HPrint a pid)
  then have "a \<in> live (heap (hsh h))"
    using hunter_mem_owned [OF assms(1)] by (auto simp: hunter_holders_def)
  then show ?thesis
    using HPrint by (auto simp: hunter_main_def screen_of_def)
next
  case HSave
  let ?h = "heap (hsh h)" and ?pss = "getMap (hio_ord io) (hmap h)"
  have l: "owned_ok ?h (concat (map snd ?pss))"
    using map_owned [OF _ assms(2)] hunter_mem_owned [OF assms(1)] by (simp add: held_def)
  have "concat (map (\<lambda>(pid, as). concat (map (\<lambda>a. save_line pid (the (cells ?h a))) as)) pss) =
      file_of (concat (map (\<lambda>(pid, as). map (\<lambda>a. (the (cells ?h a), pid)) as) pss))" for pss
    by (induction pss) (auto simp: file_of_def comp_def)
  then show ?thesis
    using HSave write_map_eq [OF l, of "[]"]
    by (simp add: hunter_main_def savePacketMapToFile_def screen_of_def Let_def)
next
  case HSubscribe
  have "hscreen (snd (hunter_command io msg h)) = hscreen h \<and>
      hfile (snd (hunter_command io msg h)) = hfile h" for msg
    by (simp add: hunter_command_def split: prod.split bool.split option.split)
  then show ?thesis
    using HSubscribe by (simp add: hunter_main_def screen_of_def split_beta)
next
  case HUnsubscribe
  have "hscreen (snd (hunter_command io msg h)) = hscreen h \<and>
      hfile (snd (hunter_command io msg h)) = hfile h" for msg
    by (simp add: hunter_command_def split: prod.split bool.split option.split)
  then show ?thesis
    using HUnsubscribe by (simp add: hunter_main_def screen_of_def split_beta)
qed (auto simp: hunter_main_def screen_of_def split_beta Let_def
      split: option.split sum.split signal_death.split bool.split)

section \<open>The log in the store\<close>

text \<open>The entry printed and not stored yet, and the entries that can be stored.\<close>

definition pending :: "hunter \<Rightarrow> (pckt_info \<times> pid_t) list" where
  "pending s = (case hmain s of HInsert a pid \<Rightarrow> [(the (cells (heap (hsh s)) a), pid)] | _ \<Rightarrow> [])"

definition by_pid :: "pid_t \<Rightarrow> (pckt_info \<times> pid_t) list \<Rightarrow> (pckt_info \<times> pid_t) list" where
  "by_pid pid log = filter (\<lambda>l. snd l = pid) log"

definition known :: "(pckt_info \<times> pid_t) list \<Rightarrow> (pckt_info \<times> pid_t) list" where
  "known log = filter (\<lambda>l. snd l \<noteq> -1) log"

definition entries :: "hunter \<Rightarrow> pid_t \<Rightarrow> (pckt_info \<times> pid_t) list" where
  "entries s pid = map (\<lambda>a. (the (cells (heap (hsh s)) a), pid)) (packets_at (hmap s) pid)"

definition recorded :: "hunter \<Rightarrow> (pckt_info \<times> pid_t) list \<Rightarrow> bool" where
  "recorded s log \<longleftrightarrow> hfile s = None \<and> pktmap (hmap s) (-1) = None \<and>
     (\<forall>pid. pid \<noteq> -1 \<longrightarrow> by_pid pid log = entries s pid @ by_pid pid (pending s))"

text \<open>A file that groups the log by process, each process once, in the order of printing.\<close>

definition saved_as :: "(pckt_info \<times> pid_t) list \<Rightarrow> string \<Rightarrow> bool" where
  "saved_as log text \<longleftrightarrow>
     (\<exists>pids. distinct pids \<and> -1 \<notin> set pids \<and> snd ` set (known log) \<subseteq> set pids \<and>
        text = file_of (concat (map (\<lambda>pid. by_pid pid log) pids)))"

definition log_inv :: "hunter \<Rightarrow> bool" where
  "log_inv s \<longleftrightarrow> hunter_inv s \<and>
     (\<exists>log. hscreen s = screen_of log \<and> distinct (map (pckt_key \<circ> fst) (known log)) \<and>
        (\<not> hunter_ended (hmain s) \<longrightarrow> recorded s log) \<and>
        (\<forall>path content. hfile s = Some (path, content) \<longrightarrow> saved_as log content))"

text \<open>The actions that neither print nor store nor write.\<close>

lemma hunter_main_quiet:
  assumes "hunter_mem s" and "\<not> hunter_ended (hmain (hunter_main io s))"
    and "\<forall>a pid. hmain s \<noteq> HPrint a pid \<and> hmain s \<noteq> HInsert a pid"
  shows "hscreen (hunter_main io s) = hscreen s \<and> hfile (hunter_main io s) = hfile s \<and>
    hmap (hunter_main io s) = hmap s \<and> pending (hunter_main io s) = [] \<and> pending s = [] \<and>
    (\<forall>a \<in> stored (hmap s). cells (heap (hsh (hunter_main io s))) a = cells (heap (hsh s)) a)"
proof (cases "hmain s")
  case HClean
  have "a \<notin> set (queue (mqueue (hsh s)))" if "a \<in> stored (hmap s)" for a
    using hunter_mem_owned [OF assms(1)] that by (auto simp: hunter_holders_def)
  then show ?thesis
    using HClean by (simp add: hunter_main_def pending_def cleanMessageQueue_eq cells_delete_all)
next
  case HSubscribe
  then show ?thesis
    by (simp add: hunter_main_def pending_def hunter_command_def split: prod.split bool.split option.split)
next
  case HUnsubscribe
  then show ?thesis
    by (simp add: hunter_main_def pending_def hunter_command_def split: prod.split bool.split option.split)
next
  case HSave
  then show ?thesis
    using assms(2) by (auto simp: hunter_main_def split: option.splits)
qed (use assms(2,3) in \<open>auto simp: hunter_main_def pending_def split_beta
      split: option.split sum.split signal_death.split bool.split\<close>)

lemma log_cong:
  assumes "recorded s log" and "hfile t = hfile s" and "hmap t = hmap s" and "pending t = pending s"
    and "\<And>a. a \<in> stored (hmap s) \<Longrightarrow> cells (heap (hsh t)) a = cells (heap (hsh s)) a"
  shows "recorded t log"
proof -
  have "entries t pid = entries s pid" for pid
    using assms(3,5) stored_in by (fastforce simp: entries_def)
  then show ?thesis using assms(1-4) by (simp add: recorded_def)
qed

lemma known_entries:
  assumes "recorded s log" and "pending s = []" and "(p, pid) \<in> set (known log)"
  shows "(p, pid) \<in> set (entries s pid)"
proof -
  have "pid \<noteq> -1" "(p, pid) \<in> set (by_pid pid log)"
    using assms(3) by (auto simp: known_def by_pid_def)
  moreover have "by_pid pid log = entries s pid"
    using assms(1,2) calculation(1) by (simp add: recorded_def) (simp add: by_pid_def)
  ultimately show ?thesis by simp
qed

text \<open>What is saved.\<close>

lemma saved_log:
  assumes "recorded s log" and "pending s = []" and iter: "valid_iter ord (hmap s)"
  shows "saved_as log (file_of (concat (map (\<lambda>(pid, as). map (\<lambda>a. (the (cells (heap (hsh s)) a), pid)) as)
    (getMap ord (hmap s)))))"
proof -
  have none: "-1 \<notin> set ord"
    using assms(1) iter by (auto simp: recorded_def valid_iter_def)
  have "by_pid pid log = map (\<lambda>a. (the (cells (heap (hsh s)) a), pid)) (the (pktmap (hmap s) pid))"
    if "pid \<in> set ord" for pid
  proof -
    have "pktmap (hmap s) pid \<noteq> None" "pid \<noteq> -1"
      using that iter none by (auto simp: valid_iter_def)
    then show ?thesis
      using assms(1,2) by (auto simp: recorded_def entries_def packets_at_def by_pid_def)
  qed
  then have "map (\<lambda>pid. by_pid pid log) ord =
      map (\<lambda>(pid, as). map (\<lambda>a. (the (cells (heap (hsh s)) a), pid)) as) (getMap ord (hmap s))"
    by (simp add: getMap_def)
  moreover have "snd ` set (known log) \<subseteq> set ord"
  proof safe
    fix p pid
    assume "(p, pid) \<in> set (known log)"
    then have "entries s pid \<noteq> []"
      using known_entries [OF assms(1,2)] by fastforce
    then show "snd (p, pid) \<in> set ord"
      using iter by (auto simp: entries_def packets_at_def valid_iter_def split: option.splits)
  qed
  moreover have "distinct ord" using iter by (simp add: valid_iter_def)
  ultimately show ?thesis
    using none unfolding saved_as_def by metis
qed

section \<open>Every step keeps the log\<close>

text \<open>Printing adds an entry of a packet that no known entry equals, storing keeps the log.\<close>

lemma log_print:
  assumes mem: "hunter_mem s" and pc: "hmain s = HPrint a pid" and rec: "recorded s log"
    and dist: "distinct (map (pckt_key \<circ> fst) (known log))"
  shows "\<exists>p. cells (heap (hsh s)) a = Some p \<and> recorded (hunter_main io s) (log @ [(p, pid)]) \<and>
    distinct (map (pckt_key \<circ> fst) (known (log @ [(p, pid)])))"
proof -
  have none: "pending s = []" using pc by (simp add: pending_def)
  obtain p where p: "cells (heap (hsh s)) a = Some p"
    using hunter_mem_owned [OF mem] pc by (fastforce simp: hunter_holders_def)
  have new: "pckt_key (the (cells (heap (hsh s)) b)) \<noteq> pckt_key p" if "b \<in> stored (hmap s)" for b
  proof -
    have "map_option pckt_key (cells (heap (hsh s)) b) \<noteq> Some (pckt_key p)"
      using mem pc p that by (simp add: hunter_mem_def new_key_def)
    moreover have "b \<in> live (heap (hsh s))"
      using hunter_mem_owned [OF mem] that by blast
    ultimately show ?thesis by auto
  qed
  have "pckt_key p \<notin> pckt_key ` fst ` set (known log)"
  proof
    assume "pckt_key p \<in> pckt_key ` fst ` set (known log)"
    then obtain q pid' where q: "(q, pid') \<in> set (known log)" "pckt_key q = pckt_key p" by auto
    then show False
      using known_entries [OF rec none q(1)] new stored_in by (fastforce simp: entries_def)
  qed
  then have "distinct (map (pckt_key \<circ> fst) (known (log @ [(p, pid)])))"
    using dist by (auto simp: known_def image_image)
  moreover have "recorded (hunter_main io s) (log @ [(p, pid)])"
    using rec none p pc
    by (auto simp: recorded_def hunter_main_def pending_def entries_def by_pid_def)
  ultimately show ?thesis using p by blast
qed

lemma log_insert:
  assumes pc: "hmain s = HInsert a pid" and rec: "recorded s log"
  shows "recorded (hunter_main io s) log"
proof -
  have "pktmap (insertPacketInfo pid a (hmap s)) (-1) = None"
    using rec by (auto simp: insertPacketInfo_def Let_def recorded_def)
  then show ?thesis
    using rec pc
    by (auto simp: recorded_def hunter_main_def pending_def entries_def by_pid_def insert_view)
qed

lemma log_inv_main:
  assumes inv: "log_inv s" and run: "\<not> hunter_ended (hmain s)" and iter: "valid_iter (hio_ord io) (hmap s)"
  shows "log_inv (hunter_main io s)"
proof -
  let ?t = "hunter_main io s"
  have mem: "hunter_mem s" and hinv: "hunter_inv ?t"
    using inv run hunter_inv_step [OF hmain_act [OF run iter]]
    by (simp_all add: log_inv_def hunter_inv_def hunter_ok_def)
  obtain log where log: "hscreen s = screen_of log" "distinct (map (pckt_key \<circ> fst) (known log))"
      "recorded s log"
    using inv run by (auto simp: log_inv_def)
  note out = hunter_main_output [OF mem iter]
  have keep: "log_inv ?t" if "recorded ?t l" "hscreen ?t = screen_of l"
    "distinct (map (pckt_key \<circ> fst) (known l))" for l
    using that hinv unfolding log_inv_def by (auto simp: recorded_def)
  consider (print) a pid where "hmain s = HPrint a pid" | (store) a pid where "hmain s = HInsert a pid"
    | (quiet) "\<not> hunter_ended (hmain ?t)" "\<forall>a pid. hmain s \<noteq> HPrint a pid \<and> hmain s \<noteq> HInsert a pid"
    | (stops) "hunter_ended (hmain ?t)" "\<forall>a pid. hmain s \<noteq> HPrint a pid \<and> hmain s \<noteq> HInsert a pid"
    by blast
  then show ?thesis
  proof cases
    case print
    obtain p where p: "cells (heap (hsh s)) a = Some p" "recorded ?t (log @ [(p, pid)])"
        "distinct (map (pckt_key \<circ> fst) (known (log @ [(p, pid)])))"
      using log_print [OF mem print log(3,2)] by blast
    show ?thesis
      using keep [OF p(2) _ p(3)] out log(1) print p(1) by (simp add: screen_of_def)
  next
    case store
    then show ?thesis
      using keep [OF log_insert [OF store log(3)]] out log(1,2) by (simp add: screen_of_def)
  next
    case quiet
    note q = hunter_main_quiet [OF mem quiet]
    have "recorded ?t log" by (rule log_cong [OF log(3)]) (use q in auto)
    then show ?thesis using keep q log(1,2) by simp
  next
    case stops
    have "hscreen ?t = screen_of log"
      using out stops(2) log(1) by (auto simp: screen_of_def split: hunter_pc.splits)
    moreover have "saved_as log content" if "hfile ?t = Some (path, content)" for path content
      using out that log(3) saved_log [OF log(3) _ iter] by (auto simp: recorded_def pending_def)
    ultimately show ?thesis
      using log(2) hinv stops(1) unfolding log_inv_def by blast
  qed
qed

lemma log_inv_rx:
  assumes inv: "log_inv s" and run: "\<not> hunter_ended (hmain s)"
  shows "log_inv (hunter_rx g r s)"
proof -
  let ?t = "hunter_rx g r s"
  obtain pc sh where st: "recvPacketInfoThread (hnl s) g r (hrx s, hsh s) = (pc, sh)" by fastforce
  have t: "hsh ?t = sh" "hmain ?t = hmain s" "hmap ?t = hmap s" "hscreen ?t = hscreen s" "hfile ?t = hfile s"
    using st by (simp_all add: hunter_rx_def)
  have "hunter_mem s" using inv run by (simp add: log_inv_def hunter_inv_def hunter_ok_def)
  note own = hunter_mem_owned [OF this]
  have same: "cells (heap sh) b = cells (heap (hsh s)) b" if "b \<in> stored (hmap s) \<union> set (pc_held (hmain s))" for b
  proof -
    have "b \<in> live (heap (hsh s))" using own that by (auto simp: hunter_holders_def)
    then show ?thesis using rx_fresh [OF _ st] own by blast
  qed
  have "pending ?t = pending s"
    using same by (auto simp: pending_def t split: hunter_pc.split)
  then have "recorded ?t log" if "recorded s log" for log
    using log_cong [OF that] same t by simp
  moreover have "hunter_inv ?t"
    using inv hunter_inv_step [OF hreceive [OF run]] by (simp add: log_inv_def)
  ultimately show ?thesis
    using inv t run unfolding log_inv_def by auto
qed

lemma log_inv_step: "hunter_step s t \<Longrightarrow> log_inv s \<Longrightarrow> log_inv t"
proof (induction rule: hunter_step.induct)
  case (hsignal s)
  have "pending (hunter_signal s) = pending s"
    by (simp add: pending_def hunter_signal_def handleSignal_def split: hunter_pc.split)
  then have "recorded (hunter_signal s) log = recorded s log" for log
    by (simp add: recorded_def hunter_signal_def handleSignal_def entries_def)
  then show ?case
    using hsignal hunter_inv_step [OF hunter_step.hsignal] by (simp add: log_inv_def hunter_signal_def)
qed (simp_all add: log_inv_main log_inv_rx)

lemma log_inv_started:
  assumes "hunter_started s"
  shows "log_inv s"
proof -
  obtain nl c where s: "s = hunter_init nl c" using assms by (auto simp: hunter_started_def)
  have "recorded s []" "hscreen s = screen_of []" "hfile s = None"
    by (simp_all add: s recorded_def hunter_init_def ptpi_init_def screen_of_def by_pid_def entries_def
        pending_def packets_at_def)
  then show ?thesis
    using hunter_inv_started [OF assms] unfolding log_inv_def
    by (intro conjI exI [of _ "[]"]) (simp_all add: known_def)
qed

interpretation logi: transition_invariant hunter_started hunter_step log_inv
  by unfold_locales (auto intro: log_inv_step log_inv_started)

section \<open>What is saved is what was shown\<close>

text \<open>
  C13: In every run of the hunter the packet lines on the screen are a log in which no packet with a known process comes
  twice, and a file it has saved is that log: every entry with a known process, grouped by process, each
  process once, in the order in which the lines were shown, and nothing else.
\<close>

theorem saved_is_printed:
  assumes "hunter_started s0" and "hunter_step\<^sup>*\<^sup>* s0 s"
  shows "\<exists>log. hscreen s = concat (map (\<lambda>(p, pid). printPacketInfo p pid) log) \<and>
    distinct (map (pckt_key \<circ> fst) (known log)) \<and>
    (\<forall>path text. hfile s = Some (path, text) \<longrightarrow>
      (\<exists>pids. distinct pids \<and> -1 \<notin> set pids \<and> snd ` set (known log) \<subseteq> set pids \<and>
        text = concat (map (\<lambda>(p, pid). save_line pid p) (concat (map (\<lambda>pid. by_pid pid log) pids)))))"
  using logi.inv_reachable [OF assms] by (auto simp: log_inv_def screen_of_def saved_as_def file_of_def)

definition hio_save :: hunter_io where
  "hio_save = hio1\<lparr>hio_choice := CHR ''y'', hio_input := ''packets.txt''\<rparr>"

lemma run_save:
  "\<exists>s. hrun [HSignal, HMain hio1, HMain hio1, HReceiver [] ReadError, HMain hio1, HMain hio1,
      HMain hio_save, HMain hio_save] one_packet = Some s \<and>
    hscreen s = printPacketInfo example_pckt 2897 \<and>
    hfile s = Some (''packets.txt'', save_line 2897 example_pckt)"
  by (simp add: one_packet_def hunter0_def hunter_init_def hio0_def hio1_def hio_save_def
      savePacketMapToFile_def heap_new_def heap_init_def nullptr_def hunter_exec)

theorem saved_is_printed_witness:
  "\<exists>s log pids. hunter_step\<^sup>*\<^sup>* hunter0 s \<and> hfile s = Some (''packets.txt'', save_line 2897 example_pckt) \<and>
     printPacketInfo example_pckt 2897 = concat (map (\<lambda>(p, pid). printPacketInfo p pid) log) \<and>
     save_line 2897 example_pckt =
       concat (map (\<lambda>(p, pid). save_line pid p) (concat (map (\<lambda>pid. by_pid pid log) pids)))"
proof -
  obtain s where s: "hunter_step\<^sup>*\<^sup>* hunter0 s" "hscreen s = printPacketInfo example_pckt 2897"
      "hfile s = Some (''packets.txt'', save_line 2897 example_pckt)"
    using run_save hrun_reach reach_one_packet by (metis rtranclp_trans)
  then show ?thesis
    using saved_is_printed [OF hunter0_started s(1)] by metis
qed

end
