(* ===== verification/SystemLog.thy ===== *)
theory SystemLog
  imports SystemRun HunterLog
begin

text \<open>
  What the user of the packet hunter sees. In every run of the whole system a line on the screen
  shows a packet the kernel was called with and the process the daemon named for its port: messages
  are not made up on the way, and questions and answers never get out of step.
\<close>

section \<open>Where packets come from\<close>

definition genuine :: "sk_buff list \<Rightarrow> pckt_info \<Rightarrow> bool" where
  "genuine sks p \<longleftrightarrow> (\<exists>skb \<in> set sks. packet_report (Some skb) = Some (pckt_key p))"

lemma genuine_mono: "genuine sks p \<Longrightarrow> set sks \<subseteq> set sks' \<Longrightarrow> genuine sks' p"
  by (auto simp: genuine_def)

definition traffic :: "system \<Rightarrow> bool" where
  "traffic S \<longleftrightarrow>
     (\<forall>u \<in> set (unicasts (kern S)). (\<exists>pid. stop_to pid u) \<or>
        (\<exists>skb \<in> set (seen S). packet_report (Some skb) = Some (snd (unicast_key u))))"

lemma commands_add_stops:
  assumes "commands_done env ds k k'" and "kernel_inv k"
    and "ds = [] \<or> (\<exists>msg \<in> set program_commands. ds = [message_bytes pid msg])"
  shows "adds (\<lambda>u. \<exists>q. stop_to q u) k k'"
  using assms(3)
proof
  assume "ds = []"
  then show ?thesis using assms(1) by (simp add: adds_refl)
next
  assume "\<exists>msg \<in> set program_commands. ds = [message_bytes pid msg]"
  then obtain msg where m: "msg \<in> set program_commands" "ds = [message_bytes pid msg]" by blast
  then have "adds (\<lambda>u. \<exists>c. parse_command msg = Unsubscribe c \<and> stop_to (slot_pid c k) u) k k'"
    using commands_one [OF _ m(1) assms(2)] assms(1) by blast
  then show ?thesis by (rule adds_mono) blast
qed

lemma traffic_commands:
  assumes "commands_done env ds (kern S) k'" and "kernel_inv (kern S)" and "traffic S"
    and "ds = [] \<or> (\<exists>msg \<in> set program_commands. ds = [message_bytes pid msg])"
    and "kern T = k'" and "seen T = seen S"
  shows "traffic T"
  using adds_set [OF commands_add_stops [OF assms(1,2,4)]] assms(3,5,6)
  unfolding traffic_def by metis

lemma traffic_step:
  assumes "sys_step dp hp S T" and "parts_ok S" and "traffic S"
  shows "traffic T"
  using assms(1)
proof (cases rule: sys_step.cases)
  case (arrive e1 e2 skb v k')
  have a: "u \<in> set (unicasts k') \<Longrightarrow> u \<in> set (unicasts (kern S)) \<or>
      packet_report (Some skb) = Some (snd (unicast_key u))" for u
    using adds_set [OF hook_adds [OF arrive(5,3,4)], of u] by auto
  show ?thesis
    unfolding traffic_def
  proof
    fix u
    assume "u \<in> set (unicasts (kern T))"
    then show "(\<exists>pid. stop_to pid u) \<or>
        (\<exists>skb \<in> set (seen T). packet_report (Some skb) = Some (snd (unicast_key u)))"
      using a [of u] arrive(1) assms(3) by (auto simp: traffic_def)
  qed
next
  case unload_module
  then show ?thesis
    using assms(3) by (simp add: traffic_def sniffer_exit_def Let_def)
next
  case (d_main io env k')
  then show ?thesis
    using traffic_commands [OF d_main(5) _ assms(3) own_commands [OF d_main(4)]] assms(2)
    by (simp add: parts_ok_def)
next
  case (h_main io env k' u d)
  then show ?thesis
    using traffic_commands [OF h_main(5) _ assms(3) hunter_own_commands [OF h_main(4)]] assms(2)
    by (simp add: parts_ok_def)
qed (use assms(3) in \<open>simp_all add: traffic_def\<close>)

text \<open>A message that is received is a terminate message or reports a packet.\<close>

lemma delivered_unicast: "m \<in> set (delivered pid k) \<Longrightarrow> \<exists>r. (pid, m, r) \<in> set (unicasts k)"
  by (auto simp: delivered_def)

lemma stop_to_pckt: "stop_to q (pid, m, r) \<Longrightarrow> q = pid \<and> is_stop_pckt (pckt_of_mem (nlmsg_data m))"
  by (simp add: stop_to_def unicast_key_def pckt_key_def is_stop_pckt_def)

lemma delivered_wire:
  assumes "kernel_inv k" and "m \<in> set (delivered pid k)"
  shows "length m = 36 \<and> nlmsg_len (hdr_of_mem m) = 36"
  using assms delivered_unicast [OF assms(2)]
  by (fastforce simp: kernel_inv_def list_all_iff well_formed_unicast_def)

lemma delivered_genuine:
  assumes "traffic S" and "m \<in> set (delivered pid (kern S))"
  shows "is_stop_pckt (pckt_of_mem (nlmsg_data m)) \<or> genuine (seen S) (pckt_of_mem (nlmsg_data m))"
proof -
  obtain r where "(pid, m, r) \<in> set (unicasts (kern S))"
    using delivered_unicast [OF assms(2)] by blast
  then show ?thesis
    using assms(1) stop_to_pckt [of _ pid m r]
    by (fastforce simp: traffic_def genuine_def unicast_key_def)
qed

text \<open>One action of a receiving thread on such messages: what it allocates and what it queues.\<close>

lemma rx_new_cell:
  assumes "recvPacketInfoThread c g r (pc, s) = (pc', s')" and "net_recv (delivered pid k) n pc r n'"
    and "kernel_inv k" and "cells (heap s') a = Some p"
  shows "cells (heap s) a = Some p \<or>
    (pc = RxRecv \<and> (\<exists>m \<in> set (delivered pid k). p = pckt_of_mem (nlmsg_data m)))"
proof (cases "pc = RxRecv \<and> r \<noteq> ReadError")
  case True
  then have n: "n < length (delivered pid k)" "r = GotBytes (delivered pid k ! n)"
    using assms(2) by (simp_all add: net_recv_def)
  obtain m where m: "m \<in> set (delivered pid k)" "r = GotBytes m"
    using nth_mem [OF n(1)] n(2) by blast
  have "receivePacketInfo c g r (heap s) = heap_new (pckt_of_mem (nlmsg_data m)) (heap s)"
    using receive_wire delivered_wire [OF assms(3) m(1)] m(2) by blast
  then show ?thesis
    using assms(1,4) True m(1) by (auto simp: heap_new_def Let_def split: if_splits)
next
  case False
  then show ?thesis
    using assms(1,4)
    by (cases pc) (auto simp: receivePacketInfo_def split: option.splits if_splits)
qed

lemma rx_queued:
  assumes "recvPacketInfoThread c g r (pc, s) = (pc', s')" and "a \<in> set (queue (mqueue s'))"
  shows "a \<in> set (queue (mqueue s)) \<or>
    (pc = RxHave a \<and> (\<exists>p. cells (heap s) a = Some p \<and> \<not> is_stop_pckt p) \<and> heap s' = heap s)"
  using assms
  by (cases pc) (auto simp: mq_push_def Let_def split: option.splits if_splits prod.splits)

section \<open>The packets the hunter holds\<close>

text \<open>The packets that can reach the screen: queued, held by the main thread, or stored.\<close>

definition in_use :: "hunter \<Rightarrow> ptr set" where
  "in_use h = set (queue (mqueue (hsh h))) \<union> set (pc_held (hmain h)) \<union> stored (hmap h)"

definition packets_ok :: "system \<Rightarrow> bool" where
  "packets_ok S \<longleftrightarrow>
     (\<forall>a p. cells (heap (hsh (hproc S))) a = Some p \<longrightarrow> is_stop_pckt p \<or> genuine (seen S) p) \<and>
     (\<forall>a \<in> in_use (hproc S). \<forall>p. cells (heap (hsh (hproc S))) a = Some p \<longrightarrow> \<not> is_stop_pckt p)"

lemma cells_delete_sub: "cells (heap_delete_all as h) a = Some p \<Longrightarrow> cells h a = Some p"
proof (induction as arbitrary: h)
  case (Cons b as)
  have "cells (heap_delete b h) a = Some p \<Longrightarrow> cells h a = Some p"
    by (auto simp: heap_delete_def split: if_splits)
  then show ?case using Cons.IH [of "heap_delete b h"] Cons.prems by simp
qed simp

text \<open>The main thread changes no packet and takes none that was not in use.\<close>

lemma hunter_main_uses:
  assumes "hunter_mem h" and "hrx h \<noteq> RxFault" and "valid_iter (hio_ord io) (hmap h)"
  shows "(cells (heap (hsh (hunter_main io h))) a = Some p \<longrightarrow> cells (heap (hsh h)) a = Some p) \<and>
    in_use (hunter_main io h) \<subseteq> in_use h"
proof (cases "hmain h")
  case HPop
  then show ?thesis
    by (auto simp: hunter_main_def in_use_def mq_pop_def split: list.splits)
next
  case (HInsert b pid)
  then show ?thesis
    by (auto simp: hunter_main_def in_use_def stored_insert)
next
  case HClean
  then show ?thesis
    by (auto simp: hunter_main_def in_use_def cleanMessageQueue_eq dest: cells_delete_sub)
next
  case HSave
  let ?h = "heap (hsh h)" and ?l = "held (hio_ord io) (hmap h)"
  have l: "owned_ok ?h ?l"
    using map_owned [OF _ assms(3)] hunter_mem_owned [OF assms(1)] by blast
  obtain out where "write_map (getMap (hio_ord io) (hmap h)) ([], ?h) =
      Some (out, heap_delete_all ?l ?h)"
    using write_map_eq [of ?h "getMap (hio_ord io) (hmap h)" "[]"] l by (simp add: held_def)
  then show ?thesis
    using HSave
    by (auto simp: hunter_main_def in_use_def savePacketMapToFile_def Let_def dest: cells_delete_sub)
next
  case HFreeAll
  then show ?thesis
    by (auto simp: hunter_main_def in_use_def free_map_eq dest: cells_delete_sub)
qed (auto simp: hunter_main_def in_use_def split_beta
      split: option.split sum.split signal_death.split bool.split)

lemma hunter_rx_uses:
  assumes mem: "hunter_mem h" and net: "net_recv (delivered pid k) n (hrx h) r n'"
    and k: "kernel_inv k"
  shows "(cells (heap (hsh (hunter_rx g r h))) a = Some p \<longrightarrow> cells (heap (hsh h)) a = Some p \<or>
      (\<exists>m \<in> set (delivered pid k). p = pckt_of_mem (nlmsg_data m))) \<and>
    (a \<in> in_use h \<longrightarrow> cells (heap (hsh (hunter_rx g r h))) a = cells (heap (hsh h)) a) \<and>
    (a \<in> in_use (hunter_rx g r h) \<longrightarrow> a \<in> in_use h \<or>
      (cells (heap (hsh (hunter_rx g r h))) a = Some p \<longrightarrow> \<not> is_stop_pckt p)) \<and>
    hmain (hunter_rx g r h) = hmain h \<and> hmap (hunter_rx g r h) = hmap h"
proof -
  obtain pc sh where st: "recvPacketInfoThread (hnl h) g r (hrx h, hsh h) = (pc, sh)" by fastforce
  then have t: "hsh (hunter_rx g r h) = sh" "hmain (hunter_rx g r h) = hmain h"
      "hmap (hunter_rx g r h) = hmap h"
    by (simp_all add: hunter_rx_def)
  note own = hunter_mem_owned [OF mem]
  have "in_use h \<subseteq> live (heap (hsh h))"
    using own by (auto simp: in_use_def hunter_holders_def)
  then have "a \<in> in_use h \<longrightarrow> cells (heap sh) a = cells (heap (hsh h)) a"
    using rx_fresh [OF _ st] own by blast
  moreover have "a \<in> set (queue (mqueue sh)) \<longrightarrow> a \<in> set (queue (mqueue (hsh h))) \<or>
      (cells (heap sh) a = Some p \<longrightarrow> \<not> is_stop_pckt p)"
    using rx_queued [OF st, of a] by auto
  ultimately show ?thesis
    using rx_new_cell [OF st net k, of a p] t by (auto simp: in_use_def)
qed

lemma packets_mono: "packets_ok S \<Longrightarrow> hproc T = hproc S \<Longrightarrow> set (seen S) \<subseteq> set (seen T) \<Longrightarrow> packets_ok T"
  unfolding packets_ok_def using genuine_mono by metis

lemma packets_step:
  assumes "sys_step dp hp S T" and "parts_ok S" and "traffic S" and ok: "packets_ok S"
  shows "packets_ok T"
  using assms(1)
proof (cases rule: sys_step.cases)
  case h_signal
  then show ?thesis
    using ok by (simp add: packets_ok_def in_use_def hunter_signal_def handleSignal_def)
next
  case (h_main io env k' u d)
  have "hunter_mem (hproc S)" "hrx (hproc S) \<noteq> RxFault"
    using assms(2) h_main(2) by (simp_all add: parts_ok_def hunter_inv_def hunter_ok_def)
  note uses = hunter_main_uses [OF this h_main(3)]
  show ?thesis
    using ok uses h_main(1) unfolding packets_ok_def by simp blast
next
  case (h_recv r n g)
  have "hunter_mem (hproc S)" "kernel_inv (kern S)"
    using assms(2) h_recv(2) by (simp_all add: parts_ok_def hunter_inv_def hunter_ok_def)
  note uses = hunter_rx_uses [OF this(1) h_recv(3) this(2), of g]
  show ?thesis
    unfolding packets_ok_def
  proof (intro conjI allI ballI impI)
    fix a p
    assume c: "cells (heap (hsh (hproc T))) a = Some p"
    then have "cells (heap (hsh (hproc S))) a = Some p \<or>
        (\<exists>m \<in> set (delivered hp (kern S)). p = pckt_of_mem (nlmsg_data m))"
      using uses [of a p] h_recv(1) by simp
    then show "is_stop_pckt p \<or> genuine (seen T) p"
      using ok delivered_genuine [OF assms(3)] h_recv(1) unfolding packets_ok_def by auto
    assume "a \<in> in_use (hproc T)"
    then show "\<not> is_stop_pckt p"
      using uses [of a p] ok c h_recv(1) unfolding packets_ok_def by auto
  qed
qed (use packets_mono [OF ok, of T] in \<open>simp_all add: subset_insertI\<close>)

section \<open>Questions and answers\<close>

fun in_session :: "client_pc \<Rightarrow> bool" where
  "in_session CHandle = True" | "in_session (CLoop _) = True" | "in_session (CRead _) = True"
| "in_session (CLookup _) = True" | "in_session (CSend _ _) = True" | "in_session _ = False"

fun serving :: "client_pc \<Rightarrow> bool" where
  "serving (CLookup _) = True" | "serving (CSend _ _) = True" | "serving _ = False"

fun may_ask :: "hunter_pc \<Rightarrow> bool" where
  "may_ask HSubscribe = True" | "may_ask HSpawn = True" | "may_ask HTop = True"
| "may_ask HPop = True" | "may_ask HAlive = True" | "may_ask (HCheck _) = True"
| "may_ask (HSendPort _) = True" | "may_ask (HPrint _ _) = True" | "may_ask (HInsert _ _) = True"
| "may_ask _ = False"

text \<open>
  No question is open; or one for the port \<open>q\<close> is: on its way, being answered, answered, or never
  to be answered because the answer was cut short or the daemon has left the connection.
\<close>

definition silent :: "system \<Rightarrow> bool" where
  "silent S \<longleftrightarrow> up S = [] \<and> down S = [] \<and> \<not> serving (dclient (dproc S))"

definition told :: "system \<Rightarrow> u16 \<Rightarrow> pid_t \<Rightarrow> bool" where
  "told S q pid \<longleftrightarrow> (q, pid) \<in> set (danswers (dproc S))"

definition question :: "system \<Rightarrow> u16 \<Rightarrow> bool" where
  "question S q \<longleftrightarrow>
     up S = word_bytes q \<and> down S = [] \<and> \<not> serving (dclient (dproc S)) \<or>
     up S = [] \<and> down S = [] \<and>
       (dclient (dproc S) = CLookup q \<or> (\<exists>pid. dclient (dproc S) = CSend q pid)) \<or>
     up S = [] \<and> (\<exists>pid. down S = word_bytes pid \<and> told S q pid) \<and> \<not> serving (dclient (dproc S)) \<or>
     length (down S) < 4 \<and> \<not> serving (dclient (dproc S)) \<and>
       (up S = [] \<or> accepted S \<and> \<not> in_session (dclient (dproc S)))"

definition packet_told :: "system \<Rightarrow> ptr \<Rightarrow> pid_t \<Rightarrow> bool" where
  "packet_told S a pid \<longleftrightarrow>
     (\<forall>p. cells (heap (hsh (hproc S))) a = Some p \<longrightarrow> told S (dst_port p) pid)"

definition talk_ok :: "system \<Rightarrow> bool" where
  "talk_ok S \<longleftrightarrow>
     (may_ask (hmain (hproc S)) \<longrightarrow> silent S) \<and>
     (\<forall>a. hmain (hproc S) = HReceive a \<longrightarrow>
       (\<forall>p. cells (heap (hsh (hproc S))) a = Some p \<longrightarrow> question S (dst_port p))) \<and>
     (\<forall>a pid. hmain (hproc S) \<in> {HPrint a pid, HInsert a pid} \<longrightarrow> packet_told S a pid)"

definition dialogue :: "system \<Rightarrow> bool" where
  "dialogue S \<longleftrightarrow> (in_session (dclient (dproc S)) \<longrightarrow> accepted S) \<and> talk_ok S \<and>
     (\<forall>pid. \<forall>a \<in> set (packets_at (hmap (hproc S)) pid). packet_told S a pid)"

text \<open>What the client thread does to the dialogue.\<close>

lemma serving_session: "serving c \<Longrightarrow> in_session c"
  by (cases c) simp_all

lemma client_silent:
  assumes "client_streams io S u d c" and "silent S"
    and "T = S\<lparr>dproc := client_thread io (dproc S), up := u, down := d, accepted := c\<rparr>"
  shows "silent T"
  using assms
  by (cases "dclient (dproc S)")
    (auto simp: silent_def client_streams_def client_thread_def stream_read_def receivePort_def Let_def
      split: read_outcome.splits prod.splits)

lemma client_answers:
  "x \<in> set (danswers s) \<Longrightarrow> x \<in> set (danswers (client_thread io s))"
  by (cases "dclient s")
    (auto simp: client_thread_def Let_def split: prod.splits sum.splits signal_death.splits)

lemma client_told: "told S q pid \<Longrightarrow> dproc T = client_thread io (dproc S) \<Longrightarrow> told T q pid"
  by (simp add: told_def client_answers)

lemma client_accepts:
  assumes "dclient s = CAccept" and "in_session (dclient (client_thread io s))"
  shows "0 \<le> io_accept io \<and> \<not> isShuttingDown (dserver s)"
  using assms by (auto simp: client_thread_def connectToClient_def Let_def split: prod.splits if_splits)

lemma client_session:
  assumes "in_session (dclient (dproc S)) \<longrightarrow> accepted S" and "client_streams io S u d c"
    and "in_session (dclient (client_thread io (dproc S)))"
  shows "c"
proof (cases "dclient (dproc S)")
  case CAccept
  then show ?thesis
    using assms(2) client_accepts [OF CAccept assms(3)] by (simp add: client_streams_def)
qed (use assms in \<open>auto simp: client_streams_def client_thread_def Let_def split: if_splits\<close>)

lemma read_question:
  assumes "stream_read 2 (word_bytes q) r u"
  shows "(receivePort port r = (True, q) \<and> u = []) \<or> \<not> fst (receivePort port r)"
proof (cases r)
  case (GotBytes bs)
  show ?thesis
  proof (cases "length bs = 2")
    case True
    have e: "word_bytes q = bs @ u"
      using assms GotBytes by (simp add: stream_read_def)
    then have "length (word_bytes q) = length bs + length u" by simp
    then have "u = []" using True by simp
    moreover from this have "bs = word_bytes q" using e by simp
    ultimately have "bs = word_bytes q" "u = []" by simp_all
    then show ?thesis using GotBytes receivePort_full [of bs port] by simp
  next
    case False
    then show ?thesis
      using assms GotBytes receivePort_result [of port r] by (simp add: stream_read_def)
  qed
qed (simp add: receivePort_def)

lemma read_nothing: "stream_read 2 [] r u \<Longrightarrow> \<not> fst (receivePort port r) \<and> u = []"
  by (cases r) (auto simp: stream_read_def receivePort_def)

lemma client_reads:
  assumes CRead: "dclient (dproc S) = CRead port" and str: "client_streams io S u d c"
    and q: "question S q" and acc: "accepted S"
    and T: "T = S\<lparr>dproc := client_thread io (dproc S), up := u, down := d, accepted := c\<rparr>"
  shows "question T q"
proof -
  have s: "stream_read 2 (up S) (io_read io) u" "d = down S" "c = accepted S"
    using str CRead by (simp_all add: client_streams_def)
  obtain ok port' where r: "receivePort port (io_read io) = (ok, port')" by fastforce
  have t: "client_thread io (dproc S) = (dproc S)\<lparr>dclient := if ok then CLookup port' else CCloseTest\<rparr>"
    using CRead r by (simp add: client_thread_def)
  consider "up S = word_bytes q" "down S = []" | pid where "up S = []" "down S = word_bytes pid" "told S q pid"
    | "up S = []" "length (down S) < 4"
    using q CRead by (auto simp: question_def)
  then show ?thesis
  proof cases
    case 1
    then show ?thesis
      using read_question [of q "io_read io" u port] s r t T acc by (auto simp: question_def)
  next
    case 2
    then show ?thesis
      using read_nothing [of "io_read io" u port] s r t T by (auto simp: question_def told_def)
  next
    case 3
    then show ?thesis
      using read_nothing [of "io_read io" u port] s r t T by (auto simp: question_def)
  qed
qed

lemma client_question:
  assumes "client_streams io S u d c" and "question S q"
    and "in_session (dclient (dproc S)) \<longrightarrow> accepted S"
    and T: "T = S\<lparr>dproc := client_thread io (dproc S), up := u, down := d, accepted := c\<rparr>"
  shows "question T q"
proof (cases "dclient (dproc S)")
  case CAccept
  then show ?thesis
    using assms client_accepts [OF CAccept, of io]
    by (auto simp: question_def told_def client_streams_def client_thread_def Let_def
        split: prod.splits if_splits)
next
  case (CRead port)
  then show ?thesis
    using client_reads [OF CRead assms(1,2) _ T] assms(3) by simp
next
  case (CLookup port)
  then show ?thesis
    using assms by (auto simp: question_def client_streams_def client_thread_def)
next
  case (CSend port pid)
  then have s: "up S = []" "down S = []" "port = q" "u = []" "accepted S"
      "d = fst (sendPid pid (io_write io))" "wrote_at_most 4 (io_write io)"
    using assms by (auto simp: question_def client_streams_def)
  then show ?thesis
    using CSend T
    by (cases "io_write io")
      (auto simp: question_def told_def client_thread_def sendPid_def wrote_at_most_def le_less)
qed (use assms in \<open>auto simp: question_def told_def client_streams_def client_thread_def Let_def\<close>)

text \<open>What the hunter's main thread does to it.\<close>

lemma receive_answer:
  assumes "stream_read 4 dn r d" and "receivePid c x r = (True, pid)" and "length dn \<le> 4"
  shows "dn = word_bytes pid \<and> d = []"
proof -
  obtain bs where bs: "r = GotBytes bs" "isConnected c" "4 \<le> length bs"
    using assms(2) by (cases r) (auto simp: receivePid_def Let_def split: if_splits)
  then have d: "dn = bs @ d" "length bs \<le> 4"
    using assms(1) by (simp_all add: stream_read_def)
  then have "length bs = 4" "d = []"
    using assms(3) bs(3) by simp_all
  moreover from this have "pid = bytes_word bs"
    using receivePid_full [OF bs(2,3), of x] assms(2) bs(1) by simp
  ultimately show ?thesis
    using d by (simp add: word_bytes_word)
qed

lemma packet_told_sub:
  assumes "packet_told S a pid"
    and "\<And>b p. cells (heap (hsh (hproc T))) b = Some p \<Longrightarrow> cells (heap (hsh (hproc S))) b = Some p"
    and "\<And>q pid. told S q pid \<Longrightarrow> told T q pid"
  shows "packet_told T a pid"
  using assms unfolding packet_told_def by blast

lemma hunter_main_map:
  "hmap (hunter_main io h) =
    (case hmain h of HInsert a pid \<Rightarrow> insertPacketInfo pid a (hmap h) | _ \<Rightarrow> hmap h)"
proof -
  have "hmap (snd (hunter_command io msg h)) = hmap h" for msg
    by (simp add: hunter_command_def split: prod.split bool.split option.split)
  then show ?thesis
    by (cases "hmain h")
      (auto simp: hunter_main_def split_beta Let_def
        split: option.split sum.split signal_death.split bool.split)
qed

text \<open>Sending a port opens a question, and the answer received closes it.\<close>

lemma send_opens:
  assumes pc: "hmain (hproc S) = HSendPort a" and p: "cells (heap (hsh (hproc S))) a = Some p"
    and s: "silent S" and str: "hunter_streams io S u d"
    and T: "T = S\<lparr>kern := k', hproc := hunter_main io (hproc S), up := u, down := d\<rparr>"
  shows "talk_ok T"
proof (cases "snd (sendPort (hclient (hproc S)) (dst_port p) (hio_write io)) = Inr True")
  case True
  then have "u = word_bytes (dst_port p)" "d = []"
    using sendPort_ok [OF True] str pc p s by (simp_all add: hunter_streams_def silent_def)
  then show ?thesis
    using True pc p s T by (auto simp: hunter_main_def question_def silent_def talk_ok_def)
next
  case False
  then show ?thesis
    using pc p T
    by (auto simp: hunter_main_def talk_ok_def split: sum.split signal_death.split bool.split)
qed

lemma receive_closes:
  assumes pc: "hmain (hproc S) = HReceive a" and p: "cells (heap (hsh (hproc S))) a = Some p"
    and q: "question S (dst_port p)" and str: "hunter_streams io S u d"
    and T: "T = S\<lparr>kern := k', hproc := hunter_main io (hproc S), up := u, down := d\<rparr>"
  shows "talk_ok T"
proof -
  let ?h = "hproc S"
  have r: "stream_read 4 (down S) (hio_read io) d" "u = up S"
    using str pc by (simp_all add: hunter_streams_def)
  obtain b pid where o: "receivePid (hclient ?h) (hio_uninit io) (hio_read io) = (b, pid)"
    by fastforce
  show ?thesis
  proof (cases b)
    case True
    have "length (down S) \<le> 4"
      using q by (auto simp: question_def)
    then have dn: "down S = word_bytes pid" "d = []"
      using receive_answer [OF r(1)] o True by simp_all
    have "length (down S) = 4" using dn(1) by simp
    moreover from this have "down S \<noteq> []" by auto
    ultimately obtain pid' where a: "up S = []" "\<not> serving (dclient (dproc S))"
        "down S = word_bytes pid'" "told S (dst_port p) pid'"
      using q by (auto simp: question_def)
    then have "pid' = pid"
      using dn(1) codec_u32.enc_inj [of pid pid'] by simp
    with a have "silent T" "packet_told T a pid"
      using dn r(2) T p pc o by (simp_all add: silent_def packet_told_def told_def hunter_main_def)
    then show ?thesis
      using pc o True T by (simp add: hunter_main_def talk_ok_def)
  next
    case False
    then show ?thesis using pc o T by (simp add: hunter_main_def talk_ok_def)
  qed
qed

lemma hunter_dialogue:
  assumes ok: "dialogue S" and mem: "hunter_mem (hproc S)" and rx: "hrx (hproc S) \<noteq> RxFault"
    and ord: "valid_iter (hio_ord io) (hmap (hproc S))" and str: "hunter_streams io S u d"
    and T: "T = S\<lparr>kern := k', hproc := hunter_main io (hproc S), up := u, down := d\<rparr>"
  shows "dialogue T"
proof -
  let ?h = "hproc S"
  have told: "told T = told S" using T by (simp add: told_def fun_eq_iff)
  have sub: "cells (heap (hsh (hproc T))) b = Some p \<Longrightarrow> cells (heap (hsh ?h)) b = Some p" for b p
    using hunter_main_uses [OF mem rx ord, of b p] T by simp
  have pt: "packet_told S a pid \<Longrightarrow> packet_told T a pid" for a pid
    using packet_told_sub [OF _ sub] told by metis
  have live: "\<exists>p. cells (heap (hsh ?h)) a = Some p" if "a \<in> set (pc_held (hmain ?h))" for a
    using hunter_mem_owned [OF mem] that by (auto simp: hunter_holders_def)
  have map: "packet_told T a pid" if "a \<in> set (packets_at (hmap (hproc T)) pid)" for a pid
  proof (cases "hmain ?h")
    case (HInsert b pid')
    then have "a \<in> set (packets_at (hmap ?h) pid) \<or> a = b \<and> pid = pid'"
      using that T by (auto simp: hunter_main_map insert_view split: if_splits)
    then show ?thesis using ok HInsert pt by (auto simp: dialogue_def talk_ok_def)
  qed (use that T ok pt in \<open>auto simp: hunter_main_map dialogue_def talk_ok_def\<close>)
  have "talk_ok T"
  proof (cases "hmain ?h")
    case (HSendPort a)
    then show ?thesis
      using send_opens [OF HSendPort _ _ str T] live [of a] ok by (auto simp: dialogue_def talk_ok_def)
  next
    case (HReceive a)
    then show ?thesis
      using receive_closes [OF HReceive _ _ str T] live [of a] ok by (auto simp: dialogue_def talk_ok_def)
  next
    case (HPrint a pid)
    then obtain p where p: "cells (heap (hsh ?h)) a = Some p" using live by fastforce
    then show ?thesis
      using ok HPrint T str pt
      by (auto simp: hunter_main_def hunter_streams_def dialogue_def talk_ok_def silent_def)
  qed (use ok T str in \<open>auto simp: hunter_main_def hunter_streams_def dialogue_def talk_ok_def silent_def
      split_beta Let_def split: option.split sum.split signal_death.split bool.split\<close>)
  then show ?thesis
    using map ok T unfolding dialogue_def by simp
qed

text \<open>All other actions leave it alone.\<close>

lemma daemon_main_frame:
  "dclient (main_step io s) = dclient s \<and> danswers (main_step io s) = danswers s"
proof -
  have "danswers (snd (send_command io msg s)) = danswers s" for msg
    by (simp add: send_command_def split: prod.split bool.split option.split)
  then show ?thesis
    by (cases "dmain s") (auto simp: main_step_def split_beta Let_def split: option.split sum.split)
qed

lemma daemon_rx_answers: "danswers (rx_thread g r s) = danswers s"
  by (simp add: rx_thread_def split: prod.split)

text \<open>What the dialogue depends on is as it was.\<close>

definition undisturbed :: "system \<Rightarrow> system \<Rightarrow> bool" where
  "undisturbed S T \<longleftrightarrow> dclient (dproc T) = dclient (dproc S) \<and>
     danswers (dproc T) = danswers (dproc S) \<and> up T = up S \<and> down T = down S \<and>
     accepted T = accepted S \<and> hmain (hproc T) = hmain (hproc S) \<and> hmap (hproc T) = hmap (hproc S) \<and>
     (\<forall>a \<in> in_use (hproc S). cells (heap (hsh (hproc T))) a = cells (heap (hsh (hproc S))) a)"

lemma dialogue_cong:
  assumes "dialogue S" and "undisturbed S T"
  shows "dialogue T"
proof -
  note same_as = assms(2) [unfolded undisturbed_def]
  have same: "told T = told S" "question T = question S" "silent T = silent S"
    using same_as by (simp_all add: told_def question_def silent_def fun_eq_iff)
  have pt: "packet_told T a pid = packet_told S a pid" if "a \<in> in_use (hproc S)" for a pid
    using same_as that same by (simp add: packet_told_def)
  have use: "a \<in> in_use (hproc S)" if "a \<in> set (packets_at (hmap (hproc S)) pid)" for a pid
    using that by (auto simp: in_use_def stored_def)
  have pc: "a \<in> in_use (hproc S)" if "a \<in> set (pc_held (hmain (hproc S)))" for a
    using that by (simp add: in_use_def)
  show ?thesis
    unfolding dialogue_def talk_ok_def
  proof (intro conjI allI impI ballI)
    fix a p
    assume "hmain (hproc T) = HReceive a" and c: "cells (heap (hsh (hproc T))) a = Some p"
    then show "question T (dst_port p)"
      using assms(1) same_as pc [of a] same by (simp add: dialogue_def talk_ok_def)
  next
    fix a pid
    assume "hmain (hproc T) \<in> {HPrint a pid, HInsert a pid}"
    then show "packet_told T a pid"
      using assms(1) same_as pt [OF pc, of a pid] by (auto simp: dialogue_def talk_ok_def)
  next
    fix a pid
    assume "a \<in> set (packets_at (hmap (hproc T)) pid)"
    then show "packet_told T a pid"
      using assms(1) same_as pt [OF use] by (auto simp: dialogue_def talk_ok_def)
  qed (use assms(1) same_as same in \<open>simp_all add: dialogue_def talk_ok_def\<close>)
qed

lemma client_dialogue:
  assumes "dialogue S" and str: "client_streams io S u d c"
    and T: "T = S\<lparr>dproc := client_thread io (dproc S), up := u, down := d, accepted := c\<rparr>"
  shows "dialogue T"
proof -
  have sess: "in_session (dclient (dproc S)) \<longrightarrow> accepted S"
    using assms(1) by (simp add: dialogue_def talk_ok_def)
  have told: "told S q pid \<Longrightarrow> told T q pid" for q pid
    using client_told T by simp
  have "packet_told S a pid \<Longrightarrow> packet_told T a pid" for a pid
    using told T by (simp add: packet_told_def)
  moreover have "in_session (dclient (dproc T)) \<longrightarrow> accepted T"
    using client_session [OF sess str] T by simp
  moreover have "question S q \<Longrightarrow> question T q" for q
    using client_question [OF str _ sess T] .
  moreover have "silent S \<Longrightarrow> silent T"
    using client_silent [OF str _ T] .
  ultimately show ?thesis
    using assms(1) T unfolding dialogue_def talk_ok_def by simp
qed

text \<open>A step is one of the two ends at work, or it leaves the dialogue alone.\<close>

lemma rx_undisturbed:
  assumes "parts_ok S" and "\<not> hunter_ended (hmain (hproc S))"
    and "net_recv (delivered hp (kern S)) (h_taken S) (hrx (hproc S)) r n"
  shows "undisturbed S (S\<lparr>hproc := hunter_rx g r (hproc S), h_taken := n\<rparr>)"
proof -
  have "hunter_mem (hproc S)" "kernel_inv (kern S)"
    using assms(1,2) by (simp_all add: parts_ok_def hunter_inv_def hunter_ok_def)
  then show ?thesis
    using hunter_rx_uses [OF _ assms(3)] by (simp add: undisturbed_def)
qed

lemma step_kinds:
  assumes "sys_step dp hp S T" and "parts_ok S"
  obtains (rest) "undisturbed S T"
    | (daemon_end) io u d c where "client_streams io S u d c"
        "T = S\<lparr>dproc := client_thread io (dproc S), up := u, down := d, accepted := c\<rparr>"
    | (hunter_end) io k' u d where "hunter_mem (hproc S)" "hrx (hproc S) \<noteq> RxFault"
        "valid_iter (hio_ord io) (hmap (hproc S))" "hunter_streams io S u d"
        "T = S\<lparr>kern := k', hproc := hunter_main io (hproc S), up := u, down := d\<rparr>"
  using assms(1)
proof (cases rule: sys_step.cases)
  case (h_main io env k' u d)
  have "hunter_mem (hproc S)" "hrx (hproc S) \<noteq> RxFault"
    using assms(2) h_main(2) by (simp_all add: parts_ok_def hunter_inv_def hunter_ok_def)
  then show ?thesis using h_main hunter_end by blast
next
  case (h_recv r n g)
  then show ?thesis using rx_undisturbed [OF assms(2)] rest by blast
qed (use rest daemon_end in \<open>simp_all add: undisturbed_def on_signal_def daemon_main_frame rx_frame
    daemon_rx_answers hunter_signal_def handleSignal_def\<close>)

lemma dialogue_step:
  assumes "sys_step dp hp S T" and "parts_ok S" and "dialogue S"
  shows "dialogue T"
  using assms(1,2)
proof (cases rule: step_kinds)
  case rest
  then show ?thesis using dialogue_cong [OF assms(3)] by blast
next
  case (daemon_end io u d c)
  then show ?thesis using client_dialogue [OF assms(3)] by blast
next
  case (hunter_end io k' u d)
  then show ?thesis using hunter_dialogue [OF assms(3)] by blast
qed

section \<open>The screen and the file\<close>

definition honest :: "system \<Rightarrow> pckt_info \<times> pid_t \<Rightarrow> bool" where
  "honest S = (\<lambda>(p, pid). genuine (seen S) p \<and> told S (dst_port p) pid)"

definition output_ok :: "system \<Rightarrow> bool" where
  "output_ok S \<longleftrightarrow>
     (\<exists>log. hscreen (hproc S) = screen_of log \<and> (\<forall>l \<in> set log. honest S l)) \<and>
     (\<forall>path text. hfile (hproc S) = Some (path, text) \<longrightarrow>
       (\<exists>log. text = file_of log \<and> (\<forall>l \<in> set log. honest S l)))"

lemma told_step: "sys_step dp hp S T \<Longrightarrow> told S q pid \<Longrightarrow> told T q pid"
  by (induction rule: sys_step.induct)
    (simp_all add: told_def on_signal_def daemon_main_frame daemon_rx_answers client_answers)

lemma seen_step: "sys_step dp hp S T \<Longrightarrow> set (seen S) \<subseteq> set (seen T)"
  by (induction rule: sys_step.induct) auto

lemma honest_step: "sys_step dp hp S T \<Longrightarrow> honest S l \<Longrightarrow> honest T l"
  using told_step seen_step genuine_mono by (fastforce simp: honest_def split_beta)

lemma honest_packet:
  assumes "packets_ok S" and "a \<in> in_use (hproc S)" and "packet_told S a pid"
    and "cells (heap (hsh (hproc S))) a = Some p"
  shows "honest S (p, pid)"
  using assms by (auto simp: honest_def packets_ok_def packet_told_def)

lemma output_cong:
  assumes "output_ok S" and "\<And>l. honest S l \<Longrightarrow> honest T l"
    and "hscreen (hproc T) = hscreen (hproc S)" and "hfile (hproc T) = hfile (hproc S)"
  shows "output_ok T"
  using assms unfolding output_ok_def by metis

text \<open>The packets the main thread prints or writes, with the process ids it writes beside them.\<close>

definition printing :: "hunter \<Rightarrow> (pckt_info \<times> pid_t) list" where
  "printing h = (case hmain h of HPrint a pid \<Rightarrow> [(the (cells (heap (hsh h)) a), pid)] | _ \<Rightarrow> [])"

definition saving :: "pid_t list \<Rightarrow> hunter \<Rightarrow> (pckt_info \<times> pid_t) list" where
  "saving ord h = concat (map (\<lambda>(pid, as). map (\<lambda>a. (the (cells (heap (hsh h)) a), pid)) as)
     (getMap ord (hmap h)))"

lemma written_honest:
  assumes mem: "hunter_mem (hproc S)" and ok: "packets_ok S" "dialogue S"
    and ord: "valid_iter ord (hmap (hproc S))"
    and l: "l \<in> set (printing (hproc S)) \<union> set (saving ord (hproc S))"
  shows "honest S l"
proof -
  note own = hunter_mem_owned [OF mem]
  have live: "honest S (the (cells (heap (hsh (hproc S))) a), pid)"
    if "a \<in> in_use (hproc S)" "packet_told S a pid" for a pid
  proof -
    have "a \<in> live (heap (hsh (hproc S)))"
      using own that(1) by (auto simp: in_use_def hunter_holders_def)
    then show ?thesis using honest_packet [OF ok(1) that] by auto
  qed
  consider "l \<in> set (printing (hproc S))" | "l \<in> set (saving ord (hproc S))" using l by blast
  then show ?thesis
  proof cases
    case 1
    then obtain a pid where "hmain (hproc S) = HPrint a pid"
        "l = (the (cells (heap (hsh (hproc S))) a), pid)"
      by (cases "hmain (hproc S)") (auto simp: printing_def)
    then show ?thesis
      using live [of a pid] ok(2) by (simp add: in_use_def dialogue_def talk_ok_def)
  next
    case 2
    then obtain pid as a where "(pid, as) \<in> set (getMap ord (hmap (hproc S)))" "a \<in> set as"
        "l = (the (cells (heap (hsh (hproc S))) a), pid)"
      by (auto simp: saving_def)
    moreover from this have "a \<in> set (packets_at (hmap (hproc S)) pid)"
      using ord by (auto simp: getMap_def valid_iter_def packets_at_def)
    ultimately show ?thesis
      using live [of a pid] ok(2) by (auto simp: in_use_def stored_def dialogue_def)
  qed
qed

lemma output_main:
  assumes mem: "hunter_mem (hproc S)" and ord: "valid_iter (hio_ord io) (hmap (hproc S))"
    and inv: "packets_ok S" "dialogue S" "output_ok S" and h: "hproc T = hunter_main io (hproc S)"
    and hon: "\<And>l. honest S l \<Longrightarrow> honest T l"
  shows "output_ok T"
proof -
  have scr: "hscreen (hproc T) = hscreen (hproc S) @ screen_of (printing (hproc S))"
    and saved: "hfile (hproc T) = hfile (hproc S) \<or> hfile (hproc T) = None \<or>
      (\<exists>path. hfile (hproc T) = Some (path, file_of (saving (hio_ord io) (hproc S))))"
    using hunter_main_output [OF mem ord] h by (auto simp: printing_def saving_def)
  have new: "honest T l" if "l \<in> set (printing (hproc S)) \<union> set (saving (hio_ord io) (hproc S))" for l
    using hon [OF written_honest [OF mem inv(1,2) ord that]] .
  obtain log where log: "hscreen (hproc S) = screen_of log" "\<forall>l \<in> set log. honest S l"
    using inv(3) by (auto simp: output_ok_def)
  have "hscreen (hproc T) = screen_of (log @ printing (hproc S))"
    using scr log(1) by (simp add: screen_of_def)
  moreover have "\<forall>l \<in> set (log @ printing (hproc S)). honest T l"
    using log(2) hon new by (simp only: set_append) blast
  ultimately have "\<exists>log. hscreen (hproc T) = screen_of log \<and> (\<forall>l \<in> set log. honest T l)"
    by blast
  moreover have "\<exists>log. content = file_of log \<and> (\<forall>l \<in> set log. honest T l)"
    if wrote: "hfile (hproc T) = Some (path, content)" for path content
  proof (cases "hfile (hproc T) = hfile (hproc S)")
    case True
    then obtain log where "content = file_of log" "\<forall>l \<in> set log. honest S l"
      using inv(3) wrote unfolding output_ok_def by metis
    then show ?thesis using hon by blast
  next
    case False
    then show ?thesis using saved wrote new by auto
  qed
  ultimately show ?thesis unfolding output_ok_def by blast
qed

lemma output_step:
  assumes "sys_step dp hp S T" and "parts_ok S" and "packets_ok S" and "dialogue S" and ok: "output_ok S"
  shows "output_ok T"
proof -
  note hon = honest_step [OF assms(1)]
  have quiet: "hscreen (hproc T) = hscreen (hproc S) \<Longrightarrow> hfile (hproc T) = hfile (hproc S) \<Longrightarrow> ?thesis"
    using output_cong [OF ok hon] .
  show ?thesis
    using assms(1)
  proof (cases rule: sys_step.cases)
    case (h_main io env k' u d)
    have mem: "hunter_mem (hproc S)"
      using assms(2) h_main(2) by (simp_all add: parts_ok_def hunter_inv_def hunter_ok_def)
    show ?thesis
      using output_main [OF mem h_main(3) assms(3,4) ok _ hon] h_main(1) by simp
  next
    case (h_recv r n g)
    then show ?thesis
      by (intro quiet) (simp_all add: hunter_rx_def split: prod.split)
  qed (rule quiet; simp add: hunter_signal_def)+
qed

section \<open>The whole system\<close>

definition sys_inv :: "system \<Rightarrow> bool" where
  "sys_inv S \<longleftrightarrow> parts_ok S \<and> traffic S \<and> packets_ok S \<and> dialogue S \<and> output_ok S"

lemma sys_inv_step: "sys_step dp hp S T \<Longrightarrow> sys_inv S \<Longrightarrow> sys_inv T"
  using parts_step traffic_step packets_step dialogue_step output_step by (simp add: sys_inv_def)

lemma no_unicasts_loaded: "kernel_loaded k \<Longrightarrow> unicasts k = []"
  by (auto simp: kernel_loaded_def sniffer_init_def kernel_static_def pr_def)

lemma started_client: "daemon_started s \<Longrightarrow> dclient s = CTop \<and> danswers s = [] \<and> drx s = RxIdle"
  by (auto simp: daemon_started_def daemon_init_def dest: sym)

lemma sys_inv_started: "sys_started S \<Longrightarrow> sys_inv S"
proof -
  assume s: "sys_started S"
  then obtain nl c where h: "hproc S = hunter_init nl c"
    by (auto simp: sys_started_def hunter_started_def)
  have d: "dclient (dproc S) = CTop" "danswers (dproc S) = []"
    using started_client s by (simp_all add: sys_started_def)
  have "traffic S"
    using s no_unicasts_loaded by (simp add: traffic_def sys_started_def)
  moreover have "packets_ok S"
    by (simp add: packets_ok_def h hunter_init_def heap_init_def)
  moreover have "dialogue S"
    using s by (simp add: dialogue_def talk_ok_def silent_def d h hunter_init_def sys_started_def
        ptpi_init_def packets_at_def)
  moreover have "output_ok S"
    by (auto simp: output_ok_def h hunter_init_def screen_of_def intro: exI [of _ "[]"])
  ultimately show ?thesis
    using parts_started [OF s] by (simp add: sys_inv_def)
qed

interpretation sysi: transition_invariant sys_started "sys_step dp hp" sys_inv for dp hp
  by unfold_locales (auto intro: sys_inv_step sys_inv_started)

text \<open>
  C1: The log is true, end to end. In every run of the kernel module, the daemon and the packet
  hunter together, whatever packets arrive, however the threads interleave and whichever calls
  fail or stop half way, all packet lines that the hunter prints and all that it saves are lines for
  packets that the kernel was called with, each under a process id that the daemon sent as its
  answer for that packet's destination port.
\<close>

theorem hunter_log_true:
  assumes "sys_started S0" and "(sys_step dp hp)\<^sup>*\<^sup>* S0 S"
  shows "(\<exists>log. hscreen (hproc S) = concat (map (\<lambda>(p, pid). printPacketInfo p pid) log) \<and>
      (\<forall>(p, pid) \<in> set log. (dst_port p, pid) \<in> set (danswers (dproc S)) \<and>
        (\<exists>skb \<in> set (seen S). packet_report (Some skb) = Some (pckt_key p)))) \<and>
    (\<forall>path text. hfile (hproc S) = Some (path, text) \<longrightarrow>
      (\<exists>log. text = concat (map (\<lambda>(p, pid). save_line pid p) log) \<and>
        (\<forall>(p, pid) \<in> set log. (dst_port p, pid) \<in> set (danswers (dproc S)) \<and>
          (\<exists>skb \<in> set (seen S). packet_report (Some skb) = Some (pckt_key p)))))"
proof -
  have "output_ok S"
    using sysi.inv_reachable [OF assms] by (simp add: sys_inv_def)
  moreover have "honest S = (\<lambda>(p, pid). (dst_port p, pid) \<in> set (danswers (dproc S)) \<and>
      (\<exists>skb \<in> set (seen S). packet_report (Some skb) = Some (pckt_key p)))"
    by (auto simp: honest_def genuine_def told_def)
  ultimately show ?thesis
    by (simp add: output_ok_def screen_of_def file_of_def)
qed

theorem hunter_log_true_witness:
  "\<exists>S0 S log. sys_started S0 \<and> (sys_step 812 2900)\<^sup>*\<^sup>* S0 S \<and>
     hscreen (hproc S) \<noteq> [] \<and> hscreen (hproc S) = concat (map (\<lambda>(p, pid). printPacketInfo p pid) log) \<and>
     (\<forall>(p, pid) \<in> set log. (dst_port p, pid) = (44280, 2897) \<and>
       packet_report (Some dns_reply) = Some (pckt_key p))"
proof -
  obtain S p where S: "(sys_step 812 2900)\<^sup>*\<^sup>* sys1 S" "hscreen (hproc S) = printPacketInfo p 2897"
      "danswers (dproc S) = [(44280, 2897)]" "seen S = [dns_reply]"
    using run_prints by blast
  have "hscreen (hproc S) \<noteq> []"
    using S(2) by (simp add: printPacketInfo_def Let_def)
  then show ?thesis
    using hunter_log_true [OF sys1_started S(1)] sys1_started S(1,3,4) by auto
qed

end
