(* ===== verification/DaemonShutdown.thy ===== *)
theory DaemonShutdown
  imports Daemon
begin

text \<open>
  The shutdown of the daemon: once the flag \<open>running\<close> is down, every action of a thread either
  changes nothing (the thread has ended, or the main thread waits for one that has not) or brings
  its thread closer to its end, which a rank counts. Which thread can act, and that some thread
  always can, depends on the other programs (\<open>DaemonEnds\<close>).
\<close>

section \<open>Ranks\<close>

fun main_rank :: "main_pc \<Rightarrow> nat" where
  "main_rank MSubscribe = 18" | "main_rank MSetRunning = 17" | "main_rank MSpawn = 16"
| "main_rank MPop = 15" | "main_rank (MHave _) = 14" | "main_rank (MFree _) = 13"
| "main_rank MTop = 12" | "main_rank MUnsubscribe = 11" | "main_rank MJoinRx = 10"
| "main_rank MClean = 9" | "main_rank MGetClient = 8" | "main_rank MShutdown = 7"
| "main_rank MCloseTest = 6" | "main_rank (MCloseCall _) = 5" | "main_rank MCloseSet = 4"
| "main_rank MStop = 3" | "main_rank MJoinClient = 2" | "main_rank (MExit _) = 0"
| "main_rank MTerminate = 0" | "main_rank MKilled = 0" | "main_rank MFault = 0"

fun rx_rank :: "rx_pc \<Rightarrow> nat" where
  "rx_rank RxRecv = 3" | "rx_rank (RxHave _) = 2" | "rx_rank RxTop = 1" | "rx_rank RxIdle = 1"
| "rx_rank RxEnd = 0" | "rx_rank RxFault = 0"

fun client_rank :: "client_pc \<Rightarrow> nat" where
  "client_rank (CRead _) = 9" | "client_rank (CLookup _) = 8" | "client_rank (CSend _ _) = 7"
| "client_rank CAccept = 8" | "client_rank CHandle = 7" | "client_rank (CLoop _) = 6"
| "client_rank CCloseTest = 5" | "client_rank (CCloseCall _) = 4" | "client_rank CCloseSet = 3"
| "client_rank CTop = 1" | "client_rank CEnd = 0"

definition rank :: "daemon \<Rightarrow> nat" where
  "rank s = main_rank (dmain s) + rx_rank (drx s) + client_rank (dclient s)"

text \<open>The flag is down for good.\<close>

definition stopped :: "daemon \<Rightarrow> bool" where
  "stopped s \<longleftrightarrow> \<not> running (dsh s) \<and> dmain s \<notin> {MSubscribe, MSetRunning}"

lemma stopped_daemon_step: "daemon_step s t \<Longrightarrow> stopped s \<Longrightarrow> stopped t"
  using stopped_step [of s t] by (simp add: stopped_def)

section \<open>Every action stutters or makes progress\<close>

definition waits :: "daemon \<Rightarrow> bool" where
  "waits s \<longleftrightarrow> dmain s = MJoinRx \<and> drx s \<noteq> RxEnd \<or> dmain s = MJoinClient \<and> dclient s \<noteq> CEnd"

lemma main_waits: "waits s \<Longrightarrow> main_step io s = s"
  by (auto simp: waits_def main_step_def)

lemma main_progress:
  assumes "stopped s" and "\<not> ended (dmain s)" and "\<not> waits s"
    and "phase (dmain s) = 0 \<longrightarrow> drx s = RxIdle"
  shows "rank (main_step io s) < rank s"
  using assms
  by (cases "dmain s")
    (auto simp: stopped_def waits_def main_step_def rank_def split_beta Let_def
      split: option.split sum.split)

lemma rx_progress:
  assumes "stopped s" and "drx s \<notin> {RxIdle, RxEnd, RxFault}"
  shows "rank (rx_thread g r s) < rank s"
  using assms
  by (cases "drx s")
    (auto simp: stopped_def rx_thread_def rank_def split_beta Let_def split: option.split)

lemma client_progress:
  assumes "stopped s" and "dclient s \<noteq> CEnd" and "\<not> ended (dmain s)"
  shows "rank (client_thread io s) < rank s"
proof (cases "dclient s")
  case (CSend port pid)
  have "0 < main_rank (dmain s)" using assms(3) by (cases "dmain s") auto
  then show ?thesis
    using CSend by (auto simp: client_thread_def rank_def split: prod.split sum.split signal_death.split)
qed (use assms in \<open>auto simp: stopped_def client_thread_def rank_def split_beta Let_def\<close>)

lemma client_ended: "dclient s = CEnd \<Longrightarrow> client_thread io s = s"
  by (simp add: client_thread_def)

lemma signal_stopped: "stopped s \<Longrightarrow> on_signal s = s"
proof -
  assume "stopped s"
  then have "handleSignal (dsh s) = dsh s"
    by (cases "dsh s") (simp add: stopped_def handleSignal_def)
  then show ?thesis by (simp add: on_signal_def)
qed

lemma step_or_stutter:
  assumes "daemon_step s t" and "stopped s" and "phases_ok s"
  shows "t = s \<or> rank t < rank s"
  using assms(1)
proof (cases rule: daemon_step.cases)
  case signal
  then show ?thesis using signal_stopped [OF assms(2)] by simp
next
  case (main io)
  then show ?thesis
    using main_progress [OF assms(2)] main_waits [of s io] assms(3)
    by (cases "waits s") (auto simp: phases_ok_def)
next
  case (client io)
  then show ?thesis
    using client_progress [OF assms(2)] client_ended [of s io] by (cases "dclient s = CEnd") auto
next
  case (receiver g r)
  then show ?thesis
    using rx_progress [OF assms(2)] rx_idle [of s g r] by blast
qed

end
