(* ===== verification/HunterShutdown.thy ===== *)
theory HunterShutdown
  imports PacketHunter
begin

text \<open>
  The shutdown of the packet hunter: once the flag \<open>running\<close> is down, every action of its
  threads stutters or brings the program closer to its end, which a rank counts. Which thread can
  act, and that some thread always can, depends on the other programs (\<open>HunterEnds\<close>).
\<close>

section \<open>Ranks\<close>

fun hmain_rank :: "hunter_pc \<Rightarrow> nat" where
  "hmain_rank HSubscribe = 17" | "hmain_rank HSpawn = 16" | "hmain_rank HPop = 15"
| "hmain_rank HAlive = 14" | "hmain_rank (HCheck _) = 14" | "hmain_rank (HSendPort _) = 13"
| "hmain_rank (HReceive _) = 12" | "hmain_rank (HPrint _ _) = 11" | "hmain_rank (HInsert _ _) = 10"
| "hmain_rank HTop = 9" | "hmain_rank HUnsubscribe = 8" | "hmain_rank HJoin = 7"
| "hmain_rank HClean = 6" | "hmain_rank HAsk = 5" | "hmain_rank HSave = 4"
| "hmain_rank HFreeAll = 4" | "hmain_rank (HExit _) = 0" | "hmain_rank HTerminate = 0"
| "hmain_rank HKilled = 0" | "hmain_rank HFault = 0"

fun hrx_rank :: "rx_pc \<Rightarrow> nat" where
  "hrx_rank RxRecv = 3" | "hrx_rank (RxHave _) = 2" | "hrx_rank RxTop = 1" | "hrx_rank RxIdle = 1"
| "hrx_rank RxEnd = 0" | "hrx_rank RxFault = 0"

definition hunter_rank :: "hunter \<Rightarrow> nat" where
  "hunter_rank s = hmain_rank (hmain s) + hrx_rank (hrx s)"

text \<open>The receiver is there when the main thread joins it.\<close>

definition spawned :: "hunter \<Rightarrow> bool" where
  "spawned s \<longleftrightarrow> (hrx s = RxIdle \<longrightarrow> hmain s \<in> {HSubscribe, HSpawn} \<or> hunter_ended (hmain s))"

lemma spawned_main: "spawned s \<Longrightarrow> spawned (hunter_main io s)"
  by (cases "hmain s")
    (auto simp: spawned_def hunter_main_def split_beta Let_def
      split: option.split sum.split signal_death.split bool.split)

lemma spawned_rx: "spawned s \<Longrightarrow> spawned (hunter_rx g r s)"
  by (cases "hrx s")
    (auto simp: spawned_def hunter_rx_def split_beta Let_def split: option.split)

lemma spawned_signal: "spawned s \<Longrightarrow> spawned (hunter_signal s)"
  by (simp add: spawned_def hunter_signal_def)

interpretation htr_rx: transition_invariant hunter_started hunter_step spawned
proof
  show "spawned s" if "hunter_started s" for s
    using that by (auto simp: hunter_started_def hunter_init_def spawned_def)
  show "spawned t" if "hunter_step s t" "spawned s" for s t
    using that
    by (induction rule: hunter_step.induct)
      (simp_all add: spawned_main spawned_rx spawned_signal)
qed

section \<open>Every action stutters or makes progress\<close>

lemma hunter_stays_stopped: "hunter_step s t \<Longrightarrow> \<not> running (hsh s) \<Longrightarrow> \<not> running (hsh t)"
proof (induction rule: hunter_step.induct)
  case (hsignal s)
  then show ?case by (simp add: hunter_signal_def handleSignal_def)
next
  case (hmain_act s io)
  have "running (hsh (snd (hunter_command io msg s))) = running (hsh s)" for msg
    by (simp add: hunter_command_def split: prod.split bool.split option.split)
  with hmain_act show ?case
    by (cases "hmain s")
      (auto simp: hunter_main_def split_beta Let_def
        split: option.split sum.split signal_death.split bool.split)
next
  case (hreceive s g r)
  then show ?case
    by (cases "hrx s") (auto simp: hunter_rx_def split_beta Let_def split: option.split)
qed

lemma hunter_main_progress:
  assumes "\<not> running (hsh s)" and "\<not> hunter_ended (hmain s)" and "hunter_phases s"
    and "hmain s = HJoin \<longrightarrow> hrx s = RxEnd"
  shows "hunter_rank (hunter_main io s) < hunter_rank s"
proof -
  have "hrx (snd (hunter_command io msg s)) = hrx s" for msg
    by (simp add: hunter_command_def split: prod.split bool.split option.split)
  then show ?thesis
    using assms
    by (cases "hmain s")
      (auto simp: hunter_main_def hunter_rank_def hunter_phases_def split_beta Let_def
        split: option.split sum.split signal_death.split bool.split)
qed

lemma hunter_rx_progress:
  assumes "\<not> running (hsh s)" and "hrx s \<notin> {RxIdle, RxEnd, RxFault}"
  shows "hunter_rank (hunter_rx g r s) < hunter_rank s"
  using assms
  by (cases "hrx s")
    (auto simp: hunter_rx_def hunter_rank_def split_beta Let_def split: option.split)

definition hunter_stopping :: "hunter \<Rightarrow> bool" where
  "hunter_stopping s \<longleftrightarrow> \<not> running (hsh s) \<and> hunter_inv s \<and> spawned s"

lemma hunter_rank_step:
  assumes st: "hunter_step s t" and s: "hunter_stopping s"
  shows "t = s \<or> hunter_rank t < hunter_rank s"
  using st
proof (cases rule: hunter_step.cases)
  case hsignal
  have "handleSignal (hsh s) = hsh s"
    using s by (cases "hsh s") (simp add: hunter_stopping_def handleSignal_def)
  then show ?thesis using hsignal by (simp add: hunter_signal_def)
next
  case (hmain_act io)
  show ?thesis
  proof (cases "hmain s = HJoin \<and> hrx s \<noteq> RxEnd")
    case True
    then show ?thesis using hmain_act by (simp add: hunter_main_def)
  next
    case False
    then show ?thesis
      using hmain_act hunter_main_progress s by (auto simp: hunter_stopping_def hunter_inv_def)
  qed
next
  case (hreceive g r)
  then show ?thesis
    using hunter_rx_progress [of s g r] hunter_rx_idle [of s g r] s
    by (auto simp: hunter_stopping_def)
qed

end
