(* ===== verification/SystemStop.thy ===== *)
theory SystemStop
  imports SystemLog DaemonShutdown HunterShutdown
begin

text \<open>
  When the receiving threads stop. In the whole system a terminate message reaches a program only
  after the program itself has asked for it, so a receiving thread that has returned belongs to a
  program that is going down. The exception is a network packet whose addresses and ports are all
  zero: its report looks like the terminate message.
\<close>

definition null_packet :: "sk_buff \<Rightarrow> bool" where
  "null_packet skb \<longleftrightarrow> (\<exists>c. packet_report (Some skb) = Some (0, 0, 0, 0, c))"

definition h_quit :: "hunter \<Rightarrow> bool" where
  "h_quit h \<longleftrightarrow> \<not> running (hsh h) \<or> hmain h \<in> {HJoin, HClean, HAsk, HSave, HFreeAll} \<or>
     hunter_ended (hmain h)"

text \<open>The slots of the module hold the processes they are meant for.\<close>

definition owner :: "u32 \<Rightarrow> u32 \<Rightarrow> client \<Rightarrow> u32" where
  "owner dp hp c = (case c of DaemonClient \<Rightarrow> dp | HunterClient \<Rightarrow> hp)"

definition slots_ok :: "u32 \<Rightarrow> u32 \<Rightarrow> kernel \<Rightarrow> bool" where
  "slots_ok dp hp k \<longleftrightarrow> (\<forall>c p. subs_of k c = Some p \<longrightarrow> p = owner dp hp c)"

definition d_rx_ok :: "daemon \<Rightarrow> bool" where
  "d_rx_ok s \<longleftrightarrow> (drx s = RxEnd \<longrightarrow> stopped s) \<and>
     (\<forall>a. drx s = RxHave a \<longrightarrow> stop_block (heap (dsh s)) a \<longrightarrow> stopped s)"

definition h_rx_ok :: "hunter \<Rightarrow> bool" where
  "h_rx_ok h \<longleftrightarrow> (hrx h = RxEnd \<longrightarrow> h_quit h) \<and>
     (\<forall>a. hrx h = RxHave a \<longrightarrow> stop_block (heap (hsh h)) a \<longrightarrow> h_quit h)"

text \<open>A terminate message has been sent to a process only if \<open>allowed\<close>.\<close>

definition stops_ok :: "u32 \<Rightarrow> kernel \<Rightarrow> bool \<Rightarrow> bool" where
  "stops_ok pid k allowed \<longleftrightarrow> (\<forall>u \<in> set (unicasts k). stop_to pid u \<longrightarrow> allowed)"

definition receivers_ok :: "u32 \<Rightarrow> u32 \<Rightarrow> system \<Rightarrow> bool" where
  "receivers_ok dp hp S \<longleftrightarrow>
     slots_ok dp hp (kern S) \<and> (dmain (dproc S) = MUnsubscribe \<longrightarrow> stopped (dproc S)) \<and>
     stops_ok dp (kern S) (stopped (dproc S)) \<and> stops_ok hp (kern S) (h_quit (hproc S)) \<and>
     d_rx_ok (dproc S) \<and> h_rx_ok (hproc S)"

section \<open>Going down is final\<close>

lemma h_quit_main: "h_quit h \<Longrightarrow> \<not> hunter_ended (hmain h) \<Longrightarrow> h_quit (hunter_main io h)"
proof (cases "running (hsh h)")
  case False
  assume "\<not> hunter_ended (hmain h)"
  have "\<not> running (hsh (hunter_main io h))"
  proof -
    have "running (hsh (snd (hunter_command io msg h))) = running (hsh h)" for msg
      by (simp add: hunter_command_def split: prod.split bool.split option.split)
    then show ?thesis
      using False
      by (cases "hmain h")
        (auto simp: hunter_main_def split_beta Let_def
          split: option.split sum.split signal_death.split bool.split)
  qed
  then show ?thesis by (simp add: h_quit_def)
next
  case True
  assume "h_quit h" and "\<not> hunter_ended (hmain h)"
  then consider "hmain h = HJoin" | "hmain h = HClean" | "hmain h = HAsk" | "hmain h = HSave"
    | "hmain h = HFreeAll"
    using True by (auto simp: h_quit_def)
  then show ?thesis
    by cases (simp_all add: hunter_main_def h_quit_def split_beta split: option.split)
qed

lemma h_quit_rx: "h_quit h \<Longrightarrow> h_quit (hunter_rx g r h)"
  by (cases "hrx h") (auto simp: h_quit_def hunter_rx_def split_beta Let_def split: option.split)

lemma h_quit_signal: "h_quit (hunter_signal h)"
  by (simp add: h_quit_def hunter_signal_def handleSignal_def)

section \<open>The module\<close>

lemma slots_same: "same_subs k k' \<Longrightarrow> slots_ok dp hp k \<Longrightarrow> slots_ok dp hp k'"
  using subs_of_cong [of k k'] by (simp add: slots_ok_def)

lemma slots_same2:
  "slots_ok dp hp k \<Longrightarrow> daemon_subscribed k' = daemon_subscribed k \<Longrightarrow> daemon_pid k' = daemon_pid k \<Longrightarrow>
    packet_hunter_subscribed k' = packet_hunter_subscribed k \<Longrightarrow>
    packet_hunter_pid k' = packet_hunter_pid k \<Longrightarrow> slots_ok dp hp k'"
  using subs_of_eqI [of k' "subs_of k"] by (simp add: slots_ok_def)

lemma slot_pid_cases:
  assumes "slots_ok dp hp k" and "kernel_inv k"
  shows "slot_pid c k \<in> {0, owner dp hp c}"
proof (cases "subs_of k c")
  case None
  then show ?thesis
    using assms(2) by (cases c) (auto simp: kernel_inv_def slot_pid_def split: if_splits)
next
  case (Some p)
  then have "slot_pid c k = p"
    by (cases c) (auto simp: slot_pid_def split: if_splits)
  then show ?thesis using Some assms(1) by (simp add: slots_ok_def)
qed

lemma parse_unsubscribe:
  "parse_command s = Unsubscribe c \<Longrightarrow> s = (case c of DaemonClient \<Rightarrow> ''daemon_unsubscribe''
    | HunterClient \<Rightarrow> ''packet_hunter_unsubscribe'')"
  by (simp add: parse_command_def split: if_splits)

text \<open>A command of a program: its slot, and the terminate message it may cause.\<close>

lemma command_slots:
  assumes c: "commands_done env [message_bytes pid msg] k k'" and k: "kernel_inv k"
    and slots: "slots_ok dp hp k"
    and m: "(msg, pid) \<in> {(''daemon_subscribe'', dp), (''daemon_unsubscribe'', dp),
      (''packet_hunter_subscribe'', hp), (''packet_hunter_unsubscribe'', hp)}"
  shows "slots_ok dp hp k' \<and> (\<forall>u \<in> set (unicasts k'). \<forall>q. stop_to q u \<longrightarrow> u \<in> set (unicasts k) \<or>
    (msg = ''daemon_unsubscribe'' \<and> q \<in> {0, dp}) \<or> (msg = ''packet_hunter_unsubscribe'' \<and> q \<in> {0, hp}))"
proof -
  have mem: "msg \<in> set program_commands"
    using m by (auto simp: program_commands_def)
  note one = commands_one [OF c mem k]
  have pc: "(parse_command msg, pid) \<in> {(Subscribe DaemonClient, dp), (Subscribe HunterClient, hp)} \<or>
      parse_command msg \<in> {Unsubscribe DaemonClient, Unsubscribe HunterClient}"
    using m by (auto simp: parse_command_def)
  have s: "subs_of k' = sub_spec (parse_command msg) pid (subs_of k)"
    using one by blast
  have step: "sub_spec (parse_command msg) pid t c = Some p \<Longrightarrow> p = owner dp hp c"
    if "\<forall>c p. t c = Some p \<longrightarrow> p = owner dp hp c" for t c p
    using pc that by (auto simp: owner_def split: if_splits)
  have "slots_ok dp hp k'"
    using step [OF slots [unfolded slots_ok_def]] unfolding slots_ok_def s by blast
  moreover have "u \<in> set (unicasts k) \<or> (msg = ''daemon_unsubscribe'' \<and> q \<in> {0, dp}) \<or>
      (msg = ''packet_hunter_unsubscribe'' \<and> q \<in> {0, hp})"
    if u: "u \<in> set (unicasts k')" and q: "stop_to q u" for u q
  proof (cases "u \<in> set (unicasts k)")
    case False
    then obtain c where c: "parse_command msg = Unsubscribe c" "stop_to (slot_pid c k) u"
      using one adds_set [OF _ u] by blast
    then have "q = slot_pid c k" using q by (simp add: stop_to_def)
    then show ?thesis
      using parse_unsubscribe [OF c(1)] slot_pid_cases [OF slots k, of c]
      by (cases c) (simp_all add: owner_def)
  qed simp
  ultimately show ?thesis by blast
qed

lemma hook_no_stop:
  assumes "packet_sniffer_hook e1 e2 (Some skb) k = Inr (v, k')" and "env_sized e1" and "env_sized e2"
    and "u \<in> set (unicasts k')" and "stop_to q u"
  shows "u \<in> set (unicasts k)"
proof (rule ccontr)
  assume "u \<notin> set (unicasts k)"
  then have "packet_report (Some skb) = Some (0, 0, 0, 0, nul)"
    using adds_set [OF hook_adds [OF assms(1-3)] assms(4)] assms(5) by (auto simp: stop_to_def)
  then show False
    by (auto simp: packet_report_def PROTO_TCP_def PROTO_UDP_def nul_def split: option.splits if_splits)
qed

section \<open>The receiving threads\<close>

lemma delivered_stop:
  assumes "traffic S" and "\<forall>skb \<in> set (seen S). \<not> null_packet skb"
    and "m \<in> set (delivered pid (kern S))" and "is_stop_pckt (pckt_of_mem (nlmsg_data m))"
  shows "\<exists>u \<in> set (unicasts (kern S)). stop_to pid u"
proof -
  obtain r where u: "(pid, m, r) \<in> set (unicasts (kern S))"
    using delivered_unicast [OF assms(3)] by blast
  have "pckt_key (pckt_of_mem (nlmsg_data m)) = (0, 0, 0, 0, proto (pckt_of_mem (nlmsg_data m)))"
    using assms(4) by (simp add: pckt_key_def is_stop_pckt_def)
  then have "\<not> (\<exists>skb \<in> set (seen S). packet_report (Some skb) = Some (snd (unicast_key (pid, m, r))))"
    using assms(2) by (auto simp: null_packet_def unicast_key_def)
  then obtain q where "stop_to q (pid, m, r)"
    using assms(1) u by (auto simp: traffic_def)
  then show ?thesis
    using u stop_to_pckt [of q pid m r] by blast
qed

text \<open>Why a receiving thread comes to hold a terminate message or to return.\<close>

lemma rx_stop:
  assumes st: "recvPacketInfoThread c g r (pc, s) = (pc', s')"
    and net: "net_recv (delivered pid k) n pc r n'" and k: "kernel_inv k"
    and "\<And>m. m \<in> set (delivered pid k) \<Longrightarrow> is_stop_pckt (pckt_of_mem (nlmsg_data m)) \<Longrightarrow> Q"
    and "\<And>a. pc = RxHave a \<Longrightarrow> stop_block (heap s) a \<Longrightarrow> Q"
    and "pc = RxTop \<Longrightarrow> \<not> running s \<Longrightarrow> Q" and "pc = RxEnd \<Longrightarrow> Q"
  shows "(pc' = RxEnd \<longrightarrow> Q) \<and> (\<forall>a. pc' = RxHave a \<longrightarrow> stop_block (heap s') a \<longrightarrow> Q)"
proof (cases "pc = RxRecv \<and> r \<noteq> ReadError")
  case True
  then have n: "n < length (delivered pid k)" "r = GotBytes (delivered pid k ! n)"
    using net by (simp_all add: net_recv_def)
  obtain m where m: "m \<in> set (delivered pid k)" "r = GotBytes m"
    using nth_mem [OF n(1)] n(2) by blast
  have "receivePacketInfo c g r (heap s) = heap_new (pckt_of_mem (nlmsg_data m)) (heap s)"
    using receive_wire delivered_wire [OF k m(1)] m(2) by blast
  then show ?thesis
    using st True assms(4) [OF m(1)]
    by (auto simp: heap_new_def stop_block_def Let_def split: if_splits)
next
  case False
  then show ?thesis
    using st assms(5-7)
    by (cases pc)
      (auto simp: receivePacketInfo_def stop_block_def split: option.splits if_splits)
qed

lemma daemon_main_rx:
  "(drx (main_step io s) = drx s \<or> drx (main_step io s) = RxTop) \<and>
    (stop_block (heap (dsh (main_step io s))) a \<longrightarrow> stop_block (heap (dsh s)) a)"
proof -
  have one: "cells (freePacketInfo b h) a = Some p \<Longrightarrow> cells h a = Some p" for b h p
    by (auto simp: freePacketInfo_def heap_delete_def split: if_splits)
  show ?thesis
    by (cases "dmain s")
      (auto simp: main_step_def stop_block_def split_beta Let_def cleanMessageQueue_eq
        split: option.split sum.split dest: one cells_delete_sub)
qed

lemma daemon_main_unsubscribe:
  "dmain (main_step io s) = MUnsubscribe \<Longrightarrow> stopped (main_step io s)"
  by (cases "dmain s")
    (auto simp: main_step_def stopped_def split_beta Let_def split: option.splits sum.splits if_splits)

lemma hunter_main_rx: "hrx (hunter_main io h) = hrx h \<or> hrx (hunter_main io h) = RxTop"
proof -
  have "hrx (snd (hunter_command io msg h)) = hrx h" for msg
    by (simp add: hunter_command_def split: prod.split bool.split option.split)
  then show ?thesis
    by (cases "hmain h")
      (auto simp: hunter_main_def split_beta Let_def
        split: option.split sum.split signal_death.split bool.split)
qed

section \<open>The invariant\<close>

lemma stops_mono: "stops_ok pid k b \<Longrightarrow> (b \<Longrightarrow> b') \<Longrightarrow> stops_ok pid k b'"
  by (auto simp: stops_ok_def)

lemma stops_new:
  "stops_ok pid k b \<Longrightarrow> (b \<Longrightarrow> b') \<Longrightarrow>
    (\<And>u. u \<in> set (unicasts k') \<Longrightarrow> stop_to pid u \<Longrightarrow> u \<in> set (unicasts k) \<or> b') \<Longrightarrow> stops_ok pid k' b'"
  unfolding stops_ok_def by blast

lemma d_rx_main: "d_rx_ok s \<Longrightarrow> (stopped s \<Longrightarrow> stopped (main_step io s)) \<Longrightarrow> d_rx_ok (main_step io s)"
  using daemon_main_rx [of io s] unfolding d_rx_ok_def by fastforce

lemma h_rx_main:
  assumes "h_rx_ok h" and "h_quit h \<Longrightarrow> h_quit (hunter_main io h)"
    and "\<And>a. stop_block (heap (hsh (hunter_main io h))) a \<Longrightarrow> stop_block (heap (hsh h)) a"
  shows "h_rx_ok (hunter_main io h)"
  using hunter_main_rx [of io h] assms unfolding h_rx_ok_def by fastforce

text \<open>What a program's command does to the module, with the program's state before it.\<close>

lemma d_main_kernel:
  assumes c: "commands_done env (drop (length (dcommands s)) (dcommands (main_step io s))) k k'"
    and io: "io_pid io = dp" and k: "kernel_inv k" and slots: "slots_ok dp hp k"
  shows "slots_ok dp hp k' \<and> (\<forall>u \<in> set (unicasts k'). \<forall>q. stop_to q u \<longrightarrow>
    u \<in> set (unicasts k) \<or> dmain s = MUnsubscribe \<and> q \<in> {0, dp})"
proof -
  note c = c [unfolded main_commands [OF io]]
  consider "commands_done env [message_bytes dp ''daemon_subscribe''] k k'"
    | "dmain s = MUnsubscribe" "commands_done env [message_bytes dp ''daemon_unsubscribe''] k k'"
    | "k' = k"
    using c by (auto split: if_splits)
  then show ?thesis
  proof cases
    case 1
    then show ?thesis using command_slots [OF 1 k slots] by auto
  next
    case 2
    then show ?thesis using command_slots [OF 2(2) k slots] by simp
  next
    case 3
    then show ?thesis using slots by simp
  qed
qed

lemma h_main_kernel:
  assumes c: "commands_done env (drop (length (hcommands h)) (hcommands (hunter_main io h))) k k'"
    and io: "hio_pid io = hp" and k: "kernel_inv k" and slots: "slots_ok dp hp k"
  shows "slots_ok dp hp k' \<and> (\<forall>u \<in> set (unicasts k'). \<forall>q. stop_to q u \<longrightarrow>
    u \<in> set (unicasts k) \<or> hmain (hunter_main io h) = HJoin \<and> q \<in> {0, hp})"
proof -
  note c = c [unfolded hunter_commands [OF io]]
  consider "commands_done env [message_bytes hp ''packet_hunter_subscribe''] k k'"
    | "hmain (hunter_main io h) = HJoin"
      "commands_done env [message_bytes hp ''packet_hunter_unsubscribe''] k k'"
    | "k' = k"
    using c by (auto split: if_splits)
  then show ?thesis
  proof cases
    case 1
    then show ?thesis using command_slots [OF 1 k slots] by auto
  next
    case 2
    then show ?thesis using command_slots [OF 2(2) k slots] by simp
  next
    case 3
    then show ?thesis using slots by simp
  qed
qed

lemma d_rx_recv:
  assumes ok: "d_rx_ok (dproc S)" and st: "stops_ok dp (kern S) (stopped (dproc S))"
    and run: "\<not> ended (dmain (dproc S))" and parts: "parts_ok S" and tr: "traffic S"
    and null: "\<forall>skb \<in> set (seen S). \<not> null_packet skb"
    and net: "net_recv (delivered dp (kern S)) n (drx (dproc S)) r n'"
    and mono: "stopped (dproc S) \<Longrightarrow> stopped (rx_thread g r (dproc S))"
  shows "d_rx_ok (rx_thread g r (dproc S))"
proof -
  let ?s = "dproc S"
  obtain pc sh where rx: "recvPacketInfoThread (dnl ?s) g r (drx ?s, dsh ?s) = (pc, sh)" by fastforce
  have k: "kernel_inv (kern S)" and ph: "phases_ok ?s"
    using parts by (simp_all add: parts_ok_def daemon_inv_def)
  have "(pc = RxEnd \<longrightarrow> stopped ?s) \<and> (\<forall>a. pc = RxHave a \<longrightarrow> stop_block (heap sh) a \<longrightarrow> stopped ?s)"
  proof (rule rx_stop [OF rx net k])
    show "stopped ?s" if "m \<in> set (delivered dp (kern S))" "is_stop_pckt (pckt_of_mem (nlmsg_data m))" for m
      using delivered_stop [OF tr null that] st by (auto simp: stops_ok_def)
    show "stopped ?s" if "drx ?s = RxTop" "\<not> running (dsh ?s)"
      using ph that run by (cases "dmain ?s") (auto simp: phases_ok_def stopped_def)
  qed (use ok in \<open>simp_all add: d_rx_ok_def\<close>)
  then show ?thesis
    using rx mono by (auto simp: d_rx_ok_def rx_thread_def)
qed

lemma h_rx_recv:
  assumes ok: "h_rx_ok (hproc S)" and st: "stops_ok hp (kern S) (h_quit (hproc S))"
    and parts: "parts_ok S" and tr: "traffic S"
    and null: "\<forall>skb \<in> set (seen S). \<not> null_packet skb"
    and net: "net_recv (delivered hp (kern S)) n (hrx (hproc S)) r n'"
  shows "h_rx_ok (hunter_rx g r (hproc S))"
proof -
  let ?h = "hproc S"
  obtain pc sh where rx: "recvPacketInfoThread (hnl ?h) g r (hrx ?h, hsh ?h) = (pc, sh)" by fastforce
  have k: "kernel_inv (kern S)"
    using parts by (simp add: parts_ok_def)
  have "(pc = RxEnd \<longrightarrow> h_quit ?h) \<and> (\<forall>a. pc = RxHave a \<longrightarrow> stop_block (heap sh) a \<longrightarrow> h_quit ?h)"
  proof (rule rx_stop [OF rx net k])
    show "h_quit ?h" if "m \<in> set (delivered hp (kern S))" "is_stop_pckt (pckt_of_mem (nlmsg_data m))" for m
      using delivered_stop [OF tr null that] st by (auto simp: stops_ok_def)
    show "h_quit ?h" if "hrx ?h = RxTop" "\<not> running (hsh ?h)"
      using that by (simp add: h_quit_def)
  qed (use ok in \<open>simp_all add: h_rx_ok_def\<close>)
  then show ?thesis
    using rx h_quit_rx [of ?h g r] by (auto simp: h_rx_ok_def hunter_rx_def)
qed

lemma receivers_okD:
  assumes "receivers_ok dp hp S"
  shows "slots_ok dp hp (kern S)" and "dmain (dproc S) = MUnsubscribe \<longrightarrow> stopped (dproc S)"
    and "stops_ok dp (kern S) (stopped (dproc S))" and "stops_ok hp (kern S) (h_quit (hproc S))"
    and "d_rx_ok (dproc S)" and "h_rx_ok (hproc S)"
  using assms by (simp_all add: receivers_ok_def)

lemma receivers_arrive:
  assumes ok: "receivers_ok dp hp S" and hook: "packet_sniffer_hook e1 e2 (Some skb) (kern S) = Inr (v, k')"
    and env: "env_sized e1" "env_sized e2"
  shows "receivers_ok dp hp (S\<lparr>kern := k', seen := seen S @ [skb]\<rparr>)"
proof -
  note o = receivers_okD [OF ok]
  have new: "u \<in> set (unicasts (kern S)) \<or> b" if "u \<in> set (unicasts k')" "stop_to q u" for u q b
    using hook_no_stop [OF hook env that] ..
  have "slots_ok dp hp k'"
    using hook_accepts [of e1 e2 "Some skb" "kern S"] hook slots_same [OF _ o(1)] by auto
  moreover have "stops_ok dp k' (stopped (dproc S))"
    by (rule stops_new [OF o(3)]) (assumption, rule new)
  moreover have "stops_ok hp k' (h_quit (hproc S))"
    by (rule stops_new [OF o(4)]) (assumption, rule new)
  ultimately show ?thesis
    using o(2,5,6) by (simp add: receivers_ok_def)
qed

lemma receivers_d_main:
  assumes ok: "receivers_ok dp hp S" and k: "kernel_inv (kern S)" and ids: "hp \<noteq> 0" "dp \<noteq> hp"
    and alive: "\<not> ended (dmain (dproc S))" "io_valid io (dproc S)" and io: "io_pid io = dp"
    and c: "commands_done env
      (drop (length (dcommands (dproc S))) (dcommands (main_step io (dproc S)))) (kern S) k'"
  shows "receivers_ok dp hp (S\<lparr>kern := k', dproc := main_step io (dproc S)\<rparr>)"
proof -
  note o = receivers_okD [OF ok]
  have stop: "stopped (dproc S) \<Longrightarrow> stopped (main_step io (dproc S))"
    using stopped_daemon_step [OF daemon_step.main [OF alive]] .
  note kern = d_main_kernel [OF c io k o(1)]
  have "stops_ok dp k' (stopped (main_step io (dproc S)))"
    by (rule stops_new [OF o(3) stop]) (use kern o(2) stop in blast)+
  moreover have "stops_ok hp k' (h_quit (hproc S))"
    by (rule stops_new [OF o(4)]) (use kern ids in blast)+
  ultimately show ?thesis
    using kern d_rx_main [OF o(5) stop] o(6) daemon_main_unsubscribe by (simp add: receivers_ok_def)
qed

lemma receivers_h_main:
  assumes ok: "receivers_ok dp hp S" and parts: "parts_ok S" and ids: "dp \<noteq> 0" "dp \<noteq> hp"
    and alive: "\<not> hunter_ended (hmain (hproc S))" and ord: "valid_iter (hio_ord io) (hmap (hproc S))"
    and io: "hio_pid io = hp"
    and c: "commands_done env
      (drop (length (hcommands (hproc S))) (hcommands (hunter_main io (hproc S)))) (kern S) k'"
  shows "receivers_ok dp hp (S\<lparr>kern := k', hproc := hunter_main io (hproc S), up := u, down := d\<rparr>)"
proof -
  note o = receivers_okD [OF ok]
  have quit: "h_quit (hproc S) \<Longrightarrow> h_quit (hunter_main io (hproc S))"
    using h_quit_main alive by blast
  have k: "kernel_inv (kern S)" and "hunter_mem (hproc S)" "hrx (hproc S) \<noteq> RxFault"
    using parts alive by (simp_all add: parts_ok_def hunter_inv_def hunter_ok_def)
  then have "h_rx_ok (hunter_main io (hproc S))"
    using h_rx_main [OF o(6) quit] hunter_main_uses ord unfolding stop_block_def by blast
  moreover note kern = h_main_kernel [OF c io k o(1)]
  moreover have "stops_ok dp k' (stopped (dproc S))"
    by (rule stops_new [OF o(3)]) (use kern ids in blast)+
  moreover have "stops_ok hp k' (h_quit (hunter_main io (hproc S)))"
    by (rule stops_new [OF o(4) quit]) (use kern in \<open>auto simp: h_quit_def\<close>)
  ultimately show ?thesis
    using o(2,5) by (simp add: receivers_ok_def)
qed

lemma receivers_d_recv:
  assumes ok: "receivers_ok dp hp S" and parts: "parts_ok S" and tr: "traffic S"
    and null: "\<forall>skb \<in> set (seen S). \<not> null_packet skb" and run: "\<not> ended (dmain (dproc S))"
    and net: "net_recv (delivered dp (kern S)) (d_taken S) (drx (dproc S)) r n"
  shows "receivers_ok dp hp (S\<lparr>dproc := rx_thread g r (dproc S), d_taken := n\<rparr>)"
proof -
  note o = receivers_okD [OF ok]
  have stop: "stopped (dproc S) \<Longrightarrow> stopped (rx_thread g r (dproc S))"
    using stopped_daemon_step [OF daemon_step.receiver [OF run]] .
  have "d_rx_ok (rx_thread g r (dproc S))"
    using d_rx_recv [OF o(5,3) run parts tr null net stop] .
  then show ?thesis
    using stop rx_frame [of g r "dproc S"] o by (auto simp: receivers_ok_def elim: stops_mono)
qed

lemma receivers_h_recv:
  assumes ok: "receivers_ok dp hp S" and parts: "parts_ok S" and tr: "traffic S"
    and null: "\<forall>skb \<in> set (seen S). \<not> null_packet skb"
    and net: "net_recv (delivered hp (kern S)) (h_taken S) (hrx (hproc S)) r n"
  shows "receivers_ok dp hp (S\<lparr>hproc := hunter_rx g r (hproc S), h_taken := n\<rparr>)"
proof -
  note o = receivers_okD [OF ok]
  have "h_rx_ok (hunter_rx g r (hproc S))"
    using h_rx_recv [OF o(6,4) parts tr null net] .
  then show ?thesis
    using h_quit_rx o by (auto simp: receivers_ok_def elim: stops_mono)
qed

lemma receivers_unload: "receivers_ok dp hp S \<Longrightarrow> receivers_ok dp hp (S\<lparr>kern := sniffer_exit (kern S)\<rparr>)"
proof -
  assume "receivers_ok dp hp S"
  note o = receivers_okD [OF this]
  have "slots_ok dp hp (sniffer_exit (kern S))"
    by (rule slots_same2 [OF o(1)]) (simp_all add: sniffer_exit_def Let_def pr_def)
  moreover have "unicasts (sniffer_exit (kern S)) = unicasts (kern S)"
    by (simp add: sniffer_exit_def Let_def)
  ultimately show ?thesis
    using o by (simp add: receivers_ok_def stops_ok_def)
qed

lemma receivers_step:
  assumes st: "sys_step dp hp S T" and parts: "parts_ok S" and tr: "traffic S"
    and null: "\<forall>skb \<in> set (seen T). \<not> null_packet skb" and ids: "dp \<noteq> 0" "hp \<noteq> 0" "dp \<noteq> hp"
    and ok: "receivers_ok dp hp S"
  shows "receivers_ok dp hp T"
proof -
  note o = receivers_okD [OF ok]
  show ?thesis
    using st
  proof (cases rule: sys_step.cases)
    case (arrive e1 e2 skb v k')
    then show ?thesis using receivers_arrive [OF ok] by blast
  next
    case unload_module
    then show ?thesis using receivers_unload [OF ok] by blast
  next
    case d_signal
    then show ?thesis
      using o by (auto simp: receivers_ok_def on_signal_def handleSignal_def stopped_def d_rx_ok_def
          elim: stops_mono)
  next
    case (d_main io env k')
    then show ?thesis
      using receivers_d_main [OF ok _ ids(2,3)] parts by (simp add: parts_ok_def)
  next
    case (d_client io u d c)
    have "stopped (dproc S) \<Longrightarrow> stopped (client_thread io (dproc S))"
      using stopped_daemon_step [OF daemon_step.client [OF d_client(2,3)]] .
    then show ?thesis
      using d_client(1) client_frame [of io "dproc S"] o
      by (auto simp: receivers_ok_def d_rx_ok_def elim: stops_mono)
  next
    case d_recv
    then show ?thesis using receivers_d_recv [OF ok parts tr] null by simp
  next
    case h_signal
    then show ?thesis
      using o h_quit_signal by (auto simp: receivers_ok_def h_rx_ok_def elim: stops_mono)
  next
    case (h_main io env k' u d)
    then show ?thesis using receivers_h_main [OF ok parts ids(1,3)] by blast
  next
    case h_recv
    then show ?thesis using receivers_h_recv [OF ok parts tr] null by simp
  qed
qed

lemma receivers_started:
  assumes "sys_started S"
  shows "receivers_ok dp hp S"
proof -
  obtain nl c where h: "hproc S = hunter_init nl c"
    using assms by (auto simp: sys_started_def hunter_started_def)
  have k: "kernel_loaded (kern S)" and d: "drx (dproc S) = RxIdle" "dmain (dproc S) = MSubscribe"
    using assms started_client by (auto simp: sys_started_def daemon_started_def daemon_init_def dest: sym)
  have "slots_ok dp hp (kern S)"
    unfolding slots_ok_def
  proof (intro allI impI)
    fix c p
    assume "subs_of (kern S) c = Some p"
    then show "p = owner dp hp c"
      using k by (cases c) (auto simp: kernel_loaded_def sniffer_init_def kernel_static_def pr_def)
  qed
  then show ?thesis
    using no_unicasts_loaded [OF k] d h
    by (simp add: receivers_ok_def stops_ok_def d_rx_ok_def h_rx_ok_def hunter_init_def)
qed

lemma receivers_reachable:
  assumes "sys_started S0" and "(sys_step dp hp)\<^sup>*\<^sup>* S0 S"
    and "dp \<noteq> 0" and "hp \<noteq> 0" and "dp \<noteq> hp"
  shows "(\<forall>skb \<in> set (seen S). \<not> null_packet skb) \<longrightarrow> receivers_ok dp hp S"
  using assms(2)
proof (induction rule: rtranclp_induct)
  case base
  then show ?case using receivers_started [OF assms(1)] by simp
next
  case (step S T)
  have "parts_ok S" "traffic S"
    using sysi.inv_reachable [OF assms(1) step(1)] by (simp_all add: sys_inv_def)
  then show ?case
    using receivers_step [OF step(2) _ _ _ assms(3-5)] seen_step [OF step(2)] step(3) by blast
qed

text \<open>
  C14: The receiving threads stay. In every run of the whole system in which no packet with all
  addresses and ports zero arrives, the daemon's receiving thread has returned only if the daemon
  is told to stop, and the hunter's only if the hunter is told to stop or has unsubscribed: no
  report is taken for a terminate message, and no program gets the other one's. Without that
  hypothesis the report of such a packet would end both threads.
\<close>

theorem receivers_stay:
  assumes "sys_started S0" and "(sys_step dp hp)\<^sup>*\<^sup>* S0 S" and "dp \<noteq> 0" and "hp \<noteq> 0" and "dp \<noteq> hp"
    and "\<forall>skb \<in> set (seen S). \<forall>c. packet_report (Some skb) \<noteq> Some (0, 0, 0, 0, c)"
  shows "(drx (dproc S) = RxEnd \<longrightarrow> \<not> running (dsh (dproc S))) \<and>
    (hrx (hproc S) = RxEnd \<longrightarrow> \<not> running (hsh (hproc S)) \<or>
      hmain (hproc S) \<in> {HJoin, HClean, HAsk, HSave, HFreeAll} \<or> hunter_ended (hmain (hproc S)))"
proof -
  have "receivers_ok dp hp S"
    using receivers_reachable [OF assms(1-5)] assms(6) by (simp add: null_packet_def)
  then show ?thesis
    by (simp add: receivers_ok_def d_rx_ok_def h_rx_ok_def stopped_def h_quit_def)
qed

text \<open>The report of a packet of zeros is a terminate message for every subscriber.\<close>

lemma null_packet_stops:
  assumes "null_packet skb" and "env_ok env_d" and "env_ok env_h"
  shows "\<exists>k' us. packet_sniffer_hook env_d env_h (Some skb) k = Inr (NF_ACCEPT, k') \<and>
    unicasts k' = unicasts k @ us \<and> map fst us = recipients k \<and>
    (\<forall>(pid, m, r) \<in> set us. is_stop_pckt (pckt_of_mem (nlmsg_data m)))"
proof -
  obtain c where c: "packet_report (Some skb) = Some (0, 0, 0, 0, c)"
    using assms(1) by (auto simp: null_packet_def)
  obtain k' us where h: "packet_sniffer_hook env_d env_h (Some skb) k = Inr (NF_ACCEPT, k')"
      "unicasts k' = unicasts k @ us" "map unicast_key us = map (\<lambda>pid. (pid, 0, 0, 0, 0, c)) (recipients k)"
    using hook_reports_eq [OF assms(2,3), of "Some skb" k] c by auto
  have "map fst us = map fst (map unicast_key us)"
    by (simp add: unicast_key_def case_prod_beta comp_def)
  then have "map fst us = recipients k"
    by (simp add: h(3) comp_def)
  moreover have "is_stop_pckt (pckt_of_mem (nlmsg_data m))" if "(pid, m, r) \<in> set us" for pid m r
  proof -
    have "unicast_key (pid, m, r) \<in> set (map unicast_key us)" using that by simp
    then show ?thesis
      by (auto simp: h(3) unicast_key_def pckt_key_def is_stop_pckt_def)
  qed
  ultimately show ?thesis using h(1,2) by blast
qed

theorem receivers_stay_witness:
  "\<exists>S0 S. sys_started S0 \<and> (sys_step 812 2900)\<^sup>*\<^sup>* S0 S \<and> seen S = [dns_reply] \<and>
     hmain (hproc S) = HInsert 1 2897 \<and> (hrx (hproc S) = RxEnd \<longrightarrow> \<not> running (hsh (hproc S)))"
proof -
  obtain S where S: "(sys_step 812 2900)\<^sup>*\<^sup>* sys1 S" "seen S = [dns_reply]" "hmain (hproc S) = HInsert 1 2897"
    using run_prints by blast
  have "packet_report (Some dns_reply) = Some (0x0302000A, 0x0F02000A, 53, 44280, PROTO_UDP)"
    by (simp add: packet_report_def dns_reply_def sizeof_iphdr_def IPPROTO_TCP_def IPPROTO_UDP_def be16_dns)
  then show ?thesis
    using receivers_stay [OF sys1_started S(1)] sys1_started S by auto
qed

end
