(* ===== verification/SystemWake.thy ===== *)
theory SystemWake
  imports SystemStop
begin

text \<open>
  Why the main threads do not wait in vain for their receiving threads. A terminate message in the
  netlink socket of a program is not lost: until the receiving thread has ended or holds it, there
  is a message to receive, so its \<open>recv\<close> returns.
\<close>

definition done_or_holds :: "rx_pc \<Rightarrow> packet_heap \<Rightarrow> bool" where
  "done_or_holds pc h \<longleftrightarrow> pc = RxEnd \<or> (\<exists>a. pc = RxHave a \<and> stop_block h a)"

definition stop_message :: "mem \<Rightarrow> bool" where
  "stop_message m \<longleftrightarrow> is_stop_pckt (pckt_of_mem (nlmsg_data m))"

text \<open>Of the messages \<open>ms\<close> the thread has taken \<open>n\<close>; a terminate message among them it has obeyed.\<close>

definition taken_ok :: "mem list \<Rightarrow> nat \<Rightarrow> rx_pc \<Rightarrow> packet_heap \<Rightarrow> bool" where
  "taken_ok ms n pc h \<longleftrightarrow> n \<le> length ms \<and> ((\<exists>m \<in> set (take n ms). stop_message m) \<longrightarrow> done_or_holds pc h)"

lemma taken_more: "taken_ok ms n pc h \<Longrightarrow> taken_ok (ms @ ms') n pc h"
  by (simp add: taken_ok_def)

lemma taken_same:
  "taken_ok ms n pc h \<Longrightarrow> (done_or_holds pc h \<Longrightarrow> done_or_holds pc' h') \<Longrightarrow> taken_ok ms n pc' h'"
  by (simp add: taken_ok_def)

lemma taken_rx:
  assumes ok: "taken_ok (delivered pid k) n pc (heap s)" and k: "kernel_inv k"
    and wf: "heap_wf (heap s)" and st: "recvPacketInfoThread c g r (pc, s) = (pc', s')"
    and net: "net_recv (delivered pid k) n pc r n'"
  shows "taken_ok (delivered pid k) n' pc' (heap s')"
proof (cases "pc = RxRecv \<and> r \<noteq> ReadError")
  case True
  let ?m = "delivered pid k ! n" and ?a = "next_ptr (heap s)"
  have n: "n < length (delivered pid k)" "r = GotBytes ?m" "n' = Suc n"
    using net True by (simp_all add: net_recv_def)
  have a: "?a \<noteq> nullptr" using wf by (auto simp: heap_wf_def)
  have "receivePacketInfo c g r (heap s) = heap_new (pckt_of_mem (nlmsg_data ?m)) (heap s)"
    using receive_wire delivered_wire [OF k nth_mem [OF n(1)]] n(2) by simp
  then have new: "pc' = RxHave ?a" "cells (heap s') ?a = Some (pckt_of_mem (nlmsg_data ?m))"
    using st True a by (auto simp: heap_new_def Let_def)
  have "\<not> done_or_holds pc (heap s)" using True by (simp add: done_or_holds_def)
  then have "\<not> (\<exists>m \<in> set (take n (delivered pid k)). stop_message m)"
    using ok by (simp add: taken_ok_def)
  moreover have "set (take n' (delivered pid k)) = insert ?m (set (take n (delivered pid k)))"
    using n by (simp add: take_Suc_conv_app_nth)
  ultimately show ?thesis
    using n new by (auto simp: taken_ok_def done_or_holds_def stop_block_def stop_message_def)
next
  case False
  then have "n' = n" using net by (simp add: net_recv_def split: if_splits)
  moreover have "done_or_holds pc (heap s) \<longrightarrow> done_or_holds pc' (heap s')"
    using st False
    by (cases pc) (auto simp: done_or_holds_def stop_block_def split: option.splits if_splits)
  ultimately show ?thesis using taken_same [OF ok] by simp
qed

section \<open>The main threads leave the message alone\<close>

lemma daemon_main_holds:
  assumes "memory_ok s" and "phases_ok s" and "done_or_holds (drx s) (heap (dsh s))"
    and "\<not> ended (dmain s)"
  shows "done_or_holds (drx (main_step io s)) (heap (dsh (main_step io s)))"
proof (cases "drx s = RxEnd \<or> (\<forall>a. dmain s \<noteq> MFree a)")
  case True
  have "drx (main_step io s) = drx s \<and> (drx s = RxEnd \<or> heap (dsh (main_step io s)) = heap (dsh s))"
    using True assms(2,3)
    by (cases "dmain s")
      (auto simp: main_step_def phases_ok_def done_or_holds_def split_beta Let_def
        split: option.split sum.split)
  then show ?thesis using assms(3) by (auto simp: done_or_holds_def)
next
  case False
  then obtain a b where pc: "drx s = RxHave a" "stop_block (heap (dsh s)) a" "dmain s = MFree b"
    using assms(3) by (auto simp: done_or_holds_def)
  then have "a \<noteq> b"
    using assms(1) by (auto simp: memory_ok_def owned_ok_def holders_def)
  then have "stop_block (heap (dsh (main_step io s))) a"
    using pc by (simp add: main_step_def stop_block_def freePacketInfo_def cells_delete_other)
  then show ?thesis using pc by (simp add: done_or_holds_def main_step_def)
qed

lemma hunter_main_holds:
  assumes "hunter_phases h" and "done_or_holds (hrx h) (heap (hsh h))" and "\<not> hunter_ended (hmain h)"
  shows "done_or_holds (hrx (hunter_main io h)) (heap (hsh (hunter_main io h)))"
proof -
  have "hrx (snd (hunter_command io msg h)) = hrx h \<and> hsh (snd (hunter_command io msg h)) = hsh h" for msg
    by (simp add: hunter_command_def split: prod.split bool.split option.split)
  then have "hrx (hunter_main io h) = hrx h \<and>
      (hrx h = RxEnd \<or> heap (hsh (hunter_main io h)) = heap (hsh h))"
    using assms
    by (cases "hmain h")
      (auto simp: hunter_main_def hunter_phases_def done_or_holds_def split_beta Let_def
        split: option.split sum.split signal_death.split bool.split)
  then show ?thesis using assms(2) by (auto simp: done_or_holds_def)
qed

section \<open>The invariant\<close>

definition awake :: "u32 \<Rightarrow> u32 \<Rightarrow> system \<Rightarrow> bool" where
  "awake dp hp S \<longleftrightarrow>
     taken_ok (delivered dp (kern S)) (d_taken S) (drx (dproc S)) (heap (dsh (dproc S))) \<and>
     taken_ok (delivered hp (kern S)) (h_taken S) (hrx (hproc S)) (heap (hsh (hproc S)))"

lemma adds_delivered: "adds P k k' \<Longrightarrow> \<exists>ms. delivered pid k' = delivered pid k @ ms"
  by (auto simp: adds_def delivered_def)

lemma step_delivered:
  assumes "sys_step dp hp S T" and "parts_ok S"
  shows "\<exists>ms. delivered pid (kern T) = delivered pid (kern S) @ ms"
  using assms(1)
proof (cases rule: sys_step.cases)
  case (arrive e1 e2 skb v k')
  then show ?thesis using adds_delivered [OF hook_adds [OF arrive(5,3,4)]] by simp
next
  case unload_module
  then show ?thesis by (simp add: delivered_def sniffer_exit_def Let_def)
next
  case (d_main io env k')
  have "kernel_inv (kern S)" using assms(2) by (simp add: parts_ok_def)
  then show ?thesis
    using adds_delivered [OF commands_add_stops [OF d_main(5) _ own_commands [OF d_main(4)]]] d_main(1)
    by simp
next
  case (h_main io env k' u d)
  have "kernel_inv (kern S)" using assms(2) by (simp add: parts_ok_def)
  then show ?thesis
    using adds_delivered [OF commands_add_stops [OF h_main(5) _ hunter_own_commands [OF h_main(4)]]]
      h_main(1) by simp
qed simp_all

lemma taken_grow:
  "sys_step dp hp S T \<Longrightarrow> parts_ok S \<Longrightarrow> taken_ok (delivered pid (kern S)) n pc h \<Longrightarrow>
    taken_ok (delivered pid (kern T)) n pc h"
  using step_delivered [of dp hp S T pid] taken_more by metis

lemma awake_recv_d:
  assumes "taken_ok (delivered dp (kern S)) (d_taken S) (drx (dproc S)) (heap (dsh (dproc S)))"
    and "parts_ok S" and net: "net_recv (delivered dp (kern S)) (d_taken S) (drx (dproc S)) r n"
  shows "taken_ok (delivered dp (kern S)) n (drx (rx_thread g r (dproc S))) (heap (dsh (rx_thread g r (dproc S))))"
proof -
  obtain pc sh where rx: "recvPacketInfoThread (dnl (dproc S)) g r (drx (dproc S), dsh (dproc S)) = (pc, sh)"
    by fastforce
  have "heap_wf (heap (dsh (dproc S)))" "kernel_inv (kern S)"
    using assms(2) by (simp_all add: parts_ok_def daemon_inv_def memory_ok_def owned_ok_def)
  then show ?thesis
    using taken_rx [OF assms(1) _ _ rx net] rx by (simp add: rx_thread_def)
qed

lemma awake_recv_h:
  assumes "taken_ok (delivered hp (kern S)) (h_taken S) (hrx (hproc S)) (heap (hsh (hproc S)))"
    and "parts_ok S" and run: "\<not> hunter_ended (hmain (hproc S))"
    and net: "net_recv (delivered hp (kern S)) (h_taken S) (hrx (hproc S)) r n"
  shows "taken_ok (delivered hp (kern S)) n (hrx (hunter_rx g r (hproc S))) (heap (hsh (hunter_rx g r (hproc S))))"
proof -
  obtain pc sh where rx: "recvPacketInfoThread (hnl (hproc S)) g r (hrx (hproc S), hsh (hproc S)) = (pc, sh)"
    by fastforce
  have "heap_wf (heap (hsh (hproc S)))" "kernel_inv (kern S)"
    using assms(2) run hunter_mem_owned by (simp_all add: parts_ok_def hunter_inv_def hunter_ok_def)
  then show ?thesis
    using taken_rx [OF assms(1) _ _ rx net] rx by (simp add: hunter_rx_def)
qed

lemma awake_step:
  assumes st: "sys_step dp hp S T" and parts: "parts_ok S" and ok: "awake dp hp S"
  shows "awake dp hp T"
proof -
  have k: "kernel_inv (kern S)" and d: "memory_ok (dproc S)" "phases_ok (dproc S)"
    and h: "hunter_inv (hproc S)"
    using parts by (simp_all add: parts_ok_def daemon_inv_def)
  have okd: "taken_ok (delivered dp (kern T)) (d_taken S) (drx (dproc S)) (heap (dsh (dproc S)))"
    and okh: "taken_ok (delivered hp (kern T)) (h_taken S) (hrx (hproc S)) (heap (hsh (hproc S)))"
    using taken_grow [OF st parts] ok by (simp_all add: awake_def)
  show ?thesis
    using st
  proof (cases rule: sys_step.cases)
    case d_signal
    then show ?thesis using okd okh by (simp add: awake_def on_signal_def handleSignal_def)
  next
    case (d_main io env k')
    then show ?thesis
      using taken_same [OF okd daemon_main_holds [OF d]] okh by (simp add: awake_def)
  next
    case (d_client io u dn c)
    then show ?thesis
      using okd okh client_frame [of io "dproc S"] by (simp add: awake_def)
  next
    case (d_recv r n g)
    then show ?thesis
      using awake_recv_d [OF _ parts d_recv(3)] okd okh by (simp add: awake_def)
  next
    case h_signal
    then show ?thesis using okd okh by (simp add: awake_def hunter_signal_def handleSignal_def)
  next
    case (h_main io env k' u dn)
    then show ?thesis
      using taken_same [OF okh hunter_main_holds] h okd by (simp add: awake_def hunter_inv_def)
  next
    case (h_recv r n g)
    then show ?thesis
      using awake_recv_h [OF _ parts h_recv(2,3)] okd okh by (simp add: awake_def)
  qed (use okd okh in \<open>simp_all add: awake_def\<close>)
qed

lemma awake_started: "sys_started S \<Longrightarrow> awake dp hp S"
  by (simp add: awake_def taken_ok_def sys_started_def)

definition awake_inv :: "u32 \<Rightarrow> u32 \<Rightarrow> system \<Rightarrow> bool" where
  "awake_inv dp hp S \<longleftrightarrow> parts_ok S \<and> awake dp hp S"

interpretation wakes: transition_invariant sys_started "sys_step dp hp" "awake_inv dp hp" for dp hp
  by unfold_locales
    (auto simp: awake_inv_def intro: parts_started awake_started parts_step awake_step)

lemma delivered_stays:
  assumes "(sys_step dp hp)\<^sup>*\<^sup>* S T" and "parts_ok S" and "m \<in> set (delivered pid (kern S))"
  shows "m \<in> set (delivered pid (kern T))"
proof -
  have "parts_ok T \<and> m \<in> set (delivered pid (kern T))"
    using assms(1)
  proof (induction rule: rtranclp_induct)
    case base
    then show ?case using assms(2,3) by simp
  next
    case (step T U)
    then show ?case using step_delivered [OF step(2), of pid] parts_step [OF step(2)] by auto
  qed
  then show ?thesis by blast
qed

text \<open>
  C15: The main threads do not wait in vain. When the module has processed the unsubscription of
  the subscribed daemon, its allocations have succeeded and its message was delivered, then in
  every later state of the system the daemon's receiving thread has ended, or holds a message, or
  there is a message for it to receive: it is never left blocked in \<open>recv\<close>, so the main thread's
  \<open>join\<close> returns.
\<close>

theorem unsubscription_wakes:
  assumes "sys_started S0" and "(sys_step dp hp)\<^sup>*\<^sup>* S0 S"
    and "daemon_subscribed (kern S)" and "daemon_pid (kern S) = dp"
    and "env_ok env" and "0 \<le> env_unicast env"
    and "sys_step dp hp S T"
    and "nl_recv_msg env (Some (message_bytes dp ''daemon_unsubscribe'')) (kern S) = Inr (kern T)"
    and "(sys_step dp hp)\<^sup>*\<^sup>* T U"
  shows "drx (dproc U) = RxEnd \<or> (\<exists>a. drx (dproc U) = RxHave a) \<or>
    d_taken U < length (delivered dp (kern U))"
proof -
  let ?msg = "''daemon_unsubscribe''"
  have mem: "?msg \<in> set program_commands" and pc: "parse_command ?msg = Unsubscribe DaemonClient"
    by (simp_all add: program_commands_def parse_command_def)
  obtain m where m: "unicasts (kern T) = unicasts (kern S) @ [(slot_pid DaemonClient (kern S), m, env_unicast env)]"
      "is_stop_pckt (pckt_of_mem (nlmsg_data m))"
    using nl_recv_stop [OF command_text [OF mem] pc assms(5), of dp "kern S"] assms(8) by auto
  have T: "(sys_step dp hp)\<^sup>*\<^sup>* S0 T"
    using assms(2,7) by simp
  have "m \<in> set (delivered dp (kern T))"
    using m(1) assms(4,6) by (simp add: delivered_def slot_pid_def)
  then have in_U: "m \<in> set (delivered dp (kern U))"
    using delivered_stays [OF assms(9)] wakes.inv_reachable [OF assms(1) T] by (simp add: awake_inv_def)
  have "awake dp hp U"
    using wakes.inv_reachable [OF assms(1) rtranclp_trans [OF T assms(9)]] by (simp add: awake_inv_def)
  then have "taken_ok (delivered dp (kern U)) (d_taken U) (drx (dproc U)) (heap (dsh (dproc U)))"
    by (simp add: awake_def)
  then show ?thesis
    using in_U m(2) by (auto simp: taken_ok_def done_or_holds_def stop_message_def not_less)
qed

section \<open>A daemon that is told to stop\<close>

definition dst :: "main_pc \<Rightarrow> rx_pc \<Rightarrow> bool \<Rightarrow> mem list \<Rightarrow> daemon" where
  "dst pc rx run cmds = daemon1\<lparr>dsh := \<lparr>running = run, heap = heap_init, mqueue = mq_init\<rparr>, drx := rx,
     dmain := pc, dcommands := cmds\<rparr>"

definition sub_cmd :: mem where
  "sub_cmd = message_bytes 812 ''daemon_subscribe''"

definition unsub_cmd :: mem where
  "unsub_cmd = message_bytes 812 ''daemon_unsubscribe''"

lemma dst_steps:
  "main_step io0 (dst MSubscribe RxIdle True []) = dst MSetRunning RxIdle True [sub_cmd]"
  "main_step io0 (dst MSetRunning RxIdle True cs) = dst MSpawn RxIdle True cs"
  "main_step io0 (dst MSpawn RxIdle True cs) = dst MTop RxTop True cs"
  "on_signal (dst MTop RxTop True cs) = dst MTop RxTop False cs"
  "main_step io0 (dst MTop RxTop False cs) = dst MUnsubscribe RxTop False cs"
  "main_step io0 (dst MUnsubscribe RxTop False cs) = dst MJoinRx RxTop False (cs @ [unsub_cmd])"
  by (simp_all add: dst_def daemon1_def daemon0_def sub_cmd_def unsub_cmd_def io0_def main_step_def
      on_signal_def handleSignal_def send_command_def sendMessage_def)

lemma dst_sel: "dmain (dst pc rx run cs) = pc" "dcommands (dst pc rx run cs) = cs" "io_valid io0 (dst pc rx run cs)"
    "io_pid io0 = 812"
  by (simp_all add: dst_def daemon1_def daemon0_def io_valid_def io0_def fd_result_def fresh_fd_def)

lemma dst_main:
  assumes "main_step io0 (dst pc rx run cs) = dst pc' rx' run' (cs @ new)" and "\<not> ended pc"
    and "commands_done good_env new k k'"
  shows "sys_step 812 2900 (at_port k (dst pc rx run cs) h 0 [] [] False [])
    (at_port k' (dst pc' rx' run' (cs @ new)) h 0 [] [] False [])"
proof -
  let ?S = "at_port k (dst pc rx run cs) h 0 [] [] False []"
  have "sys_step 812 2900 ?S (?S\<lparr>kern := k', dproc := main_step io0 (dproc ?S)\<rparr>)"
    by (rule d_main [where env = good_env]) (use assms in \<open>simp_all add: dst_sel\<close>)
  then show ?thesis using assms(1) by (simp add: at_port_def)
qed

lemma step_dst:
  assumes "main_step io0 (dst pc rx run cs) = dst pc' rx' run' cs" and "\<not> ended pc"
  shows "sys_step 812 2900 (at_port k (dst pc rx run cs) hunter0 0 [] [] False [])
    (at_port k (dst pc' rx' run' cs) hunter0 0 [] [] False [])"
  using dst_main [of pc rx run cs pc' rx' run' "[]" k k] assms
  by (simp add: commands_done_def env_sized_def good_env_def)

text \<open>The daemon subscribes, starts its threads, gets a signal and leaves its loop.\<close>

lemma run_to_unsubscribe:
  assumes cmd: "commands_done good_env [sub_cmd] kernel1 k"
  shows "(sys_step 812 2900)\<^sup>*\<^sup>* sys1
    (at_port k (dst MUnsubscribe RxTop False [sub_cmd]) hunter0 0 [] [] False [])"
proof -
  let ?at = "\<lambda>k d. at_port k d hunter0 0 [] [] False []"
  have start: "sys1 = ?at kernel1 (dst MSubscribe RxIdle True [])"
    by (simp add: sys1_def at_port_def dst_def daemon1_def daemon0_def)
  have 1: "sys_step 812 2900 (?at kernel1 (dst MSubscribe RxIdle True [])) (?at k (dst MSetRunning RxIdle True [sub_cmd]))"
    using dst_main [of MSubscribe RxIdle True "[]" MSetRunning RxIdle True "[sub_cmd]"] dst_steps(1) cmd
    by simp
  have 2: "sys_step 812 2900 (?at k (dst MSetRunning RxIdle True [sub_cmd])) (?at k (dst MSpawn RxIdle True [sub_cmd]))"
    by (rule step_dst) (simp_all add: dst_steps)
  have 3: "sys_step 812 2900 (?at k (dst MSpawn RxIdle True [sub_cmd])) (?at k (dst MTop RxTop True [sub_cmd]))"
    by (rule step_dst) (simp_all add: dst_steps)
  have 4: "sys_step 812 2900 (?at k (dst MTop RxTop True [sub_cmd])) (?at k (dst MTop RxTop False [sub_cmd]))"
    using d_signal [of "?at k (dst MTop RxTop True [sub_cmd])" 812 2900]
    by (simp add: dst_sel dst_steps at_port_def)
  have 5: "sys_step 812 2900 (?at k (dst MTop RxTop False [sub_cmd])) (?at k (dst MUnsubscribe RxTop False [sub_cmd]))"
    by (rule step_dst) (simp_all add: dst_steps)
  show ?thesis
    unfolding start using 1 2 3 4 5 by (meson rtranclp.rtrancl_into_rtrancl rtranclp.rtrancl_refl)
qed

theorem unsubscription_wakes_witness:
  "\<exists>S0 T. sys_started S0 \<and> (sys_step 812 2900)\<^sup>*\<^sup>* S0 T \<and> dmain (dproc T) = MJoinRx \<and>
     drx (dproc T) = RxTop \<and> d_taken T < length (delivered 812 (kern T))"
proof -
  let ?at = "\<lambda>k d. at_port k d hunter0 0 [] [] False []"
  let ?sub = "''daemon_subscribe''" and ?uns = "''daemon_unsubscribe''"
  have k0: "nl_sock_open kernel1" "\<not> daemon_subscribed kernel1"
    by (simp_all add: kernel1_def sniffer_init_def kernel_static_def pr_def)
  have mem: "?sub \<in> set program_commands" "?uns \<in> set program_commands"
    and uns: "parse_command ?uns = Unsubscribe DaemonClient"
    by (simp_all add: program_commands_def parse_command_def)
  obtain k1 where k1: "nl_recv_msg good_env (Some sub_cmd) kernel1 = Inr k1" "nl_sock_open k1"
      "daemon_subscribed k1" "daemon_pid k1 = 812"
    using k0 message_bytes_command [of 812 ?sub]
    by (auto simp: sub_cmd_def nl_recv_cases [OF command_text [OF mem(1)]] parse_command_def pr_def)
  obtain k2 where k2: "nl_recv_msg good_env (Some unsub_cmd) k1 = Inr k2"
    using nl_recv_stop [OF command_text [OF mem(2)] uns env_ok_good, of 812 k1]
    by (auto simp: unsub_cmd_def)
  have env: "commands_done good_env [sub_cmd] kernel1 k1" "commands_done good_env [unsub_cmd] k1 k2"
    using k0(1) k1(1,2) k2 by (simp_all add: commands_done_def env_sized_def good_env_def)
  note S = run_to_unsubscribe [OF env(1)]
  have 6: "sys_step 812 2900 (?at k1 (dst MUnsubscribe RxTop False [sub_cmd]))
      (?at k2 (dst MJoinRx RxTop False ([sub_cmd] @ [unsub_cmd])))"
    by (rule dst_main) (simp_all add: dst_steps env)
  let ?T = "?at k2 (dst MJoinRx RxTop False ([sub_cmd] @ [unsub_cmd]))"
  have "drx (dproc ?T) = RxTop" by (simp add: dst_def)
  moreover have "drx (dproc ?T) = RxEnd \<or> (\<exists>a. drx (dproc ?T) = RxHave a) \<or>
      d_taken ?T < length (delivered 812 (kern ?T))"
    using unsubscription_wakes [OF sys1_started S _ _ env_ok_good _ 6 _ rtranclp.rtrancl_refl] k1(3,4) k2
    by (simp add: unsub_cmd_def good_env_def)
  ultimately have "d_taken ?T < length (delivered 812 (kern ?T))" by simp
  moreover have "(sys_step 812 2900)\<^sup>*\<^sup>* sys1 ?T" using S 6 by simp
  ultimately show ?thesis
    using sys1_started by (intro exI [of _ sys1] exI [of _ ?T]) (simp add: dst_sel, simp add: dst_def)
qed

end
