(* ===== verification/SystemSession.thy ===== *)
theory SystemSession
  imports SystemLog
begin

text \<open>
  The session type of the connection between hunter and daemon. Neither end frames or numbers its
  messages: a question is two bare bytes (\<open>sendPort\<close>, \<open>receivePort\<close>) and an answer four (\<open>sendPid\<close>,
  \<open>receivePid\<close>), and each side takes the bytes it finds for what it expects. Here every reachable
  state of the whole system gets a type that says how far the exchange has come and which bytes are
  on their way, and every step moves the type along the protocol.
\<close>

section \<open>The types of the exchange\<close>

datatype talk = Quiet | Asked u16 | Served u16 | Answered u16 pid_t | Lost u16 | Over

text \<open>The hunter waits for the answer to the question about this port.\<close>

definition waits_for :: "system \<Rightarrow> u16 \<Rightarrow> bool" where
  "waits_for S q \<longleftrightarrow>
     (\<exists>a p. hmain (hproc S) = HReceive a \<and> cells (heap (hsh (hproc S))) a = Some p \<and> dst_port p = q)"

inductive talk_is :: "system \<Rightarrow> talk \<Rightarrow> bool" where
  quiet: "may_ask (hmain (hproc S)) \<Longrightarrow> up S = [] \<Longrightarrow> down S = [] \<Longrightarrow>
      \<not> serving (dclient (dproc S)) \<Longrightarrow> talk_is S Quiet"
| asked: "waits_for S q \<Longrightarrow> up S = word_bytes q \<Longrightarrow> down S = [] \<Longrightarrow>
      \<not> serving (dclient (dproc S)) \<Longrightarrow> (accepted S \<Longrightarrow> in_session (dclient (dproc S))) \<Longrightarrow>
      talk_is S (Asked q)"
| served: "waits_for S q \<Longrightarrow> up S = [] \<Longrightarrow> down S = [] \<Longrightarrow>
      dclient (dproc S) = CLookup q \<or> (\<exists>pid. dclient (dproc S) = CSend q pid) \<Longrightarrow>
      talk_is S (Served q)"
| answered: "waits_for S q \<Longrightarrow> up S = [] \<Longrightarrow> down S = word_bytes pid \<Longrightarrow>
      (q, pid) \<in> set (danswers (dproc S)) \<Longrightarrow> \<not> serving (dclient (dproc S)) \<Longrightarrow>
      talk_is S (Answered q pid)"
| lost: "waits_for S q \<Longrightarrow> length (down S) < 4 \<Longrightarrow> \<not> serving (dclient (dproc S)) \<Longrightarrow>
      up S = [] \<or> accepted S \<and> \<not> in_session (dclient (dproc S)) \<Longrightarrow> talk_is S (Lost q)"
| over: "\<not> may_ask (hmain (hproc S)) \<Longrightarrow> (\<And>a. hmain (hproc S) \<noteq> HReceive a) \<Longrightarrow> talk_is S Over"

inductive_simps talk_simps:
  "talk_is S Quiet" "talk_is S (Asked q)" "talk_is S (Served q)" "talk_is S (Answered q pid)"
  "talk_is S (Lost q)" "talk_is S Over"

text \<open>The protocol: what may follow what.\<close>

fun talk_next :: "talk \<Rightarrow> talk \<Rightarrow> bool" where
  "talk_next Quiet Quiet = True"
| "talk_next Quiet (Asked q) = True"
| "talk_next Quiet (Lost q) = True"
| "talk_next (Asked q) (Asked r) = (q = r)"
| "talk_next (Asked q) (Served r) = (q = r)"
| "talk_next (Asked q) (Lost r) = (q = r)"
| "talk_next (Served q) (Served r) = (q = r)"
| "talk_next (Served q) (Answered r pid) = (q = r)"
| "talk_next (Served q) (Lost r) = (q = r)"
| "talk_next (Answered q pid) (Answered r pid') = (q = r \<and> pid = pid')"
| "talk_next (Answered q pid) Quiet = True"
| "talk_next (Lost q) (Lost r) = (q = r)"
| "talk_next t Over = True"
| "talk_next t u = False"

lemma talk_next_refl [simp]: "talk_next t t"
  by (cases t) simp_all

lemma talk_next_over [simp]: "talk_next t Over"
  by (cases t) simp_all

section \<open>Every state has one type\<close>

lemma waits_one: "waits_for S q \<Longrightarrow> waits_for S r \<Longrightarrow> q = r"
  by (auto simp: waits_for_def)

lemma waits_pc: "waits_for S q \<Longrightarrow> \<not> may_ask (hmain (hproc S)) \<and> (\<exists>a. hmain (hproc S) = HReceive a)"
  by (auto simp: waits_for_def)

lemma word_bytes_some:
  "\<not> length (word_bytes (pid :: pid_t)) < 4" "word_bytes (pid :: pid_t) \<noteq> []"
  "word_bytes (q :: u16) \<noteq> []" "[] \<noteq> word_bytes (pid :: pid_t)"
  "[] \<noteq> word_bytes (q :: u16)"
proof -
  have "length (word_bytes pid) = 4" "length (word_bytes q) = 2" by simp_all
  then show "\<not> length (word_bytes pid) < 4" "word_bytes pid \<noteq> []" "word_bytes q \<noteq> []"
      "[] \<noteq> word_bytes pid" "[] \<noteq> word_bytes q"
    by (auto simp del: length_word_bytes)
qed

text \<open>The type of a state in which the hunter waits, and of one in which it does not.\<close>

lemma talk_waiting:
  assumes "talk_is S t" and "waits_for S q"
  shows "t \<in> {Asked q, Served q, Lost q} \<or> (\<exists>pid. t = Answered q pid)"
  using assms(1)
proof cases
  case quiet
  then show ?thesis using waits_pc [OF assms(2)] by simp
next
  case over
  then show ?thesis using waits_pc [OF assms(2)] by blast
qed (use waits_one [OF assms(2)] in simp_all)

lemma talk_not_waiting:
  assumes "talk_is S t" and "\<And>q. \<not> waits_for S q"
  shows "t = (if may_ask (hmain (hproc S)) then Quiet else Over)"
  using assms by cases simp_all

lemma talk_unique:
  assumes "talk_is S t" and "talk_is S u"
  shows "t = u"
proof (cases "\<exists>q. waits_for S q")
  case True
  then obtain q where q: "waits_for S q" by blast
  show ?thesis
    using talk_waiting [OF assms(1) q] talk_waiting [OF assms(2) q] assms codec_u32.enc_inj
    by (auto simp: talk_simps word_bytes_some)
next
  case False
  then show ?thesis using talk_not_waiting assms by metis
qed

lemma question_talk:
  assumes "question S q" and "waits_for S q"
  shows "talk_is S (Asked q) \<or> talk_is S (Served q) \<or> talk_is S (Lost q) \<or> (\<exists>pid. talk_is S (Answered q pid))"
proof -
  have "down S = [] \<Longrightarrow> length (down S) < 4" by simp
  then show ?thesis
    using assms unfolding question_def talk_simps told_def by blast
qed

lemma dialogue_talk:
  assumes "dialogue S" and "hunter_ok (hproc S)"
  shows "\<exists>t. talk_is S t"
proof (cases "\<exists>a. hmain (hproc S) = HReceive a")
  case True
  then obtain a where a: "hmain (hproc S) = HReceive a" by blast
  then have "hunter_mem (hproc S)"
    using assms(2) by (simp add: hunter_ok_def)
  then have "a \<in> live (heap (hsh (hproc S)))"
    using hunter_mem_owned a by (fastforce simp: hunter_holders_def)
  then obtain p where p: "cells (heap (hsh (hproc S))) a = Some p" by auto
  then have "question S (dst_port p)" "waits_for S (dst_port p)"
    using assms(1) a by (simp_all add: dialogue_def talk_ok_def waits_for_def)
  then show ?thesis using question_talk by blast
next
  case False
  then show ?thesis
    using assms(1) by (cases "may_ask (hmain (hproc S))")
      (auto simp: dialogue_def talk_ok_def silent_def intro: quiet over)
qed

section \<open>Every step follows the protocol\<close>

lemma talk_cong:
  assumes "undisturbed S T" and "talk_is S t"
  shows "talk_is T t"
proof -
  note same = assms(1) [unfolded undisturbed_def]
  have "waits_for T q = waits_for S q" for q
    using same by (cases "hmain (hproc S)") (simp_all add: waits_for_def in_use_def)
  then show ?thesis
    using assms(2) same by (cases t) (simp_all add: talk_simps)
qed

text \<open>What the daemon's client thread cannot do: put bytes back, or answer without a question.\<close>

lemma client_keeps:
  assumes "client_streams io S u d c"
  shows "(up S = [] \<longrightarrow> u = []) \<and> (\<not> serving (dclient (dproc S)) \<longrightarrow> d = down S) \<and>
    (up S = [] \<and> \<not> serving (dclient (dproc S)) \<longrightarrow> \<not> serving (dclient (client_thread io (dproc S))))"
proof (cases "dclient (dproc S)")
  case (CRead port)
  then show ?thesis
    using assms read_nothing [of "io_read io" u port]
    by (auto simp: client_streams_def client_thread_def split: prod.split)
qed (use assms in \<open>auto simp: client_streams_def client_thread_def Let_def split: prod.split\<close>)

lemma client_gone:
  assumes "client_streams io S u d c" and "accepted S" and "\<not> in_session (dclient (dproc S))"
  shows "c \<and> \<not> in_session (dclient (client_thread io (dproc S)))"
proof (cases "dclient (dproc S)")
  case CAccept
  then show ?thesis
    using assms client_accepts [OF CAccept, of io] by (auto simp: client_streams_def)
qed (use assms in \<open>auto simp: client_streams_def client_thread_def Let_def split: prod.split\<close>)

lemma talk_client:
  assumes str: "client_streams io S u d c"
    and T: "T = S\<lparr>dproc := client_thread io (dproc S), up := u, down := d, accepted := c\<rparr>"
    and t: "talk_is S t" and t': "talk_is T t'"
  shows "talk_next t t'"
proof (cases "\<exists>q. waits_for S q")
  case False
  moreover have "waits_for T q = waits_for S q" for q
    using T by (simp add: waits_for_def)
  ultimately have "t = t'"
    using talk_not_waiting [OF t] talk_not_waiting [OF t'] T by simp
  then show ?thesis by simp
next
  case True
  then obtain q where q: "waits_for S q" "waits_for T q"
    using T by (auto simp: waits_for_def)
  have gone: "accepted S \<and> \<not> in_session (dclient (dproc S)) \<Longrightarrow>
      accepted T \<and> \<not> in_session (dclient (dproc T))"
    using client_gone [OF str] T by simp
  have keeps: "up S = [] \<longrightarrow> up T = []" "\<not> serving (dclient (dproc S)) \<longrightarrow> down T = down S"
      "up S = [] \<and> \<not> serving (dclient (dproc S)) \<longrightarrow> \<not> serving (dclient (dproc T))"
      "serving (dclient (dproc T)) \<longrightarrow> in_session (dclient (dproc T))"
    using client_keeps [OF str] serving_session [of "dclient (dproc T)"] T by simp_all
  have short: "length (down S) < 4 \<longrightarrow> word_bytes (pid :: pid_t) \<noteq> down S" for pid
    using word_bytes_some(1) [of pid] by metis
  consider "t' = Asked q" | "t' = Served q" | "t' = Lost q" | pid where "t' = Answered q pid"
    using talk_waiting [OF t' q(2)] by blast
  then show ?thesis
    by cases (use talk_waiting [OF t q(1)] t t' keeps gone short in
        \<open>elim disjE exE insertE; simp add: talk_simps word_bytes_some codec_u32.enc_inj; (elim conjE disjE exE; simp)?\<close>)+
qed

text \<open>The hunter's main thread.\<close>

lemma hunter_quiet_moves:
  assumes "\<And>a. hmain h \<noteq> HSendPort a" and "\<And>a. hmain h \<noteq> HReceive a"
  shows "hmain (hunter_main io h) \<noteq> HReceive b \<and>
    (\<not> may_ask (hmain h) \<longrightarrow> \<not> may_ask (hmain (hunter_main io h)))"
  using assms
  by (cases "hmain h") (auto simp: hunter_main_def split_beta Let_def
      split: option.split sum.split signal_death.split bool.split)

lemma receive_moves:
  assumes pc: "hmain h = HReceive a"
  shows "hmain (hunter_main io h) = HUnsubscribe \<or>
    (\<exists>pid. receivePid (hclient h) (hio_uninit io) (hio_read io) = (True, pid) \<and>
      hmain (hunter_main io h) = HPrint a pid)"
  by (cases "receivePid (hclient h) (hio_uninit io) (hio_read io)") (simp add: hunter_main_def pc)

lemma talk_receives:
  assumes pc: "hmain (hproc S) = HReceive a" and str: "hunter_streams io S u d"
    and r: "receivePid (hclient (hproc S)) (hio_uninit io) (hio_read io) = (True, pid)"
    and t: "talk_is S t"
  shows "\<exists>q. t = Answered q pid"
proof -
  have s: "stream_read 4 (down S) (hio_read io) d"
    using str pc by (simp add: hunter_streams_def)
  have "length (down S) \<le> 4"
    using t by cases (use pc in auto)
  then have dn: "down S = word_bytes pid"
    using receive_answer [OF s r] by simp
  show ?thesis
    using t by cases (use dn pc word_bytes_some in \<open>auto simp: codec_u32.enc_inj\<close>)
qed

lemma talk_hunter_receives:
  assumes pc: "hmain (hproc S) = HReceive a" and str: "hunter_streams io S u d"
    and T: "T = S\<lparr>kern := k', hproc := hunter_main io (hproc S), up := u, down := d\<rparr>"
    and t: "talk_is S t" and t': "talk_is T t'"
  shows "t' = Over \<or> (\<exists>q pid. t = Answered q pid \<and> t' = Quiet \<and> hmain (hproc T) = HPrint a pid)"
  using receive_moves [OF pc, of io]
proof (elim disjE exE conjE)
  assume "hmain (hunter_main io (hproc S)) = HUnsubscribe"
  then show ?thesis
    using talk_not_waiting [OF t'] T by (simp add: waits_for_def)
next
  fix pid
  assume r: "receivePid (hclient (hproc S)) (hio_uninit io) (hio_read io) = (True, pid)"
    and h: "hmain (hunter_main io (hproc S)) = HPrint a pid"
  then have "t' = Quiet"
    using talk_not_waiting [OF t'] T by (simp add: waits_for_def)
  then show ?thesis
    using talk_receives [OF pc str r t] h T by simp
qed

lemma talk_hunter:
  assumes str: "hunter_streams io S u d"
    and T: "T = S\<lparr>kern := k', hproc := hunter_main io (hproc S), up := u, down := d\<rparr>"
    and t: "talk_is S t" and t': "talk_is T t'"
  shows "talk_next t t' \<and>
    (\<forall>q pid. t = Answered q pid \<and> t' = Quiet \<longrightarrow> (\<exists>a. hmain (hproc T) = HPrint a pid))"
proof -
  consider (HReceive) a where "hmain (hproc S) = HReceive a"
    | (HSendPort) a where "hmain (hproc S) = HSendPort a"
    | (other) "\<And>a. hmain (hproc S) \<noteq> HReceive a" "\<And>a. hmain (hproc S) \<noteq> HSendPort a"
    by blast
  then show ?thesis
  proof cases
    case (HReceive a)
    show ?thesis
      using talk_hunter_receives [OF HReceive str T t t'] by auto
  next
    case (HSendPort a)
    have "t = Quiet"
      using talk_not_waiting [OF t] HSendPort by (simp add: waits_for_def)
    moreover have "down T = down S" "dclient (dproc T) = dclient (dproc S)"
      using str HSendPort T by (simp_all add: hunter_streams_def)
    ultimately show ?thesis
      using t t' word_bytes_some by (cases t') (auto simp: talk_simps)
  next
    case other
    have "t = (if may_ask (hmain (hproc S)) then Quiet else Over)"
      using talk_not_waiting [OF t] other(1) by (simp add: waits_for_def)
    moreover have "t' = (if may_ask (hmain (hproc T)) then Quiet else Over)"
      using talk_not_waiting [OF t'] hunter_quiet_moves [OF other(2,1)] T by (simp add: waits_for_def)
    ultimately show ?thesis
      using hunter_quiet_moves [OF other(2,1), of io] T by auto
  qed
qed

text \<open>All steps.\<close>

lemma talk_step:
  assumes "sys_step dp hp S T" and "parts_ok S" and t: "talk_is S t" "talk_is T u"
  shows "talk_next t u \<and>
    (\<forall>q pid. t = Answered q pid \<and> u = Quiet \<longrightarrow> (\<exists>a. hmain (hproc T) = HPrint a pid))"
  using assms(1,2)
proof (cases rule: step_kinds)
  case rest
  then have "t = u"
    using talk_unique [OF talk_cong] t by blast
  then show ?thesis by auto
next
  case (daemon_end io u' d c)
  have "hmain (hproc T) = hmain (hproc S)"
    using daemon_end(2) by simp
  then have "t = Answered q pid \<Longrightarrow> u \<noteq> Quiet" for q pid
    using t by (auto simp: talk_simps dest: waits_pc)
  then show ?thesis
    using talk_client [OF daemon_end t] by blast
next
  case (hunter_end io k' u' d)
  then show ?thesis using talk_hunter [OF hunter_end(4,5) t] by blast
qed

section \<open>The whole system\<close>

text \<open>
  C12: The connection is well typed. In every reachable state of the whole system the exchange of
  hunter and daemon has exactly one type, which fixes the bytes in both directions: nothing while
  the hunter is at its other work; while it waits, the two bytes of its packet's port, or nothing as
  the daemon looks up that very port, or the four bytes of an answer the daemon gave for it, or fewer
  than four when the daemon has given up. When the hunter has left its loop the type is \<open>Over\<close>, for good.
  Every step, of whichever thread, keeps the type or moves it along
  the protocol, and the process id the hunter goes on with is the one of the answer.
\<close>

theorem connection_typed:
  assumes "sys_started S0" and "(sys_step dp hp)\<^sup>*\<^sup>* S0 S"
  shows "(\<exists>!t. talk_is S t) \<and>
    (\<forall>T t u. sys_step dp hp S T \<and> talk_is S t \<and> talk_is T u \<longrightarrow> talk_next t u \<and>
      (\<forall>q pid. t = Answered q pid \<and> u = Quiet \<longrightarrow> (\<exists>a. hmain (hproc T) = HPrint a pid)))"
proof -
  have inv: "sys_inv S"
    using sysi.inv_reachable [OF assms] .
  then have "hunter_ok (hproc S)" "parts_ok S" "dialogue S"
    by (simp_all add: sys_inv_def parts_ok_def hunter_inv_def)
  then have "\<exists>!t. talk_is S t"
    using dialogue_talk talk_unique by blast
  moreover have "talk_next t u \<and>
      (\<forall>q pid. t = Answered q pid \<and> u = Quiet \<longrightarrow> (\<exists>a. hmain (hproc T) = HPrint a pid))"
    if "sys_step dp hp S T" "talk_is S t" "talk_is T u" for T t u
    using talk_step [OF that(1) \<open>parts_ok S\<close> that(2,3)] .
  ultimately show ?thesis by blast
qed

text \<open>The run in which the daemon has answered the hunter's question, and the step that takes the answer.\<close>

theorem connection_typed_witness:
  "\<exists>S T. (sys_step 812 2900)\<^sup>*\<^sup>* sys1 S \<and> sys_step 812 2900 S T \<and>
     talk_is S (Answered 44280 2897) \<and> talk_is T Quiet \<and> (\<exists>a. hmain (hproc T) = HPrint a 2897)"
proof -
  obtain k h p where r: "(sys_step 812 2900)\<^sup>*\<^sup>* sys1
      (at_port k (dae (CLoop 44280) 5 [(44280, 2897)]) (hun (HReceive 1) RxTop (sh h []) []) 1
        [] (word_bytes (2897 :: pid_t)) True [dns_reply])" (is "rtranclp _ _ ?S")
    and p: "cells h 1 = Some p" "dst_port p = 44280"
    using run_answered by blast
  let ?T = "at_port k (dae (CLoop 44280) 5 [(44280, 2897)]) (hun (HPrint 1 2897) RxTop (sh h []) []) 1
    [] [] True [dns_reply]"
  have t: "talk_is ?S (Answered 44280 2897)" "talk_is ?T Quiet"
    using p by (simp_all add: talk_simps waits_for_def)
  have "sys_step 812 2900 ?S ?T"
    by (rule step_read)
  then show ?thesis
    using connection_typed [OF sys1_started r] r t by blast
qed

end
