(* ===== verification/SystemOwner.thy ===== *)
theory SystemOwner
  imports SystemLog
begin

text \<open>
  Where the process ids on the screen come from: not only did the daemon answer them, each was
  found by the daemon, at startup or by a scan of the socket tables and of \<^verbatim>\<open>/proc\<close> that it made
  during the run because of a packet with the same destination port.
\<close>

section \<open>Scans made in a run\<close>

text \<open>An action of the daemon's main thread that scans for a packet's port and finds a process.\<close>

definition scan_finds :: "daemon_io \<Rightarrow> daemon \<Rightarrow> u16 \<Rightarrow> pid_t \<Rightarrow> bool" where
  "scan_finds io s port pid \<longleftrightarrow>
     (\<exists>a q. dmain s = MHave a \<and> cells (heap (dsh s)) a = Some q \<and> dst_port q = port \<and>
       scanForPidByPort (env_tcp (io_scan io)) (env_udp (io_scan io)) (env_procs (io_scan io))
         (dst_port q) (proto q) = Inr pid)"

text \<open>Such an action between two states of a run.\<close>

definition scanned_in :: "u32 \<Rightarrow> u32 \<Rightarrow> system \<Rightarrow> system \<Rightarrow> u16 \<Rightarrow> pid_t \<Rightarrow> bool" where
  "scanned_in dp hp S0 S port pid \<longleftrightarrow>
     (\<exists>S1 T1 io. (sys_step dp hp)\<^sup>*\<^sup>* S0 S1 \<and> sys_step dp hp S1 T1 \<and> (sys_step dp hp)\<^sup>*\<^sup>* T1 S \<and>
       dproc T1 = main_step io (dproc S1) \<and> scan_finds io (dproc S1) port pid)"

definition found_in :: "u32 \<Rightarrow> u32 \<Rightarrow> system \<Rightarrow> system \<Rightarrow> u16 \<Rightarrow> pid_t \<Rightarrow> bool" where
  "found_in dp hp S0 S port pid \<longleftrightarrow>
     pmap (dports (dproc S0)) port = Some pid \<or> scanned_in dp hp S0 S port pid"

lemma found_later:
  assumes "found_in dp hp S0 S port pid" and "sys_step dp hp S T"
  shows "found_in dp hp S0 T port pid"
  using assms unfolding found_in_def scanned_in_def by (meson rtranclp.rtrancl_into_rtrancl)

section \<open>The table and the answers\<close>

text \<open>The table changes only when a scan has found a process.\<close>

lemma main_ports:
  assumes "pmap (dports (main_step io s)) port = Some pid"
  shows "pmap (dports s) port = Some pid \<or> scan_finds io s port pid"
proof (cases "dmain s")
  case (MHave a)
  then show ?thesis
    using assms
    by (auto simp: main_step_def addPidMapping_def store_pid_def scan_finds_def
        split: option.splits sum.splits if_splits)
qed (use assms in \<open>auto simp: main_step_def split_beta Let_def split: if_splits\<close>)

lemma answer_found: "answer m port = pid \<Longrightarrow> pid = -1 \<or> pmap m port = Some pid"
  by (auto simp: answer_def getPid_def Let_def split: if_splits)

lemma client_tells:
  assumes "(port, pid) \<in> set (danswers (client_thread io s)) \<or> dclient (client_thread io s) = CSend port pid"
  shows "(port, pid) \<in> set (danswers s) \<or> dclient s = CSend port pid \<or>
    pid = -1 \<or> pmap (dports s) port = Some pid"
proof (cases "dclient s")
  case (CLookup q)
  then show ?thesis
    using assms answer_found [of "dports s" q pid] by (auto simp: client_thread_def)
qed (use assms in \<open>auto simp: client_thread_def Let_def
    split: prod.splits sum.splits signal_death.splits if_splits\<close>)

definition owners_found :: "u32 \<Rightarrow> u32 \<Rightarrow> system \<Rightarrow> system \<Rightarrow> bool" where
  "owners_found dp hp S0 S \<longleftrightarrow> (sys_step dp hp)\<^sup>*\<^sup>* S0 S \<and>
     (\<forall>port pid. pmap (dports (dproc S)) port = Some pid \<longrightarrow> found_in dp hp S0 S port pid) \<and>
     (\<forall>port pid. told S port pid \<or> dclient (dproc S) = CSend port pid \<longrightarrow>
       pid = -1 \<or> found_in dp hp S0 S port pid)"

lemma owners_same:
  assumes "owners_found dp hp S0 S" and "sys_step dp hp S T"
    and "dports (dproc T) = dports (dproc S)" and "danswers (dproc T) = danswers (dproc S)"
    and "dclient (dproc T) = dclient (dproc S)"
  shows "owners_found dp hp S0 T"
  using assms found_later [OF _ assms(2)] rtranclp.rtrancl_into_rtrancl [of _ S0 S T]
  unfolding owners_found_def told_def by metis

lemma owners_found_step:
  assumes st: "sys_step dp hp S T" and ok: "owners_found dp hp S0 S"
  shows "owners_found dp hp S0 T"
proof -
  have run: "(sys_step dp hp)\<^sup>*\<^sup>* S0 S" "(sys_step dp hp)\<^sup>*\<^sup>* S0 T"
    using ok st by (auto simp: owners_found_def)
  note later = found_later [OF _ st]
  show ?thesis
    using st
  proof (cases rule: sys_step.cases)
    case (d_main io env k')
    have t: "dproc T = main_step io (dproc S)" using d_main(1) by simp
    have "found_in dp hp S0 T port pid" if "scan_finds io (dproc S) port pid" for port pid
      using that st run(1) t unfolding found_in_def scanned_in_def by blast
    then have "found_in dp hp S0 T port pid" if "pmap (dports (dproc T)) port = Some pid" for port pid
      using main_ports that later ok unfolding t owners_found_def by blast
    then show ?thesis
      using run(2) ok later daemon_main_frame [of io "dproc S"]
      unfolding owners_found_def told_def t by simp blast
  next
    case (d_client io u d c)
    have t: "dproc T = client_thread io (dproc S)" using d_client(1) by simp
    then show ?thesis
      using run(2) ok later client_tells client_frame [of io "dproc S"]
      unfolding owners_found_def told_def t by metis
  qed (rule owners_same [OF ok st]; simp add: on_signal_def rx_frame daemon_rx_answers)+
qed

lemma owners_found_start: "sys_started S0 \<Longrightarrow> owners_found dp hp S0 S0"
  using started_client [of "dproc S0"]
  by (auto simp: owners_found_def found_in_def told_def sys_started_def)

interpretation own: transition_invariant "\<lambda>S. S = S0 \<and> sys_started S0" "sys_step dp hp"
    "owners_found dp hp S0" for dp hp S0
  by unfold_locales (auto intro: owners_found_step owners_found_start)

section \<open>The owners on the screen and in the file\<close>

text \<open>
  C2: The owner shown is one the daemon found. In every run of the whole system, the process id in a
  line that the hunter has printed or saved is -1 (unknown), or the daemon's startup scan put it
  into the table for the packet's destination port, or at some earlier moment of this run the daemon
  scanned the socket tables and \<^verbatim>\<open>/proc\<close>, for a packet with this destination port, and the scan
  returned this process id.
\<close>

theorem shown_owner_found:
  assumes "sys_started S0" and "(sys_step dp hp)\<^sup>*\<^sup>* S0 S"
  shows "(\<exists>log. hscreen (hproc S) = concat (map (\<lambda>(p, pid). printPacketInfo p pid) log) \<and>
      (\<forall>(p, pid) \<in> set log. pid = -1 \<or> found_in dp hp S0 S (dst_port p) pid)) \<and>
    (\<forall>path text. hfile (hproc S) = Some (path, text) \<longrightarrow>
      (\<exists>log. text = concat (map (\<lambda>(p, pid). save_line pid p) log) \<and>
        (\<forall>(p, pid) \<in> set log. pid = -1 \<or> found_in dp hp S0 S (dst_port p) pid)))"
proof -
  have "owners_found dp hp S0 S"
    using own.inv_reachable [of S0 S0] assms by simp
  then have known: "honest S (p, pid) \<Longrightarrow> pid = -1 \<or> found_in dp hp S0 S (dst_port p) pid" for p pid
    by (auto simp: owners_found_def honest_def)
  have out: "output_ok S"
    using sysi.inv_reachable [OF assms] by (simp add: sys_inv_def)
  then obtain log where "hscreen (hproc S) = screen_of log" "\<forall>l \<in> set log. honest S l"
    by (auto simp: output_ok_def)
  moreover have "\<exists>log. content = file_of log \<and> (\<forall>l \<in> set log. honest S l)"
    if "hfile (hproc S) = Some (path, content)" for path content
    using out that by (simp add: output_ok_def)
  ultimately show ?thesis
    using known unfolding screen_of_def file_of_def by fast
qed

theorem shown_owner_found_witness:
  "\<exists>S log. (sys_step 812 2900)\<^sup>*\<^sup>* sys1 S \<and> hscreen (hproc S) \<noteq> [] \<and>
     hscreen (hproc S) = concat (map (\<lambda>(p, pid). printPacketInfo p pid) log) \<and>
     (\<forall>(p, pid) \<in> set log. pid = -1 \<or> found_in 812 2900 sys1 S (dst_port p) pid)"
proof -
  obtain S p where S: "(sys_step 812 2900)\<^sup>*\<^sup>* sys1 S" "hscreen (hproc S) = printPacketInfo p 2897"
    using run_prints by blast
  have "hscreen (hproc S) \<noteq> []"
    using S(2) by (simp add: printPacketInfo_def Let_def)
  then show ?thesis
    using shown_owner_found [OF sys1_started S(1)] S(1) by blast
qed

end
