(* ===== verification/SnifferCpus.thy ===== *)
theory SnifferCpus
  imports SnifferMessages
begin

text \<open>
  \<^verbatim>\<open>kernel_module/sniffer.c\<close> on several CPUs. The kernel calls the hook in a softirq and the input
  function in the context of the process that sends, without a lock between them, and the module
  takes none: its static variables are read and written while other calls are half way. A context
  is one call in progress, and its constructors are the places between two accesses to the shared
  variables. Contexts are as many as one likes, so a softirq that interrupts a call is covered too.
  Each access is atomic, in the order of the source. Run alone, a context does what the functions
  of \<open>Sniffer\<close> say.
\<close>

section \<open>The shared variables, by client\<close>

fun is_subscribed :: "client \<Rightarrow> kernel \<Rightarrow> bool" where
  "is_subscribed DaemonClient k = daemon_subscribed k"
| "is_subscribed HunterClient k = packet_hunter_subscribed k"

fun set_subscribed :: "client \<Rightarrow> bool \<Rightarrow> kernel \<Rightarrow> kernel" where
  "set_subscribed DaemonClient b k = k\<lparr>daemon_subscribed := b\<rparr>"
| "set_subscribed HunterClient b k = k\<lparr>packet_hunter_subscribed := b\<rparr>"

fun set_pid :: "client \<Rightarrow> u32 \<Rightarrow> kernel \<Rightarrow> kernel" where
  "set_pid DaemonClient p k = k\<lparr>daemon_pid := p\<rparr>"
| "set_pid HunterClient p k = k\<lparr>packet_hunter_pid := p\<rparr>"

fun subscribed_entry :: "client \<Rightarrow> u32 \<Rightarrow> klog_entry" where
  "subscribed_entry DaemonClient p = DaemonSubscribed p"
| "subscribed_entry HunterClient p = HunterSubscribed p"

fun unsubscribed_entry :: "client \<Rightarrow> klog_entry" where
  "unsubscribed_entry DaemonClient = DaemonUnsubscribed"
| "unsubscribed_entry HunterClient = HunterUnsubscribed"

section \<open>A call in progress\<close>

text \<open>
  A call of the hook: \<open>HookStart\<close>, then for each client the two tests, the allocation, the load of
  the port for the call of \<open>send_packet_info_to_user\<close>, the send, and the release with the log line,
  which loads the port once more. A call of the input function: \<open>RecvStart\<close>, then a subscription
  (test, two stores, log line) or an unsubscription (load of the port, terminate message, two
  stores, log line).
\<close>

datatype ctx =
    Idle
  | HookStart "sk_buff option"
  | ReadSub client pckt_key
  | ReadPid client pckt_key
  | Create client pckt_key
  | LoadPid client pckt_key mem
  | Send client pckt_key u32 mem
  | LogSent client pckt_key mem
  | RecvStart "mem option"
  | TestSub client string u32
  | SetSub client u32
  | SetPid client u32
  | LogSub client
  | LoadStop client
  | SendStop client u32
  | ClearSub client
  | ClearPid client
  | LogUnsub client

definition hook_prologue :: "sk_buff option \<Rightarrow> kernel \<Rightarrow> ctx \<times> kernel" where
  "hook_prologue skb_opt k =
     (case skb_opt of
        None \<Rightarrow> (Idle, pr PacketTooShort k)
      | Some skb \<Rightarrow>
          if skb_len skb < sizeof_iphdr then (Idle, pr PacketTooShort k)
          else
            case ip_hdr skb of
              None \<Rightarrow> (Idle, k)
            | Some iph \<Rightarrow>
                case hook_ports iph skb of
                  None \<Rightarrow> (Idle, pr (UnsupportedProtocol (protocol iph)) k)
                | Some (sport, dport, pr_t, payload) \<Rightarrow>
                    (ReadSub DaemonClient (saddr iph, daddr iph, sport, dport, pr_t),
                     pr (PacketSeen pr_t (saddr iph) (daddr iph) sport dport payload) k))"

fun next_client :: "client \<Rightarrow> pckt_key \<Rightarrow> ctx" where
  "next_client DaemonClient key = ReadSub HunterClient key"
| "next_client HunterClient key = Idle"

definition recv_prologue :: "mem option \<Rightarrow> kernel \<Rightarrow> kernel_fault + (ctx \<times> kernel)" where
  "recv_prologue skb k =
     (case skb of
        None \<Rightarrow> Inr (Idle, pr NullSkb k)
      | Some data \<Rightarrow>
          (case c_string (nlmsg_data data) of
             None \<Rightarrow> Inl OverRead
           | Some user_msg \<Rightarrow>
               let k = pr (ReceivedMessage user_msg) k; sender = nlmsg_pid (hdr_of_mem data) in
               Inr (if user_msg = ''packet_hunter_subscribe'' then (TestSub HunterClient user_msg sender, k)
                 else if user_msg = ''packet_hunter_unsubscribe'' then (LoadStop HunterClient, k)
                 else if user_msg = ''daemon_subscribe'' then (TestSub DaemonClient user_msg sender, k)
                 else if user_msg = ''daemon_unsubscribe'' then (LoadStop DaemonClient, k)
                 else (Idle, pr (UnknownCommand user_msg) k))))"

fun cpu_step :: "(client \<Rightarrow> knl_env) \<Rightarrow> ctx \<Rightarrow> kernel \<Rightarrow> kernel_fault + (ctx \<times> kernel)" where
  "cpu_step envs Idle k = Inr (Idle, k)"
| "cpu_step envs (HookStart skb) k = Inr (hook_prologue skb k)"
| "cpu_step envs (ReadSub c key) k =
     Inr (if is_subscribed c k then ReadPid c key else next_client c key, k)"
| "cpu_step envs (ReadPid c key) k =
     Inr (if slot_pid c k \<noteq> 0 then Create c key else next_client c key, k)"
| "cpu_step envs (Create c (sip, dip, sport, dport, pr_t)) k =
     (let (msg, k1) = create_message (envs c) sip dip sport dport pr_t k in
      case msg of
        None \<Rightarrow> Inr (Idle, k1)
      | Some m \<Rightarrow> Inr (LoadPid c (sip, dip, sport, dport, pr_t) m, k1))"
| "cpu_step envs (LoadPid c key m) k = Inr (Send c key (slot_pid c k) m, k)"
| "cpu_step envs (Send c key pid m) k =
     (case send_packet_info_to_user (envs c) pid (Some m) k of
        Inl f \<Rightarrow> Inl f
      | Inr k1 \<Rightarrow> Inr (LogSent c key m, k1))"
| "cpu_step envs (LogSent c key m) k =
     Inr (next_client c key, pr (PacketInfoSent (slot_pid c k)) (kfree (Some m) k))"
| "cpu_step envs (RecvStart skb) k = recv_prologue skb k"
| "cpu_step envs (TestSub c user_msg sender) k =
     Inr (if \<not> is_subscribed c k then (SetSub c sender, k) else (Idle, pr (UnknownCommand user_msg) k))"
| "cpu_step envs (SetSub c sender) k = Inr (SetPid c sender, set_subscribed c True k)"
| "cpu_step envs (SetPid c sender) k = Inr (LogSub c, set_pid c sender k)"
| "cpu_step envs (LogSub c) k = Inr (Idle, pr (subscribed_entry c (slot_pid c k)) k)"
| "cpu_step envs (LoadStop c) k = Inr (SendStop c (slot_pid c k), k)"
| "cpu_step envs (SendStop c pid) k =
     (case send_stop_msg (envs c) pid k of
        Inl f \<Rightarrow> Inl f
      | Inr k1 \<Rightarrow> Inr (ClearSub c, k1))"
| "cpu_step envs (ClearSub c) k = Inr (ClearPid c, set_subscribed c False k)"
| "cpu_step envs (ClearPid c) k = Inr (LogUnsub c, set_pid c 0 k)"
| "cpu_step envs (LogUnsub c) k = Inr (Idle, pr (unsubscribed_entry c) k)"

text \<open>A context on its own, for a number of actions; an idle context stays idle.\<close>

fun cpu_run :: "nat \<Rightarrow> (client \<Rightarrow> knl_env) \<Rightarrow> ctx \<Rightarrow> kernel \<Rightarrow> kernel_fault + (ctx \<times> kernel)" where
  "cpu_run 0 envs c k = Inr (c, k)"
| "cpu_run (Suc n) envs c k =
     (case cpu_step envs c k of
        Inl f \<Rightarrow> Inl f
      | Inr (c, k) \<Rightarrow> cpu_run n envs c k)"

lemma cpu_run_idle [simp]: "cpu_run n envs Idle k = Inr (Idle, k)"
  by (induction n) simp_all

text \<open>One client's share of the hook, uninterrupted: at most six actions do what \<open>hook_notify\<close> does.\<close>

lemma client_alone:
  assumes "pr_key = (sip, dip, sport, dport, pr_t)"
  shows "\<exists>m \<ge> n. cpu_run (6 + n) envs (ReadSub c pr_key) k =
    (case (if is_subscribed c k \<and> slot_pid c k \<noteq> 0
           then hook_notify (envs c) (slot_pid c k) sip dip sport dport pr_t k
           else Inr (True, k)) of
       Inl f \<Rightarrow> Inl f
     | Inr (False, k') \<Rightarrow> Inr (Idle, k')
     | Inr (True, k') \<Rightarrow> cpu_run m envs (next_client c pr_key) k')"
proof -
  have pid: "slot_pid c (k\<lparr>kmallocs := x\<rparr>) = slot_pid c k" for x
    by (cases c) (simp_all add: slot_pid_def)
  have sent: "slot_pid c k1 = slot_pid c (k\<lparr>kmallocs := x\<rparr>)"
    if "send_packet_info_to_user env q (Some m) (k\<lparr>kmallocs := x\<rparr>) = Inr k1" for env q m x k1
    using send_frame [OF that] by (cases c) (simp_all add: slot_pid_def same_subs_def)
  consider "\<not> is_subscribed c k" | "is_subscribed c k" "slot_pid c k = 0"
    | "is_subscribed c k" "slot_pid c k \<noteq> 0" by blast
  then show ?thesis
  proof cases
    case 1
    then show ?thesis by (intro exI [of _ "5 + n"]) (simp add: eval_nat_numeral)
  next
    case 2
    then show ?thesis by (intro exI [of _ "4 + n"]) (simp add: eval_nat_numeral)
  next
    case 3
    then show ?thesis
      by (intro exI [of _ n])
        (auto simp: assms eval_nat_numeral hook_notify_def create_message_def pid
          split: option.splits sum.splits dest: sent)
  qed
qed

lemma sequel_alone:
  "(case
      (case r of Inl f \<Rightarrow> Inl f | Inr (False, k) \<Rightarrow> Inr (v, k)
       | Inr (True, k) \<Rightarrow> (case g k of Inl f \<Rightarrow> Inl f | Inr (_, k) \<Rightarrow> Inr (v, k)))
    of Inl f \<Rightarrow> Inl f | Inr (_, k) \<Rightarrow> Inr (i, k)) =
   (case r of Inl f \<Rightarrow> Inl f | Inr (False, k) \<Rightarrow> Inr (i, k)
    | Inr (True, k) \<Rightarrow> (case g k of Inl f \<Rightarrow> Inl f | Inr (_, k) \<Rightarrow> Inr (i, k)))"
  by (simp split: sum.split prod.split bool.split)

lemma hook_alone:
  "cpu_run (13 + n) envs (HookStart skb) k =
    (case packet_sniffer_hook (envs DaemonClient) (envs HunterClient) skb k of
       Inl f \<Rightarrow> Inl f
     | Inr (v, k') \<Rightarrow> Inr (Idle, k'))"
proof (cases "\<exists>key k1. hook_prologue skb k = (ReadSub DaemonClient key, k1)")
  case False
  then show ?thesis
    by (auto simp: eval_nat_numeral hook_prologue_def packet_sniffer_hook_def Let_def
        split: option.splits)
next
  case True
  then obtain s iph sport dport c pl where p: "skb = Some s" "\<not> skb_len s < sizeof_iphdr"
      "ip_hdr s = Some iph" "hook_ports iph s = Some (sport, dport, c, pl)"
    by (auto simp: hook_prologue_def split: option.splits if_splits)
  let ?key = "(saddr iph, daddr iph, sport, dport, c)"
  let ?k = "pr (PacketSeen c (saddr iph) (daddr iph) sport dport pl) k"
  let ?one = "\<lambda>cl k. if is_subscribed cl k \<and> slot_pid cl k \<noteq> 0
    then hook_notify (envs cl) (slot_pid cl k) (saddr iph) (daddr iph) sport dport c k else Inr (True, k)"
  have start: "cpu_run (13 + n) envs (HookStart skb) k =
      cpu_run (6 + (6 + n)) envs (ReadSub DaemonClient ?key) ?k"
    using p by (simp add: hook_prologue_def eval_nat_numeral)
  obtain m where m: "6 + n \<le> m" and first: "cpu_run (6 + (6 + n)) envs (ReadSub DaemonClient ?key) ?k =
      (case ?one DaemonClient ?k of Inl f \<Rightarrow> Inl f | Inr (False, k') \<Rightarrow> Inr (Idle, k')
        | Inr (True, k') \<Rightarrow> cpu_run m envs (next_client DaemonClient ?key) k')"
    using client_alone [OF refl [of ?key], of "6 + n" envs DaemonClient ?k] by blast
  have second: "cpu_run m envs (next_client DaemonClient ?key) k' =
      (case ?one HunterClient k' of Inl f \<Rightarrow> Inl f | Inr (b, k'') \<Rightarrow> Inr (Idle, k''))" for k'
    using client_alone [OF refl [of ?key], of "m - 6" envs HunterClient k'] m
    by (auto split: sum.splits prod.splits bool.splits)
  have hook: "packet_sniffer_hook (envs DaemonClient) (envs HunterClient) skb k =
      (case ?one DaemonClient ?k of Inl f \<Rightarrow> Inl f | Inr (False, k') \<Rightarrow> Inr (NF_ACCEPT, k')
        | Inr (True, k') \<Rightarrow> (case ?one HunterClient k' of Inl f \<Rightarrow> Inl f | Inr (_, k') \<Rightarrow> Inr (NF_ACCEPT, k')))"
    by (simp only: packet_sniffer_hook_def p option.case if_False prod.case Let_def slot_pid_def
        client.case is_subscribed.simps)
  show ?thesis
    unfolding start first second hook
    by (rule sequel_alone [symmetric])
qed

lemma recv_alone:
  "cpu_run (6 + n) envs (RecvStart skb) k =
    (case nl_recv_msg env skb k of Inl f \<Rightarrow> Inl f | Inr k' \<Rightarrow> Inr (Idle, k'))"
  if "\<And>c. envs c = env"
proof (cases skb)
  case None
  then show ?thesis by (simp add: eval_nat_numeral recv_prologue_def nl_recv_msg_def)
next
  case (Some data)
  show ?thesis
  proof (cases "c_string (nlmsg_data data)")
    case None
    then show ?thesis using Some by (simp add: eval_nat_numeral recv_prologue_def nl_recv_msg_def)
  next
    case s: (Some s)
    show ?thesis
    proof (cases "parse_command s")
      case (Subscribe c)
      then show ?thesis
        using Some s that
        by (cases c) (auto simp: nl_recv_cases [OF s] eval_nat_numeral recv_prologue_def parse_command_def
            slot_pid_def pr_def split: if_splits)
    next
      case (Unsubscribe c)
      then show ?thesis
        using Some s that
        by (cases c) (auto simp: nl_recv_cases [OF s] eval_nat_numeral recv_prologue_def parse_command_def
            slot_pid_def pr_def split: if_splits sum.splits)
    next
      case OtherCommand
      then show ?thesis
        using Some s
        by (auto simp: nl_recv_cases [OF s] eval_nat_numeral recv_prologue_def parse_command_def
            split: if_splits)
    qed
  qed
qed

text \<open>
  C29: Fine and coarse model agree. A call of the hook, or of the input function, whose actions no
  other call interrupts, does exactly what the function of the sequential model does on every
  branch, faults included, and has returned after at most thirteen, or six, actions.
\<close>

theorem handlers_alone:
  "cpu_run (13 + n) envs (HookStart skb) k =
     (case packet_sniffer_hook (envs DaemonClient) (envs HunterClient) skb k of
        Inl f \<Rightarrow> Inl f | Inr (v, k') \<Rightarrow> Inr (Idle, k')) \<and>
   cpu_run (6 + n) (\<lambda>c. env) (RecvStart msg) k =
     (case nl_recv_msg env msg k of Inl f \<Rightarrow> Inl f | Inr k' \<Rightarrow> Inr (Idle, k'))"
  by (intro conjI hook_alone recv_alone refl)

section \<open>The module on all CPUs\<close>

text \<open>
  \<open>packets\<close> and \<open>heard\<close> are the histories of the packets and the messages the module was called
  with. The module is unloaded when no call is in progress: unregistering the hook and releasing the
  socket wait for the calls that run.
\<close>

record smp =
  ctxs :: "ctx list"
  modl :: kernel
  packets :: "sk_buff list"
  heard :: "mem list"

definition smp_act :: "(client \<Rightarrow> knl_env) \<Rightarrow> nat \<Rightarrow> smp \<Rightarrow> kernel_fault + smp" where
  "smp_act envs i m =
     (case cpu_step envs (ctxs m ! i) (modl m) of
        Inl f \<Rightarrow> Inl f
      | Inr (c, k) \<Rightarrow> Inr (m\<lparr>ctxs := (ctxs m)[i := c], modl := k\<rparr>))"

definition smp_packet :: "nat \<Rightarrow> sk_buff \<Rightarrow> smp \<Rightarrow> smp" where
  "smp_packet i skb m =
     m\<lparr>ctxs := (ctxs m)[i := HookStart (Some skb)], packets := packets m @ [skb]\<rparr>"

definition smp_message :: "nat \<Rightarrow> mem \<Rightarrow> smp \<Rightarrow> smp" where
  "smp_message i data m =
     m\<lparr>ctxs := (ctxs m)[i := RecvStart (Some data)], heard := heard m @ [data]\<rparr>"

inductive smp_step :: "smp \<Rightarrow> smp \<Rightarrow> bool" where
  act: "i < length (ctxs m) \<Longrightarrow> \<forall>c. env_sized (envs c) \<Longrightarrow> smp_act envs i m = Inr m' \<Longrightarrow> smp_step m m'"
| packet: "i < length (ctxs m) \<Longrightarrow> ctxs m ! i = Idle \<Longrightarrow> hook_registered (modl m) \<Longrightarrow>
    smp_step m (smp_packet i skb m)"
| message: "i < length (ctxs m) \<Longrightarrow> ctxs m ! i = Idle \<Longrightarrow> nl_sock_open (modl m) \<Longrightarrow>
    smp_step m (smp_message i data m)"
| unload: "\<forall>c \<in> set (ctxs m). c = Idle \<Longrightarrow> smp_step m (m\<lparr>modl := sniffer_exit (modl m)\<rparr>)"

inductive_cases smp_stepE: "smp_step m m'"

definition smp_started :: "smp \<Rightarrow> bool" where
  "smp_started m \<longleftrightarrow> kernel_loaded (modl m) \<and> (\<forall>c \<in> set (ctxs m). c = Idle) \<and>
     packets m = [] \<and> heard m = []"

section \<open>What every interleaving keeps\<close>

text \<open>
  A port may be used for client \<open>c\<close> if it is 0 or was the sender's port in a subscription of \<open>c\<close>; a
  report may be sent if it is that of a packet the hook was called with.
\<close>

definition subscriber :: "mem list \<Rightarrow> client \<Rightarrow> u32 \<Rightarrow> bool" where
  "subscriber ds c p \<longleftrightarrow>
     (\<exists>d \<in> set ds. \<exists>s. c_string (nlmsg_data d) = Some s \<and> parse_command s = Subscribe c \<and>
        nlmsg_pid (hdr_of_mem d) = p)"

definition port_for :: "mem list \<Rightarrow> client \<Rightarrow> u32 \<Rightarrow> bool" where
  "port_for ds c p \<longleftrightarrow> p = 0 \<or> subscriber ds c p"

definition reported :: "sk_buff list \<Rightarrow> pckt_key \<Rightarrow> bool" where
  "reported ps key \<longleftrightarrow> (\<exists>skb \<in> set ps. packet_report (Some skb) = Some key)"

text \<open>What a call in progress may rely on, and the blocks it holds.\<close>

fun ctx_ok :: "sk_buff list \<Rightarrow> mem list \<Rightarrow> ctx \<Rightarrow> bool" where
  "ctx_ok ps ds (HookStart skb) = (case skb of None \<Rightarrow> True | Some s \<Rightarrow> s \<in> set ps)"
| "ctx_ok ps ds (ReadSub c key) = reported ps key"
| "ctx_ok ps ds (ReadPid c key) = reported ps key"
| "ctx_ok ps ds (Create c key) = reported ps key"
| "ctx_ok ps ds (LoadPid c key m) =
    (reported ps key \<and> length m = 20 \<and> pckt_key (pckt_of_mem m) = key)"
| "ctx_ok ps ds (Send c key pid m) =
    (reported ps key \<and> length m = 20 \<and> pckt_key (pckt_of_mem m) = key \<and> port_for ds c pid)"
| "ctx_ok ps ds (LogSent c key m) = reported ps key"
| "ctx_ok ps ds (RecvStart skb) = (case skb of None \<Rightarrow> True | Some d \<Rightarrow> d \<in> set ds)"
| "ctx_ok ps ds (TestSub c s pid) = subscriber ds c pid"
| "ctx_ok ps ds (SetSub c pid) = subscriber ds c pid"
| "ctx_ok ps ds (SetPid c pid) = subscriber ds c pid"
| "ctx_ok ps ds (SendStop c pid) = port_for ds c pid"
| "ctx_ok ps ds _ = True"

fun blocks :: "ctx \<Rightarrow> int" where
  "blocks (LoadPid c key m) = 1"
| "blocks (Send c key pid m) = 1"
| "blocks (LogSent c key m) = 1"
| "blocks _ = 0"

definition stop_key :: pckt_key where "stop_key = (0, 0, 0, 0, nul)"

definition sent_ok :: "sk_buff list \<Rightarrow> mem list \<Rightarrow> u32 \<times> mem \<times> int \<Rightarrow> bool" where
  "sent_ok ps ds u \<longleftrightarrow> well_formed_unicast u \<and>
     (\<exists>c pid key. unicast_key u = (pid, key) \<and> port_for ds c pid \<and>
        (reported ps key \<or> key = stop_key))"

definition modl_ok :: "sk_buff list \<Rightarrow> mem list \<Rightarrow> kernel \<Rightarrow> bool" where
  "modl_ok ps ds k \<longleftrightarrow> (\<forall>c. port_for ds c (slot_pid c k)) \<and> skbs k = 0 \<and>
     (\<forall>u \<in> set (unicasts k). sent_ok ps ds u)"

lemma slot_pid_simps [simp]:
  "slot_pid c (pr e k) = slot_pid c k"
  "slot_pid c (set_subscribed c' b k) = slot_pid c k"
  "slot_pid c (set_pid c' p k) = (if c = c' then p else slot_pid c k)"
  "slot_pid c (k\<lparr>kmallocs := n\<rparr>) = slot_pid c k"
  by (cases c; cases c'; simp add: slot_pid_def pr_def)+

lemma set_simps [simp]:
  "unicasts (set_subscribed c b k) = unicasts k" "unicasts (set_pid c p k) = unicasts k"
  "skbs (set_subscribed c b k) = skbs k" "skbs (set_pid c p k) = skbs k"
  "kmallocs (set_subscribed c b k) = kmallocs k" "kmallocs (set_pid c p k) = kmallocs k"
  "skbs (pr e k) = skbs k" "kmallocs (pr e k) = kmallocs k"
  by (cases c; simp add: pr_def)+

lemma slot_pid_same: "same_subs k k' \<Longrightarrow> slot_pid c k' = slot_pid c k"
  by (cases c) (simp_all add: slot_pid_def same_subs_def)

lemma modl_ok_simps [simp]:
  "modl_ok ps ds (pr e k) = modl_ok ps ds k"
  "modl_ok ps ds (set_subscribed c b k) = modl_ok ps ds k"
  "modl_ok ps ds (k\<lparr>kmallocs := n\<rparr>) = modl_ok ps ds k"
  by (simp_all add: modl_ok_def)

lemma modl_ok_pid: "modl_ok ps ds k \<Longrightarrow> port_for ds c p \<Longrightarrow> modl_ok ps ds (set_pid c p k)"
  by (simp add: modl_ok_def)

lemma modl_ok_port: "modl_ok ps ds k \<Longrightarrow> port_for ds c (slot_pid c k)"
  by (simp add: modl_ok_def)

lemma port_for_simps: "port_for ds c 0" "subscriber ds c p \<Longrightarrow> port_for ds c p"
  by (simp_all add: port_for_def)

lemma modl_ok_send:
  assumes "modl_ok ps ds k" and "same_subs k k'" and "balanced k k'"
    and "adds (\<lambda>u. unicast_key u = (pid, key)) k k'" and "port_for ds c pid"
    and "reported ps key \<or> key = stop_key"
    and "list_all well_formed_unicast (unicasts k')"
  shows "modl_ok ps ds k'"
proof -
  have "sent_ok ps ds u" if "u \<in> set (unicasts k')" for u
    using adds_set [OF assms(4) that]
  proof
    assume "u \<in> set (unicasts k)"
    then show ?thesis using assms(1) by (simp add: modl_ok_def)
  next
    assume "unicast_key u = (pid, key)"
    then show ?thesis
      using assms(5-7) that unfolding sent_ok_def list_all_iff by blast
  qed
  then show ?thesis
    using assms(1,2,3) slot_pid_same [OF assms(2)] by (simp add: modl_ok_def balanced_def)
qed

lemma modl_ok_formed: "modl_ok ps ds k \<Longrightarrow> list_all well_formed_unicast (unicasts k)"
  by (simp add: modl_ok_def sent_ok_def list_all_iff)

lemma hook_prologue_ok:
  assumes "hook_prologue skb k = (c, k')" and "ctx_ok ps ds (HookStart skb)" and "modl_ok ps ds k"
  shows "ctx_ok ps ds c \<and> modl_ok ps ds k' \<and> kmallocs k' = kmallocs k \<and> blocks c = 0"
proof -
  have "reported ps key" if "hook_prologue skb k = (ReadSub d key, k1)" for d key k1
    using that assms(2)
    by (auto simp: hook_prologue_def reported_def packet_report_def hook_ports_def ntohs_be16
        split: option.splits if_splits intro!: bexI)
  then show ?thesis
    using assms(1,3) by (auto simp: hook_prologue_def split: option.splits if_splits)
qed

lemma subscriberI:
  "d \<in> set ds \<Longrightarrow> c_string (nlmsg_data d) = Some s \<Longrightarrow> parse_command s = Subscribe c \<Longrightarrow>
    subscriber ds c (nlmsg_pid (hdr_of_mem d))"
  by (auto simp: subscriber_def)

lemma parse_subscribe:
  "parse_command ''packet_hunter_subscribe'' = Subscribe HunterClient"
  "parse_command ''daemon_subscribe'' = Subscribe DaemonClient"
  by (simp_all add: parse_command_def)

lemma recv_prologue_ok:
  assumes "recv_prologue skb k = Inr (c, k')" and "ctx_ok ps ds (RecvStart skb)" and "modl_ok ps ds k"
  shows "ctx_ok ps ds c \<and> modl_ok ps ds k' \<and> kmallocs k' = kmallocs k \<and> blocks c = 0"
  using assms
  by (auto simp: recv_prologue_def Let_def split: option.splits if_splits
      elim!: subscriberI intro: parse_subscribe)

lemma cpu_send_ok:
  assumes s: "send_packet_info_to_user env pid (Some b) k = Inr k1"
    and c: "ctx_ok ps ds (Send d key pid b)" and k: "modl_ok ps ds k"
  shows "modl_ok ps ds k1"
proof -
  have b: "length b = 20" "pckt_key (pckt_of_mem b) = key"
    using c by simp_all
  have "adds (\<lambda>u. unicast_key u = (pid, key)) k k1"
    using send_adds [OF s] b by (auto simp: unicast_key_def elim!: adds_mono)
  moreover have "list_all well_formed_unicast (unicasts k1)"
    using send_unicasts [OF s] b(1) modl_ok_formed [OF k] by simp
  ultimately show ?thesis
    using modl_ok_send [OF k, of k1 pid key d] send_frame [OF s] c by simp
qed

lemma cpu_stop_ok:
  assumes s: "send_stop_msg env pid k = Inr k1" and env: "env_sized env"
    and c: "ctx_ok ps ds (SendStop d pid)" and k: "modl_ok ps ds k"
  shows "modl_ok ps ds k1"
  using modl_ok_send [OF k, of k1 pid stop_key d] stop_frame [OF s] stop_adds [OF s]
    stop_unicasts [OF _ s] modl_ok_formed [OF k] env c
  by (simp add: stop_key_def)

lemma cpu_step_ok:
  assumes "cpu_step envs c k = Inr (c', k')" and "\<forall>c. env_sized (envs c)"
    and "ctx_ok ps ds c" and "modl_ok ps ds k"
  shows "ctx_ok ps ds c' \<and> modl_ok ps ds k' \<and> kmallocs k' - blocks c' = kmallocs k - blocks c"
proof -
  have next_ok: "ctx_ok ps ds (next_client d key) \<and> blocks (next_client d key) = 0" if "reported ps key" for d key
    using that by (cases d) simp_all
  show ?thesis
  proof (cases c)
    case (HookStart skb)
    then show ?thesis using assms hook_prologue_ok by fastforce
  next
    case (RecvStart skb)
    then show ?thesis using assms recv_prologue_ok by fastforce
  next
    case (Create d key)
    obtain sip dip sp dp pr_t where key: "key = (sip, dip, sp, dp, pr_t)" by (cases key) auto
    obtain msg k1 where m: "create_message (envs d) sip dip sp dp pr_t k = (msg, k1)" by fastforce
    have "msg = Some b \<Longrightarrow> length b = 20 \<and> pckt_key (pckt_of_mem b) = key" for b
      using created m assms(2) key by blast
    moreover have "modl_ok ps ds k1 \<and> kmallocs k1 = kmallocs k + (if msg = None then 0 else 1)"
      using m assms(4) by (auto simp: create_message_def split: option.splits)
    ultimately show ?thesis
      using assms(1,3) m Create key by (auto split: option.splits)
  next
    case (Send d key pid b)
    then obtain k1 where s: "send_packet_info_to_user (envs d) pid (Some b) k = Inr k1"
        and k': "c' = LogSent d key b" "k' = k1"
      using assms(1) by (auto split: sum.splits)
    have "modl_ok ps ds k1"
      using cpu_send_ok [OF s _ assms(4)] assms(3) Send by blast
    then show ?thesis
      using k' Send assms(3) send_frame [OF s] by (simp add: balanced_def)
  next
    case (SendStop d pid)
    then obtain k1 where s: "send_stop_msg (envs d) pid k = Inr k1" and k': "c' = ClearSub d" "k' = k1"
      using assms(1) by (auto split: sum.splits)
    have "modl_ok ps ds k1"
      using cpu_stop_ok [OF s _ _ assms(4)] assms(2,3) SendStop by blast
    then show ?thesis
      using k' SendStop stop_frame [OF s] by (simp add: balanced_def)
  qed (use assms next_ok in \<open>auto simp: kfree_def port_for_simps modl_ok_pid modl_ok_port split: if_splits\<close>)
qed

definition smp_inv :: "smp \<Rightarrow> bool" where
  "smp_inv m \<longleftrightarrow> (\<forall>c \<in> set (ctxs m). ctx_ok (packets m) (heard m) c) \<and>
     modl_ok (packets m) (heard m) (modl m) \<and> kmallocs (modl m) = sum_list (map blocks (ctxs m))"

lemma histories_grow:
  assumes "set ps \<subseteq> set ps'" and "set ds \<subseteq> set ds'"
  shows "reported ps key \<Longrightarrow> reported ps' key" and "subscriber ds c p \<Longrightarrow> subscriber ds' c p"
    and "port_for ds c p \<Longrightarrow> port_for ds' c p" and "sent_ok ps ds u \<Longrightarrow> sent_ok ps' ds' u"
    and "modl_ok ps ds k \<Longrightarrow> modl_ok ps' ds' k" and "ctx_ok ps ds x \<Longrightarrow> ctx_ok ps' ds' x"
proof -
  show r: "reported ps key \<Longrightarrow> reported ps' key" for key
    using assms(1) by (auto simp: reported_def)
  show s: "subscriber ds c p \<Longrightarrow> subscriber ds' c p" for c p
    using assms(2) unfolding subscriber_def by blast
  then show p: "port_for ds c p \<Longrightarrow> port_for ds' c p" for c p
    by (auto simp: port_for_def)
  show u: "sent_ok ps ds u \<Longrightarrow> sent_ok ps' ds' u" for u
    using r p unfolding sent_ok_def by blast
  show "modl_ok ps ds k \<Longrightarrow> modl_ok ps' ds' k"
    using p u by (simp add: modl_ok_def)
  show "ctx_ok ps ds x \<Longrightarrow> ctx_ok ps' ds' x"
    using r s p assms by (cases x) (auto split: option.splits)
qed

lemma sum_blocks_update:
  "i < length cs \<Longrightarrow> sum_list (map blocks (cs[i := c])) = sum_list (map blocks cs) + blocks c - blocks (cs ! i)"
  by (induction cs arbitrary: i) (auto split: nat.split)

text \<open>A call that begins: the histories grow and an idle slot gets the call.\<close>

lemma smp_inv_begin:
  assumes m: "smp_inv m" "i < length (ctxs m)" "ctxs m ! i = Idle"
    and m': "m' = m\<lparr>ctxs := (ctxs m)[i := c], packets := packets m @ ps, heard := heard m @ ds\<rparr>"
    and c: "ctx_ok (packets m @ ps) (heard m @ ds) c" "blocks c = 0"
  shows "smp_inv m'"
proof -
  have grow: "set (packets m) \<subseteq> set (packets m @ ps)" "set (heard m) \<subseteq> set (heard m @ ds)" by simp_all
  have "ctx_ok (packets m @ ps) (heard m @ ds) x" if "x \<in> set (ctxs m)" for x
    using histories_grow(6) [OF grow] m(1) that by (simp add: smp_inv_def)
  moreover have "modl_ok (packets m @ ps) (heard m @ ds) (modl m)"
    using histories_grow(5) [OF grow] m(1) by (simp add: smp_inv_def)
  ultimately show ?thesis
    using assms set_update_subset_insert [of "ctxs m" i c]
    by (fastforce simp: smp_inv_def sum_blocks_update)
qed

lemma smp_inv_step:
  assumes "smp_step m m'" and "smp_inv m"
  shows "smp_inv m'"
  using assms(1)
proof (cases rule: smp_step.cases)
  case (act i envs)
  then obtain c k where s: "cpu_step envs (ctxs m ! i) (modl m) = Inr (c, k)"
      and m': "m' = m\<lparr>ctxs := (ctxs m)[i := c], modl := k\<rparr>"
    by (auto simp: smp_act_def split: sum.splits)
  have "ctx_ok (packets m) (heard m) (ctxs m ! i)" "modl_ok (packets m) (heard m) (modl m)"
    using assms(2) act(1) by (simp_all add: smp_inv_def)
  from cpu_step_ok [OF s act(2) this]
  show ?thesis
    using assms(2) m' act(1) set_update_subset_insert [of "ctxs m" i c]
    by (auto simp: smp_inv_def sum_blocks_update)
next
  case (packet i skb)
  then show ?thesis
    using smp_inv_begin [OF assms(2) packet(2,3), where ps = "[skb]" and ds = "[]"]
    by (simp add: smp_packet_def)
next
  case (message i data)
  then show ?thesis
    using smp_inv_begin [OF assms(2) message(2,3), where ps = "[]" and ds = "[data]"]
    by (simp add: smp_message_def)
next
  case unload
  have "slot_pid c (sniffer_exit k) = slot_pid c k" for c k
    by (cases c) (simp_all add: slot_pid_def sniffer_exit_def Let_def pr_def)
  then show ?thesis
    using assms(2) unload(1)
    by (simp add: smp_inv_def modl_ok_def sniffer_exit_def Let_def)
qed

lemma smp_inv_started: "smp_started m \<Longrightarrow> smp_inv m"
proof -
  assume m: "smp_started m"
  then have "kernel_loaded (modl m)" by (simp add: smp_started_def)
  then have k: "slot_pid c (modl m) = 0" "unicasts (modl m) = []" "skbs (modl m) = 0" "kmallocs (modl m) = 0" for c
    by (auto simp: kernel_loaded_def sniffer_init_def kernel_static_def pr_def slot_pid_def split: client.split)
  have "map blocks (ctxs m) = replicate (length (ctxs m)) 0"
    using m by (intro replicate_eqI) (auto simp: smp_started_def)
  then have "sum_list (map blocks (ctxs m)) = 0" by (simp add: sum_list_replicate)
  then show ?thesis
    using m k by (auto simp: smp_inv_def smp_started_def modl_ok_def port_for_def)
qed

interpretation smpi: transition_invariant smp_started smp_step smp_inv
  by unfold_locales (auto intro: smp_inv_step smp_inv_started)

section \<open>What holds however the calls interleave\<close>

text \<open>Only a call of the input function can fault.\<close>

fun receiving :: "ctx \<Rightarrow> bool" where
  "receiving (RecvStart skb) = True"
| "receiving (TestSub c s pid) = True"
| "receiving (SetSub c pid) = True"
| "receiving (SetPid c pid) = True"
| "receiving (LogSub c) = True"
| "receiving (LoadStop c) = True"
| "receiving (SendStop c pid) = True"
| "receiving (ClearSub c) = True"
| "receiving (ClearPid c) = True"
| "receiving (LogUnsub c) = True"
| "receiving _ = False"

lemma hook_no_fault: "\<not> receiving c \<Longrightarrow> cpu_step envs c k \<noteq> Inl f"
  by (cases "(envs, c, k)" rule: cpu_step.cases)
    (auto simp: Let_def split: prod.split option.split sum.split dest: send_fault_iff [THEN iffD1])

text \<open>
  C27: Whatever calls of the hook and of the input function run at the same time, and however their
  accesses to the shared variables interleave: every message the module sends is well formed, is
  addressed to a process that has subscribed for that client or to port 0, and carries the report
  of a packet the hook was called with or the terminate message; the memory blocks held are those
  of the calls in progress, no socket buffer is held, and no call of the hook uses a null pointer.
\<close>

theorem smp_messages_true:
  assumes "smp_started m0" and "smp_step\<^sup>*\<^sup>* m0 m"
  shows "(\<forall>u \<in> set (unicasts (modl m)). well_formed_unicast u \<and>
      (\<exists>c pid key. unicast_key u = (pid, key) \<and> (pid = 0 \<or> subscriber (heard m) c pid) \<and>
        (reported (packets m) key \<or> key = (0, 0, 0, 0, nul)))) \<and>
    kmallocs (modl m) = (\<Sum>c \<leftarrow> ctxs m. blocks c) \<and> skbs (modl m) = 0 \<and>
    (\<forall>c \<in> set (ctxs m). \<forall>envs f. cpu_step envs c (modl m) = Inl f \<longrightarrow> receiving c)"
proof -
  have "smp_inv m" using smpi.inv_reachable [OF assms] .
  then show ?thesis
    using hook_no_fault unfolding smp_inv_def modl_ok_def sent_ok_def port_for_def stop_key_def by blast
qed

end
