(* ===== verification/SnifferRaces.thy ===== *)
theory SnifferRaces
  imports SnifferCpus
begin

text \<open>
  What the missing lock of \<^verbatim>\<open>kernel_module/sniffer.c\<close> costs, and when it costs nothing. While calls of
  the input function do not overlap, the subscription table is the sequential one, whatever calls
  of the hook run beside them. Two runs on two CPUs show what goes wrong otherwise.
\<close>

section \<open>Concrete runs\<close>

datatype smp_event = Act nat | Packet nat sk_buff | Message nat mem

fun smp_do :: "smp_event \<Rightarrow> smp \<Rightarrow> smp option" where
  "smp_do (Act i) m =
     (if i < length (ctxs m) then
        (case smp_act (\<lambda>c. good_env) i m of Inl f \<Rightarrow> None | Inr m' \<Rightarrow> Some m')
      else None)"
| "smp_do (Packet i skb) m =
     (if i < length (ctxs m) \<and> ctxs m ! i = Idle \<and> hook_registered (modl m)
      then Some (smp_packet i skb m) else None)"
| "smp_do (Message i data) m =
     (if i < length (ctxs m) \<and> ctxs m ! i = Idle \<and> nl_sock_open (modl m)
      then Some (smp_message i data m) else None)"

fun smp_exec :: "smp_event list \<Rightarrow> smp \<Rightarrow> smp option" where
  "smp_exec [] m = Some m"
| "smp_exec (e # es) m = (case smp_do e m of None \<Rightarrow> None | Some m' \<Rightarrow> smp_exec es m')"

lemma env_sized_good: "env_sized good_env"
  by (simp add: env_sized_def good_env_def)

lemma smp_do_step: "smp_do e m = Some m' \<Longrightarrow> smp_step m m'"
  using env_sized_good
  by (cases e) (auto intro: smp_step.intros split: if_splits sum.splits)

lemma smp_exec_steps: "smp_exec es m = Some m' \<Longrightarrow> smp_step\<^sup>*\<^sup>* m m'"
  by (induction es arbitrary: m)
    (auto split: option.splits intro: smp_do_step converse_rtranclp_into_rtranclp)

definition two_cpus :: smp where
  "two_cpus = \<lparr>ctxs = [Idle, Idle], modl = snd (sniffer_init True True kernel_static), packets = [], heard = []\<rparr>"

lemma two_cpus_started: "smp_started two_cpus"
  by (simp add: smp_started_def two_cpus_def kernel_loaded_def)

definition hunter_subscribes :: "u32 \<Rightarrow> mem" where
  "hunter_subscribes pid = cmd_bytes pid ''packet_hunter_subscribe''"

definition hunter_unsubscribes :: "u32 \<Rightarrow> mem" where
  "hunter_unsubscribes pid = cmd_bytes pid ''packet_hunter_unsubscribe''"

definition subscribed_2900 :: "smp_event list" where
  "subscribed_2900 = Message 0 (hunter_subscribes 2900) # replicate 5 (Act 0)"

definition lost_events :: "smp_event list" where
  "lost_events = subscribed_2900 @ Message 0 (hunter_unsubscribes 2900) # replicate 4 (Act 0) @
     Message 1 (hunter_subscribes 3100) # replicate 5 (Act 1) @ replicate 2 (Act 0)"

definition late_events :: "smp_event list" where
  "late_events = subscribed_2900 @ Packet 1 dns_reply # replicate 5 (Act 1) @
     Message 0 (hunter_unsubscribes 2900) # replicate 6 (Act 0) @ replicate 3 (Act 1)"

definition stop_bytes :: mem where
  "stop_bytes = hdr_mem nlmsg_put_hdr @
     load 0 sizeof_pckt_info (the (fst (create_message good_env 0 0 0 0 nul kernel_static)))"

lemma good_stop: "send_stop_msg good_env pid k = Inr (k\<lparr>unicasts := unicasts k @ [(pid, stop_bytes, 36)]\<rparr>)"
  by (cases k)
    (simp add: send_stop_msg_def create_message_def send_packet_info_to_user_def good_env_def
      stop_bytes_def kfree_def)

definition report_bytes :: "pckt_key \<Rightarrow> mem" where
  "report_bytes key = (case key of (sip, dip, sport, dport, c) \<Rightarrow>
     the (fst (create_message good_env sip dip sport dport c kernel_static)))"

lemma good_create: "create_message good_env sip dip sport dport c k =
    (Some (report_bytes (sip, dip, sport, dport, c)), k\<lparr>kmallocs := kmallocs k + 1\<rparr>)"
  by (simp add: create_message_def good_env_def report_bytes_def)

lemma good_send: "send_packet_info_to_user good_env pid (Some m) k =
    Inr (k\<lparr>unicasts := unicasts k @ [(pid, hdr_mem nlmsg_put_hdr @ load 0 sizeof_pckt_info m, 36)]\<rparr>)"
  by (cases k) (simp add: send_packet_info_to_user_def good_env_def)

lemma command_strings:
  "c_string (nlmsg_data (hunter_subscribes pid)) = Some ''packet_hunter_subscribe''"
  "c_string (nlmsg_data (hunter_unsubscribes pid)) = Some ''packet_hunter_unsubscribe''"
  "nlmsg_pid (hdr_of_mem (hunter_subscribes pid)) = pid"
  by (simp_all add: hunter_subscribes_def hunter_unsubscribes_def c_string_def nul_def)

lemma replicates:
  "replicate 2 x = [x, x]" "replicate 3 x = [x, x, x]" "replicate 4 x = [x, x, x, x]"
  "replicate 5 x = [x, x, x, x, x]" "replicate 6 x = [x, x, x, x, x, x]"
  by (simp_all add: eval_nat_numeral)

lemmas smp_exec_simps = smp_act_def smp_packet_def smp_message_def recv_prologue_def command_strings
  good_stop good_create good_send slot_pid_def kfree_def replicates

lemma two_cpus_simps [simp]:
  "ctxs two_cpus = [Idle, Idle]" "heard two_cpus = []" "packets two_cpus = []"
  "nl_sock_open (modl two_cpus)" "hook_registered (modl two_cpus)"
  "\<not> packet_hunter_subscribed (modl two_cpus)" "\<not> daemon_subscribed (modl two_cpus)"
  "packet_hunter_pid (modl two_cpus) = 0" "unicasts (modl two_cpus) = []"
  by (simp_all add: two_cpus_def sniffer_init_def kernel_static_def pr_def)

lemma subscribed_run:
  "\<exists>m. smp_exec subscribed_2900 two_cpus = Some m \<and> ctxs m = [Idle, Idle] \<and>
     packet_hunter_subscribed (modl m) \<and> packet_hunter_pid (modl m) = 2900 \<and>
     \<not> daemon_subscribed (modl m) \<and> unicasts (modl m) = [] \<and>
     nl_sock_open (modl m) \<and> hook_registered (modl m) \<and>
     heard m = [hunter_subscribes 2900] \<and> packets m = []"
  by (simp add: subscribed_2900_def smp_exec_simps pr_def)

lemma smp_exec_append: "smp_exec as m = Some m' \<Longrightarrow> smp_exec (as @ bs) m = smp_exec bs m'"
  by (induction as arbitrary: m) (auto split: option.splits)

lemma lost_run:
  "\<exists>m. smp_exec lost_events two_cpus = Some m \<and> ctxs m = [Idle, Idle] \<and>
     packet_hunter_subscribed (modl m) \<and> packet_hunter_pid (modl m) = 0 \<and>
     \<not> daemon_subscribed (modl m) \<and>
     heard m = [hunter_subscribes 2900, hunter_unsubscribes 2900, hunter_subscribes 3100]"
proof -
  obtain m where m: "smp_exec subscribed_2900 two_cpus = Some m" "ctxs m = [Idle, Idle]"
      "packet_hunter_subscribed (modl m)" "packet_hunter_pid (modl m) = 2900"
      "\<not> daemon_subscribed (modl m)" "nl_sock_open (modl m)" "heard m = [hunter_subscribes 2900]"
    using subscribed_run by blast
  show ?thesis
    unfolding lost_events_def smp_exec_append [OF m(1)]
    by (simp add: smp_exec_simps m(2-) pr_def)
qed

lemma dns_prologue:
  "hook_prologue (Some dns_reply) k =
     (ReadSub DaemonClient (0x0302000A, 0x0F02000A, 53, 44280, PROTO_UDP),
      pr (PacketSeen PROTO_UDP 0x0302000A 0x0F02000A 53 44280 48) k)"
  by (simp add: hook_prologue_def hook_ports_def dns_reply_def ntohs_be16 be16_dns sizeof_iphdr_def
      sizeof_udphdr_def IPPROTO_TCP_def IPPROTO_UDP_def)

definition dns_key :: pckt_key where
  "dns_key = (0x0302000A, 0x0F02000A, 53, 44280, PROTO_UDP)"

lemma dns_report: "packet_report (Some dns_reply) = Some dns_key"
  by (simp add: packet_report_def dns_reply_def dns_key_def sizeof_iphdr_def IPPROTO_TCP_def IPPROTO_UDP_def
      be16_dns)

text \<open>What the two messages of the run say.\<close>

lemma report_unicast:
  "unicast_key (pid, hdr_mem nlmsg_put_hdr @ load 0 sizeof_pckt_info (report_bytes (sip, dip, sport, dport, c)), r) =
    (pid, sip, dip, sport, dport, c)"
proof -
  have b: "env_kmalloc good_env = Some (replicate 20 CHR ''x'')" "env_nlmsg_new good_env \<and> env_nlmsg_put good_env"
    by (simp_all add: good_env_def)
  obtain m where m: "create_message good_env sip dip sport dport c kernel_static =
        (Some m, kernel_static\<lparr>kmallocs := kmallocs kernel_static + 1\<rparr>)"
      "length m = sizeof_pckt_info" "pckt_key (pckt_of_mem m) = (sip, dip, sport, dport, c)"
    using create_message_some [OF b(1), of sip dip sport dport c kernel_static]
    by (auto simp: pckt_key_def sizeof_pckt_info_def)
  then have "report_bytes (sip, dip, sport, dport, c) = m" by (simp add: report_bytes_def)
  moreover have "load 0 sizeof_pckt_info m = m" using m(2) by (simp add: load_def)
  ultimately show ?thesis using m(3) by (simp add: unicast_key_def)
qed

lemma stop_unicast: "unicast_key (pid, stop_bytes, r) = (pid, 0, 0, 0, 0, nul)"
  using report_unicast [of pid 0 0 0 0 nul r] by (simp add: stop_bytes_def report_bytes_def)

lemma late_run:
  "\<exists>m r. smp_exec late_events two_cpus = Some m \<and> ctxs m = [Idle, Idle] \<and>
     \<not> packet_hunter_subscribed (modl m) \<and> packets m = [dns_reply] \<and>
     heard m = [hunter_subscribes 2900, hunter_unsubscribes 2900] \<and>
     unicasts (modl m) = [(2900, stop_bytes, 36), (0, r, 36)] \<and> unicast_key (0, r, 36) = (0, dns_key)"
proof -
  obtain m where m: "smp_exec subscribed_2900 two_cpus = Some m" "ctxs m = [Idle, Idle]"
      "packet_hunter_subscribed (modl m)" "packet_hunter_pid (modl m) = 2900"
      "\<not> daemon_subscribed (modl m)" "unicasts (modl m) = []" "nl_sock_open (modl m)"
      "hook_registered (modl m)" "heard m = [hunter_subscribes 2900]" "packets m = []"
    using subscribed_run by blast
  show ?thesis
    unfolding late_events_def smp_exec_append [OF m(1)]
    by (simp add: smp_exec_simps m(2-) pr_def dns_prologue report_unicast [simplified] dns_key_def)
qed

text \<open>The invariant on the first of the two runs.\<close>

theorem smp_messages_true_witness:
  "\<exists>m. smp_started two_cpus \<and> smp_step\<^sup>*\<^sup>* two_cpus m \<and> unicasts (modl m) \<noteq> [] \<and>
     (\<forall>u \<in> set (unicasts (modl m)). \<exists>c pid key. unicast_key u = (pid, key) \<and>
        (pid = 0 \<or> subscriber [hunter_subscribes 2900, hunter_unsubscribes 2900] c pid) \<and>
        (reported [dns_reply] key \<or> key = (0, 0, 0, 0, nul))) \<and>
     kmallocs (modl m) = 0"
proof -
  obtain m r where m: "smp_exec late_events two_cpus = Some m" "ctxs m = [Idle, Idle]"
      "packets m = [dns_reply]" "heard m = [hunter_subscribes 2900, hunter_unsubscribes 2900]"
      "unicasts (modl m) = [(2900, stop_bytes, 36), (0, r, 36)]"
    using late_run by (elim exE conjE)
  have run: "smp_step\<^sup>*\<^sup>* two_cpus m" using smp_exec_steps [OF m(1)] .
  note true = smp_messages_true [OF two_cpus_started run, unfolded m(2-4)]
  have "kmallocs (modl m) = 0"
    using true [THEN conjunct2, THEN conjunct1] by simp
  moreover have "\<exists>c pid key. unicast_key u = (pid, key) \<and>
      (pid = 0 \<or> subscriber [hunter_subscribes 2900, hunter_unsubscribes 2900] c pid) \<and>
      (reported [dns_reply] key \<or> key = (0, 0, 0, 0, nul))" if "u \<in> set (unicasts (modl m))" for u
    using bspec [OF conjunct1 [OF true] that] by (rule conjunct2)
  moreover have "unicasts (modl m) \<noteq> []" by (simp add: m(5))
  ultimately show ?thesis
    using two_cpus_started run by (intro exI [of _ m] conjI ballI) assumption+
qed

section \<open>Calls of the input function one at a time\<close>

text \<open>The table that the messages heard so far give, handled one after the other.\<close>

definition message_spec :: "sub_table \<Rightarrow> mem \<Rightarrow> sub_table" where
  "message_spec t d =
     (case c_string (nlmsg_data d) of
        None \<Rightarrow> t
      | Some s \<Rightarrow> sub_spec (parse_command s) (nlmsg_pid (hdr_of_mem d)) t)"

definition table_of :: "mem list \<Rightarrow> sub_table" where
  "table_of ds = foldl message_spec (\<lambda>c. None) ds"

definition serial_step :: "smp \<Rightarrow> smp \<Rightarrow> bool" where
  "serial_step m m' \<longleftrightarrow> smp_step m m' \<and> length (filter receiving (ctxs m')) \<le> 1"

text \<open>
  The module holds the table \<open>t\<close> and no port in a free slot; and what a call of the input function
  has still to store until it does.
\<close>

definition holds :: "sub_table \<Rightarrow> kernel \<Rightarrow> bool" where
  "holds t k \<longleftrightarrow> (\<forall>c. t c = (if is_subscribed c k then Some (slot_pid c k) else None) \<and>
     (\<not> is_subscribed c k \<longrightarrow> slot_pid c k = 0))"

fun settles :: "sub_table \<Rightarrow> kernel \<Rightarrow> ctx \<Rightarrow> bool" where
  "settles t k (RecvStart (Some d)) = (\<exists>t0. holds t0 k \<and> t = message_spec t0 d)"
| "settles t k (TestSub c s p) =
     holds t (if is_subscribed c k then k else set_pid c p (set_subscribed c True k))"
| "settles t k (SetSub c p) = holds t (set_pid c p (set_subscribed c True k))"
| "settles t k (SetPid c p) = holds t (set_pid c p k)"
| "settles t k (LoadStop c) = holds t (set_pid c 0 (set_subscribed c False k))"
| "settles t k (SendStop c p) = holds t (set_pid c 0 (set_subscribed c False k))"
| "settles t k (ClearSub c) = holds t (set_pid c 0 (set_subscribed c False k))"
| "settles t k (ClearPid c) = holds t (set_pid c 0 k)"
| "settles t k _ = holds t k"

definition same_slots :: "kernel \<Rightarrow> kernel \<Rightarrow> bool" where
  "same_slots k k' \<longleftrightarrow> (\<forall>c. is_subscribed c k' = is_subscribed c k \<and> slot_pid c k' = slot_pid c k)"

lemma is_subscribed_simps [simp]:
  "is_subscribed c (pr e k) = is_subscribed c k"
  "is_subscribed c (set_subscribed c' b k) = (if c = c' then b else is_subscribed c k)"
  "is_subscribed c (set_pid c' p k) = is_subscribed c k"
  by (cases c; cases c'; simp add: pr_def)+

lemma same_slotsI: "same_subs k k' \<Longrightarrow> same_slots k k'"
proof -
  assume s: "same_subs k k'"
  then have "is_subscribed c k' = is_subscribed c k" for c
    by (cases c) (simp_all add: same_subs_def)
  then show ?thesis using slot_pid_same [OF s] by (simp add: same_slots_def)
qed

lemma holds_cong: "same_slots k k' \<Longrightarrow> holds t k' = holds t k"
  by (simp add: same_slots_def holds_def)

lemma holds_pr [simp]: "holds t (pr e k) = holds t k"
  by (simp add: holds_def)

lemma holds_sub: "holds t k \<Longrightarrow> holds (t(c \<mapsto> p)) (set_pid c p (set_subscribed c True k))"
  and holds_unsub: "holds t k \<Longrightarrow> holds (t(c := None)) (set_pid c 0 (set_subscribed c False k))"
  and holds_free: "holds t k \<Longrightarrow> t c = None \<longleftrightarrow> \<not> is_subscribed c k"
  by (auto simp: holds_def)

lemma settles_cong: "same_slots k k' \<Longrightarrow> settles t k' c = settles t k c"
  by (cases "(t, k, c)" rule: settles.cases) (simp_all add: same_slots_def holds_def)

text \<open>A call of the hook leaves the slots alone; a call of the input function gets on.\<close>

lemma hook_slots:
  assumes "cpu_step envs c k = Inr (c', k')" and "\<not> receiving c"
  shows "same_slots k k' \<and> \<not> receiving c'"
proof -
  have next_hook: "\<not> receiving (next_client d key)" for d key
    by (cases d) simp_all
  show ?thesis
    using assms next_hook
    by (cases "(envs, c, k)" rule: cpu_step.cases)
      (auto simp: hook_prologue_def create_message_def pr_def kfree_def same_slotsI same_subs_def
        split: option.splits if_splits sum.splits prod.splits dest!: send_frame)
qed

lemma recv_settles:
  assumes "cpu_step envs c k = Inr (c', k')" and "receiving c" and "settles t k c"
  shows "settles t k' c' \<and> (\<not> receiving c' \<longrightarrow> holds t k')"
proof (cases c)
  case (RecvStart skb)
  show ?thesis
  proof (cases skb)
    case None
    then show ?thesis using assms RecvStart by (auto simp: recv_prologue_def)
  next
    case (Some d)
    then obtain t0 s where t0: "holds t0 k" "t = message_spec t0 d" "c_string (nlmsg_data d) = Some s"
      using assms(1,3) RecvStart by (auto simp: recv_prologue_def split: option.splits)
    have logged: "holds t0 (pr e k)" for e using t0(1) by simp
    show ?thesis
      using assms(1) RecvStart Some t0
      by (auto simp: recv_prologue_def message_spec_def parse_command_def Let_def holds_free [OF t0(1)]
          simp del: set_subscribed.simps set_pid.simps is_subscribed.simps
          intro: holds_sub [OF logged] holds_unsub [OF logged] split: if_splits)
  qed
next
  case (SendStop d pid)
  then obtain k1 where s: "send_stop_msg (envs d) pid k = Inr k1" and k': "c' = ClearSub d" "k' = k1"
    using assms(1) by (auto split: sum.splits)
  have "same_slots k k1" using same_slotsI stop_frame [OF s] by blast
  then have "settles t k1 (ClearSub d) = settles t k (ClearSub d)" by (rule settles_cong)
  then show ?thesis using SendStop assms(3) k' by simp
qed (use assms in \<open>auto split: if_splits\<close>)

section \<open>The serial invariant\<close>

definition serial_inv :: "smp \<Rightarrow> bool" where
  "serial_inv m \<longleftrightarrow>
     (case filter receiving (ctxs m) of
        [] \<Rightarrow> holds (table_of (heard m)) (modl m)
      | [c] \<Rightarrow> settles (table_of (heard m)) (modl m) c
      | _ \<Rightarrow> False)"

lemma serial_inv_cong:
  "serial_inv m \<Longrightarrow> filter receiving (ctxs m') = filter receiving (ctxs m) \<Longrightarrow> heard m' = heard m \<Longrightarrow>
    same_slots (modl m) (modl m') \<Longrightarrow> serial_inv m'"
  by (simp add: serial_inv_def holds_cong settles_cong split: list.splits)

text \<open>Replacing one element of a list in which at most one has a property.\<close>

lemma filter_update_not: "\<not> P (xs ! i) \<Longrightarrow> \<not> P x \<Longrightarrow> filter P (xs[i := x]) = filter P xs"
  by (induction xs arbitrary: i) (auto split: nat.split)

lemma filter_update_single:
  assumes "length (filter P xs) \<le> 1" and "i < length xs" and "P (xs ! i)"
  shows "filter P (xs[i := x]) = filter P [x]"
  using assms
proof (induction xs arbitrary: i)
  case (Cons y ys)
  show ?case
  proof (cases i)
    case 0
    then show ?thesis using Cons.prems by (auto split: if_splits)
  next
    case (Suc j)
    then have "P (ys ! j)" "j < length ys" using Cons.prems by simp_all
    then have "filter P ys \<noteq> []" using nth_mem by (fastforce simp: filter_empty_conv)
    then have "\<not> P y" using Cons.prems(1) by (cases "filter P ys") auto
    then show ?thesis using Cons Suc by simp
  qed
qed simp

lemma filter_update_new:
  assumes "length (filter P (xs[i := x])) \<le> 1" and "i < length xs" and "\<not> P (xs ! i)" and "P x"
  shows "filter P xs = []" and "filter P (xs[i := x]) = [x]"
  using filter_update_single [OF assms(1), of i "xs ! i"] filter_update_single [OF assms(1), of i x] assms(2-4)
  by simp_all

lemma serial_inv_act:
  assumes i: "i < length (ctxs m)" and s: "cpu_step envs (ctxs m ! i) (modl m) = Inr (c, k)"
    and m': "m' = m\<lparr>ctxs := (ctxs m)[i := c], modl := k\<rparr>"
    and inv: "serial_inv m"
  shows "serial_inv m'"
proof (cases "receiving (ctxs m ! i)")
  case True
  have one: "length (filter receiving (ctxs m)) \<le> 1"
    using inv by (simp add: serial_inv_def split: list.splits)
  have "filter receiving (ctxs m) = [ctxs m ! i]"
    using filter_update_single [OF one i True, of "ctxs m ! i"] True by simp
  then have "settles (table_of (heard m)) (modl m) (ctxs m ! i)"
    using inv by (simp add: serial_inv_def)
  from recv_settles [OF s True this] show ?thesis
    using filter_update_single [OF one i True, of c] m' by (simp add: serial_inv_def)
next
  case False
  then have "same_slots (modl m) k" "filter receiving (ctxs m') = filter receiving (ctxs m)"
    using hook_slots [OF s] m' by (simp_all add: filter_update_not)
  then show ?thesis
    using serial_inv_cong [OF inv] m' by simp
qed

lemma serial_inv_step:
  assumes "serial_step m m'" and "serial_inv m"
  shows "serial_inv m'"
proof -
  have step: "smp_step m m'" and one: "length (filter receiving (ctxs m')) \<le> 1"
    using assms(1) by (simp_all add: serial_step_def)
  from step show ?thesis
  proof (cases rule: smp_step.cases)
    case (act i envs)
    then obtain c k where "cpu_step envs (ctxs m ! i) (modl m) = Inr (c, k)"
        "m' = m\<lparr>ctxs := (ctxs m)[i := c], modl := k\<rparr>"
      by (auto simp: smp_act_def split: sum.splits)
    then show ?thesis using serial_inv_act [OF act(1)] assms(2) by blast
  next
    case (packet i skb)
    then show ?thesis
      by (intro serial_inv_cong [OF assms(2)]) (simp_all add: smp_packet_def filter_update_not same_slots_def)
  next
    case (message i data)
    have "filter receiving (ctxs m) = []" "filter receiving (ctxs m') = [RecvStart (Some data)]"
      using filter_update_new [of receiving "ctxs m" i "RecvStart (Some data)"] one message
      by (simp_all add: smp_message_def)
    then show ?thesis
      using assms(2) message(1) by (auto simp: serial_inv_def smp_message_def table_of_def)
  next
    case unload
    have "same_slots (modl m) (sniffer_exit (modl m))"
      unfolding same_slots_def
    proof
      show "is_subscribed c (sniffer_exit (modl m)) = is_subscribed c (modl m) \<and>
          slot_pid c (sniffer_exit (modl m)) = slot_pid c (modl m)" for c
        by (cases c) (simp_all add: slot_pid_def sniffer_exit_def Let_def pr_def)
    qed
    then show ?thesis
      using serial_inv_cong [OF assms(2)] unload(1) by simp
  qed
qed

lemma serial_inv_started: "smp_started m \<Longrightarrow> serial_inv m"
proof -
  assume m: "smp_started m"
  then have "filter receiving (ctxs m) = []"
    by (auto simp: smp_started_def filter_empty_conv)
  moreover have "\<not> is_subscribed c (modl m) \<and> slot_pid c (modl m) = 0" for c
    using m by (cases c)
      (auto simp: smp_started_def kernel_loaded_def sniffer_init_def kernel_static_def pr_def slot_pid_def)
  ultimately show ?thesis
    using m by (simp add: serial_inv_def holds_def table_of_def smp_started_def)
qed

interpretation seriali: transition_invariant smp_started serial_step serial_inv
  by unfold_locales (auto intro: serial_inv_step serial_inv_started)

text \<open>
  C28: While at most one call of the input function is in progress, any number of calls of the hook
  may run beside it, at any point of it: whenever no message is being handled, the subscription table is
  what the messages heard so far give when they are handled one after the other, and a free slot
  holds port 0.
\<close>

theorem serial_table:
  assumes "smp_started m0" and "serial_step\<^sup>*\<^sup>* m0 m" and "filter receiving (ctxs m) = []"
  shows "subs_of (modl m) = table_of (heard m) \<and>
    (packet_hunter_subscribed (modl m) \<or> packet_hunter_pid (modl m) = 0) \<and>
    (daemon_subscribed (modl m) \<or> daemon_pid (modl m) = 0)"
proof -
  have h: "holds (table_of (heard m)) (modl m)"
    using seriali.inv_reachable [OF assms(1,2)] assms(3) by (simp add: serial_inv_def)
  have "subs_of (modl m) = table_of (heard m)"
    using h by (intro subs_of_eqI) (simp_all add: holds_def slot_pid_def)
  then show ?thesis
    using h [unfolded holds_def, THEN spec, of HunterClient]
      h [unfolded holds_def, THEN spec, of DaemonClient] by (auto simp: slot_pid_def)
qed

fun serial_exec :: "smp_event list \<Rightarrow> smp \<Rightarrow> smp option" where
  "serial_exec [] m = Some m"
| "serial_exec (e # es) m =
     (case smp_do e m of
        None \<Rightarrow> None
      | Some m' \<Rightarrow> if length (filter receiving (ctxs m')) \<le> 1 then serial_exec es m' else None)"

lemma serial_exec_steps: "serial_exec es m = Some m' \<Longrightarrow> serial_step\<^sup>*\<^sup>* m m'"
proof (induction es arbitrary: m)
  case (Cons e es)
  then obtain m1 where m1: "smp_do e m = Some m1" "length (filter receiving (ctxs m1)) \<le> 1"
      "serial_exec es m1 = Some m'"
    by (auto split: option.splits if_splits)
  then have "serial_step m m1" using smp_do_step by (simp add: serial_step_def)
  then show ?case using Cons.IH [OF m1(3)] by (rule converse_rtranclp_into_rtranclp)
qed simp

definition beside_events :: "smp_event list" where
  "beside_events = [Message 0 (hunter_subscribes 2900), Act 0, Packet 1 dns_reply, Act 0, Act 1, Act 0,
     Act 1, Act 1, Act 0, Act 0, Act 1]"

lemma beside_run:
  "\<exists>m key. serial_exec beside_events two_cpus = Some m \<and> ctxs m = [Idle, Create HunterClient key] \<and>
     heard m = [hunter_subscribes 2900]"
  by (simp add: beside_events_def smp_exec_simps pr_def dns_prologue)

theorem serial_table_witness:
  "\<exists>m key. smp_started two_cpus \<and> serial_step\<^sup>*\<^sup>* two_cpus m \<and>
     ctxs m = [Idle, Create HunterClient key] \<and> subs_of (modl m) HunterClient = Some 2900 \<and>
     subs_of (modl m) DaemonClient = None"
proof -
  obtain m key where m: "serial_exec beside_events two_cpus = Some m"
      "ctxs m = [Idle, Create HunterClient key]" "heard m = [hunter_subscribes 2900]"
    using beside_run by (elim exE conjE)
  have run: "serial_step\<^sup>*\<^sup>* two_cpus m" using serial_exec_steps [OF m(1)] .
  have "subs_of (modl m) = table_of [hunter_subscribes 2900]"
    using serial_table [OF two_cpus_started run] m(2,3) by simp
  then have "subs_of (modl m) HunterClient = Some 2900" "subs_of (modl m) DaemonClient = None"
    by (simp_all only: table_of_def message_spec_def command_strings foldl.simps)
      (simp_all add: parse_command_def)
  then show ?thesis
    using two_cpus_started run m(2) by (intro exI [of _ m] exI [of _ key] conjI)
qed

text \<open>
  C39: Without that, two CPUs are enough for two failures. When a new packet hunter subscribes while
  the unsubscription of the old one is between its two stores, both calls return and the slot is taken
  and holds port 0: nobody is told of any packet, though the messages in this order subscribe the
  new hunter. And when a hunter subscribes, a packet arrives and the hunter's unsubscription runs between
  the test of the port and its use in the hook, then all calls return and the module has sent the
  terminate message to the hunter first and after it the report of the packet, to port 0.
\<close>

theorem module_races:
  "(\<exists>m. smp_started two_cpus \<and> smp_step\<^sup>*\<^sup>* two_cpus m \<and> ctxs m = [Idle, Idle] \<and>
      subs_of (modl m) HunterClient = Some 0 \<and> recipients (modl m) = [] \<and>
      table_of (heard m) HunterClient = Some 3100) \<and>
   (\<exists>m key. smp_step\<^sup>*\<^sup>* two_cpus m \<and> ctxs m = [Idle, Idle] \<and> packets m = [dns_reply] \<and>
      heard m = [hunter_subscribes 2900, hunter_unsubscribes 2900] \<and>
      packet_report (Some dns_reply) = Some key \<and> key \<noteq> (0, 0, 0, 0, nul) \<and>
      map unicast_key (unicasts (modl m)) = [(2900, 0, 0, 0, 0, nul), (0, key)])"
proof (rule conjI)
  obtain m where m: "smp_exec lost_events two_cpus = Some m" "ctxs m = [Idle, Idle]"
      "packet_hunter_subscribed (modl m)" "packet_hunter_pid (modl m) = 0" "\<not> daemon_subscribed (modl m)"
      "heard m = [hunter_subscribes 2900, hunter_unsubscribes 2900, hunter_subscribes 3100]"
    using lost_run by (elim exE conjE)
  have "table_of (heard m) HunterClient = Some 3100"
    by (simp add: m(6) table_of_def message_spec_def command_strings parse_command_def)
  moreover have "recipients (modl m) = []" "subs_of (modl m) HunterClient = Some 0"
    by (simp_all add: recipients_def m(3-5))
  moreover have "smp_step\<^sup>*\<^sup>* two_cpus m" using smp_exec_steps [OF m(1)] .
  ultimately show "\<exists>m. smp_started two_cpus \<and> smp_step\<^sup>*\<^sup>* two_cpus m \<and> ctxs m = [Idle, Idle] \<and>
      subs_of (modl m) HunterClient = Some 0 \<and> recipients (modl m) = [] \<and>
      table_of (heard m) HunterClient = Some 3100"
    using two_cpus_started m(2) by (intro exI [of _ m] conjI)
next
  obtain n r where n: "smp_exec late_events two_cpus = Some n" "ctxs n = [Idle, Idle]"
      "packets n = [dns_reply]" "heard n = [hunter_subscribes 2900, hunter_unsubscribes 2900]"
      "unicasts (modl n) = [(2900, stop_bytes, 36), (0, r, 36)]" "unicast_key (0, r, 36) = (0, dns_key)"
    using late_run by (elim exE conjE)
  have "map unicast_key (unicasts (modl n)) = [(2900, 0, 0, 0, 0, nul), (0, dns_key)]"
    by (simp only: n(5,6) list.map stop_unicast)
  moreover have "dns_key \<noteq> (0, 0, 0, 0, nul)" by (simp add: dns_key_def)
  ultimately show "\<exists>m key. smp_step\<^sup>*\<^sup>* two_cpus m \<and> ctxs m = [Idle, Idle] \<and> packets m = [dns_reply] \<and>
      heard m = [hunter_subscribes 2900, hunter_unsubscribes 2900] \<and>
      packet_report (Some dns_reply) = Some key \<and> key \<noteq> (0, 0, 0, 0, nul) \<and>
      map unicast_key (unicasts (modl m)) = [(2900, 0, 0, 0, 0, nul), (0, key)]"
    using smp_exec_steps [OF n(1)] n(2-4) dns_report by (intro exI [of _ n] exI [of _ dns_key] conjI)
qed

end
