(* ===== verification/DaemonDescriptors.thy ===== *)
theory DaemonDescriptors
  imports Daemon
begin

text \<open>
  The daemon's descriptors at the end of \<open>main\<close>. Two threads may close a client's descriptor, and
  both may do it; but none is left open: whatever the interleaving, when \<open>main\<close> returns the table is as
  it was when the threads were started, and the destructors leave it as the process found it. The
  socket that \<open>stopListeningForNewClients\<close> opens and closes again is one action, so a second close of
  a client cannot hit it here.
\<close>

section \<open>Who closes a client's descriptor\<close>

text \<open>Main thread: closing the connection, and everything after the main loop up to there.\<close>

fun closing :: "main_pc \<Rightarrow> bool" where
  "closing MShutdown = True"
| "closing MCloseTest = True"
| "closing (MCloseCall n) = True"
| "closing MCloseSet = True"
| "closing _ = False"

fun past_loop :: "main_pc \<Rightarrow> bool" where
  "past_loop MUnsubscribe = True"
| "past_loop MJoinRx = True"
| "past_loop MClean = True"
| "past_loop MGetClient = True"
| "past_loop pc = closing pc"

text \<open>The descriptor the client thread has still to close.\<close>

fun to_close :: "fd \<Rightarrow> client_pc \<Rightarrow> fd set" where
  "to_close n CTop = {}"
| "to_close n CAccept = {}"
| "to_close n CEnd = {}"
| "to_close n CCloseSet = {}"
| "to_close n (CCloseCall m) = (if n = m then {m} else {})"
| "to_close n _ = (if n = -1 then {} else {n})"

text \<open>
  \<open>base\<close> is what is open when the threads start. What is open beyond it is what the client thread
  has still to close, unless the main thread is about to; a client's descriptor is never one of
  \<open>base\<close>.
\<close>

definition conn_ok :: "fd set \<Rightarrow> daemon \<Rightarrow> bool" where
  "conn_ok base s \<longleftrightarrow>
     (let n = clientFd (dserver s); fds = set (open_fds (dos s)) in
      base \<subseteq> fds \<and> fds - base \<subseteq> to_close n (dclient s) \<and>
      (n \<noteq> -1 \<longrightarrow> n \<notin> base) \<and> (\<forall>m. dclient s = CCloseCall m \<longrightarrow> m \<notin> base) \<and>
      (dclient s \<in> {CTop, CAccept, CEnd} \<longrightarrow> n = -1) \<and>
      (past_loop (dmain s) \<longrightarrow> \<not> running (dsh s)) \<and>
      (closing (dmain s) \<longrightarrow> dclient s \<noteq> CAccept) \<and>
      (\<forall>m. dmain s = MCloseCall m \<longrightarrow> m \<notin> base \<and> fds - base \<subseteq> {m}) \<and>
      (dmain s = MCloseSet \<longrightarrow> fds = base) \<and>
      (\<forall>i. dmain s = MExit i \<longrightarrow> i = 0 \<and> dclient s = CEnd))"

lemma closing_past: "closing pc \<Longrightarrow> past_loop pc"
  by (cases pc) simp_all

lemma to_close_one: "to_close n pc \<subseteq> {n}"
  by (cases "(n, pc)" rule: to_close.cases) auto

lemma conn_main:
  assumes ok: "conn_ok base s" and run: "\<not> ended (dmain s)" and io: "io_valid io s"
  shows "conn_ok base (main_step io s)"
proof (cases "dmain s")
  case MStop
  have "set (open_fds (os_close (io_socket io) (os_open (io_socket io) (dos s)))) = set (open_fds (dos s))"
    if "0 \<le> io_socket io"
    using io that by (auto simp: io_valid_def fd_result_def fresh_fd_def os_simps)
  then show ?thesis
    using ok MStop by (simp add: conn_ok_def main_step_def stopListeningForNewClients_def Let_def)
next
  case MCloseTest
  then show ?thesis
    using ok to_close_one [of "clientFd (dserver s)" "dclient s"]
    by (auto simp: conn_ok_def main_step_def Let_def)
next
  case (MCloseCall n)
  then show ?thesis
    using ok by (auto simp: conn_ok_def main_step_def Let_def os_simps)
qed (use ok run in \<open>auto simp: conn_ok_def main_step_def Let_def split_beta getClientFd_def split: option.split sum.split prod.split\<close>)

lemma conn_client:
  assumes ok: "conn_ok base s" and run: "\<not> ended (dmain s)" and io: "io_valid io s"
  shows "conn_ok base (client_thread io s)"
proof (cases "dclient s")
  case CTop
  then show ?thesis
    using ok closing_past [of "dmain s"] by (auto simp: conn_ok_def client_thread_def Let_def)
next
  case CAccept
  have "io_accept io = -1 \<or> 0 \<le> io_accept io \<and> io_accept io \<notin> set (open_fds (dos s))"
    using io by (auto simp: io_valid_def fd_result_def fresh_fd_def)
  then show ?thesis
    using ok CAccept
    by (auto simp: conn_ok_def client_thread_def connectToClient_def Let_def os_simps)
next
  case (CCloseCall n)
  then show ?thesis
    using ok by (auto simp: conn_ok_def client_thread_def Let_def os_simps split: if_splits)
next
  case (CSend port pid)
  then show ?thesis
    using ok by (auto simp: conn_ok_def client_thread_def Let_def split: prod.split sum.split signal_death.split)
qed (use ok in \<open>auto simp: conn_ok_def client_thread_def Let_def getClientFd_def split: prod.split\<close>)

lemma conn_signal: "conn_ok base s \<Longrightarrow> conn_ok base (on_signal s)"
  by (simp add: conn_ok_def on_signal_def handleSignal_def Let_def)

lemma conn_rx: "conn_ok base s \<Longrightarrow> conn_ok base (rx_thread g r s)"
  by (cases "drx s")
    (auto simp: conn_ok_def rx_thread_def split_beta Let_def split: option.split)

lemma conn_step: "daemon_step s t \<Longrightarrow> conn_ok base s \<Longrightarrow> conn_ok base t"
  by (induction rule: daemon_step.induct) (simp_all add: conn_signal conn_main conn_client conn_rx)

lemma conn_started: "daemon_started s \<Longrightarrow> conn_ok (set (open_fds (dos s))) s"
  by (auto simp: daemon_started_def daemon_init_def conn_ok_def)

text \<open>The objects that own the other descriptors stay as they were constructed.\<close>

definition owners_ok :: "daemon \<Rightarrow> daemon \<Rightarrow> bool" where
  "owners_ok s0 s \<longleftrightarrow> daemon_started s0 \<and> conn_ok (set (open_fds (dos s0))) s \<and>
     dnl s = dnl s0 \<and> serverFd (dserver s) = serverFd (dserver s0)"

lemma owners_step: "daemon_step s t \<Longrightarrow> dnl t = dnl s \<and> serverFd (dserver t) = serverFd (dserver s)"
proof (induction rule: daemon_step.induct)
  case (main s io)
  have "dnl (snd (send_command io msg s)) = dnl s" for msg
    by (simp add: send_command_def split: prod.split bool.split option.split)
  then show ?case
    by (cases "dmain s")
      (auto simp: main_step_def stopListeningForNewClients_def split_beta Let_def
        split: option.split sum.split)
next
  case (client s io)
  show ?case
    by (cases "dclient s")
      (auto simp: client_thread_def connectToClient_def Let_def
        split: prod.split sum.split signal_death.split)
qed (simp_all add: on_signal_def rx_thread_def split: prod.split)

interpretation owners: transition_invariant "\<lambda>s. s = s0 \<and> daemon_started s0" daemon_step "owners_ok s0" for s0
  by unfold_locales (auto simp: owners_ok_def conn_started conn_step dest: owners_step)

lemma daemon_end:
  assumes "daemon_started s0" and "daemon_step\<^sup>*\<^sup>* s0 s" and "dmain s = MExit i"
  shows "set (open_fds (dos s)) = set (open_fds (dos s0)) \<and> clientFd (dserver s) = -1 \<and>
    dnl s = dnl s0 \<and> serverFd (dserver s) = serverFd (dserver s0)"
  using owners.inv_reachable [of s0 s0 s] assms by (auto simp: owners_ok_def conn_ok_def Let_def)

section \<open>The whole life of the process\<close>

text \<open>
  C33: No descriptor is left behind. From the construction of the netlink client and the server,
  through any interleaving of the threads and of signals, to the end of \<open>main\<close> and the destructors, in
  whatever way \<open>socket\<close>, \<open>bind\<close>, \<open>listen\<close>, \<open>accept\<close> and \<open>read\<close> fail, and also when two threads close
  the same client, the table of open descriptors ends as it began.
\<close>

theorem daemon_closes_all:
  assumes nl: "fd_result sock w" "NetLinkClient_ctor sock bind pid w = (nl, w1)"
    and srv: "fd_result r w1" "UnixSocketServer_ctor u r b l w1 = (srv, w2)"
    and start: "ptp_valid m" "bad_closes w = 0" "daemon_init nl srv w2 (Inr m) = Inr s0"
    and run: "daemon_step\<^sup>*\<^sup>* s0 s" "dmain s = MExit i"
    and dtor: "UnixSocketServer_dtor (dserver s, dos s) = (srv', w3)" "NetLinkClient_dtor (dnl s) w3 = (nl', w4)"
  shows "set (open_fds w4) = set (open_fds w)"
proof -
  have init: "dnl s0 = nl" "dserver s0 = srv" "dos s0 = w2"
    using start(3) by (auto simp: daemon_init_def)
  have nl1: "fd_frame {} w (nlc_owned nl) w1" "-1 \<le> sock_fd nl"
    using nlc_ctor_frame [OF _ _ nl(2)] nl(1) by (auto simp: fd_result_def)
  have srv1: "srv_wf srv" "fd_frame {} w1 (srv_owned srv) w2" and cf: "clientFd srv = -1"
    using ctor_frame [OF srv] srv(2)
    by (auto simp: UnixSocketServer_ctor_def start_def closeSocket_def closeClientFd_def Let_def split: if_splits)
  have "daemon_started s0"
    using daemon_startedI [OF start(3,1) srv1(1) cf] srv1(2) nl1(1) start(2) by (simp add: fd_frame_def)
  note fin = daemon_end [OF this run, unfolded init]
  from cf have srv2: "srv_owned srv = (if serverFd srv = -1 then {} else {serverFd srv})"
    by (auto simp: srv_owned_def)
  have "set (open_fds w3) = set (open_fds w2) - srv_owned srv"
    using dtor(1) fin srv2
    by (auto simp: UnixSocketServer_dtor_def closeSocket_def closeClientFd_def unlink_socket_def Let_def
        os_simps split: if_splits)
  then have w3: "set (open_fds w3) = set (open_fds w1)"
    using srv1(2) by (auto simp: fd_frame_def)
  have "fd_frame (nlc_owned nl) w3 {} w4"
    using nlc_dtor_frame [OF _ _ dtor(2)] nl1 fin w3 by (auto simp: fd_frame_def)
  then show ?thesis
    using nl1(1) w3 by (auto simp: fd_frame_def)
qed

text \<open>A run with the double close, from the empty table to the empty table.\<close>

definition netlink1 :: netlink_client where
  "netlink1 = \<lparr>sock_fd = 3, src_addr = Some \<lparr>nl_pid = 812, nl_groups = 0\<rparr>,
     dest_addr = Some \<lparr>nl_pid = 0, nl_groups = 0\<rparr>\<rparr>"

definition constructed :: daemon where
  "constructed = daemon0\<lparr>dnl := netlink1\<rparr>"

definition full_race_acts :: "action list" where
  "full_race_acts = connect_acts @ stop_acts @ racing_acts @
     [Main io0, Main io0, Client io0, Client io0, Main io0]"

lemma run_full_race:
  "\<exists>t. run_acts full_race_acts constructed = Some t \<and> dmain t = MExit 0 \<and> bad_closes (dos t) = 1"
  by (simp add: full_race_acts_def connect_acts_def stop_acts_def racing_acts_def constructed_def
      netlink1_def daemon0_def io0_def daemon_exec)

theorem daemon_closes_all_witness:
  "\<exists>s w3 w4. daemon_step\<^sup>*\<^sup>* constructed s \<and> dmain s = MExit 0 \<and> bad_closes (dos s) = 1 \<and>
     snd (UnixSocketServer_dtor (dserver s, dos s)) = w3 \<and> snd (NetLinkClient_dtor (dnl s) w3) = w4 \<and>
     set (open_fds w4) = {}"
proof -
  let ?w = "\<lparr>open_fds = [], bad_closes = 0, sock_file = False\<rparr>"
  let ?w1 = "\<lparr>open_fds = [3], bad_closes = 0, sock_file = False\<rparr>"
  have nl: "fd_result 3 ?w" "NetLinkClient_ctor 3 0 812 ?w = (netlink1, ?w1)"
    by (simp_all add: fd_result_def fresh_fd_def NetLinkClient_ctor_def netlink1_def os_open_def)
  have srv: "fd_result 4 ?w1" "UnixSocketServer_ctor False 4 0 0 ?w1 = (dserver daemon0, dos daemon0)"
    by (simp_all add: fd_result_def fresh_fd_def UnixSocketServer_ctor_def start_def os_open_def
        unlink_socket_def daemon0_def)
  have init: "daemon_init netlink1 (dserver daemon0) (dos daemon0) (Inr (dports daemon0)) = Inr constructed"
    "ptp_valid (dports daemon0)" "bad_closes ?w = 0"
    by (simp_all add: daemon_init_def constructed_def daemon0_def ptp_valid_def)
  obtain s where s: "run_acts full_race_acts constructed = Some s" "dmain s = MExit 0" "bad_closes (dos s) = 1"
    using run_full_race by blast
  obtain c w3 n w4 where d: "UnixSocketServer_dtor (dserver s, dos s) = (c, w3)"
      "NetLinkClient_dtor (dnl s) w3 = (n, w4)"
    by (metis surj_pair)
  have "set (open_fds w4) = {}"
    using daemon_closes_all [OF nl srv init(2,3,1) run_acts_reach [OF s(1)] s(2) d] by simp
  then show ?thesis
    using run_acts_reach [OF s(1)] s(2,3) d by auto
qed

end
