(* ===== verification/HunterDescriptors.thy ===== *)
theory HunterDescriptors
  imports PacketHunter
begin

text \<open>
  The packet hunter's two sockets over the whole life of the process, and what becomes of a hunter
  that finds no daemon. The threads open and close nothing: both sockets are opened by the
  constructors at the start of \<open>main\<close> and closed by the destructors at its end.
\<close>

section \<open>What the threads leave alone\<close>

text \<open>
  The objects that own the sockets stay as they were constructed; and without a connection no
  question is ever sent, so nothing is shown and nothing stored.
\<close>

definition unanswered :: "hunter \<Rightarrow> bool" where
  "unanswered s \<longleftrightarrow> hscreen s = [] \<and> hmap s = ptpi_init \<and>
     (\<forall>a. hmain s \<noteq> HReceive a) \<and> (\<forall>a pid. hmain s \<noteq> HPrint a pid \<and> hmain s \<noteq> HInsert a pid)"

definition sockets_kept :: "netlink_client \<Rightarrow> unix_client \<Rightarrow> hunter \<Rightarrow> bool" where
  "sockets_kept nl c s \<longleftrightarrow> hnl s = nl \<and> hclient s = c \<and> (\<not> isConnected c \<longrightarrow> unanswered s)"

lemma hunter_command_kept:
  "hnl (snd (hunter_command io msg s)) = hnl s" "hscreen (snd (hunter_command io msg s)) = hscreen s"
  by (simp_all add: hunter_command_def split: prod.split bool.split option.split)

lemma kept_main:
  assumes "sockets_kept nl c s"
  shows "sockets_kept nl c (hunter_main io s)"
proof (cases "hmain s")
  case (HSendPort a)
  have "\<not> isConnected (hclient s) \<Longrightarrow> snd (sendPort (hclient s) port (hio_write io)) = Inr False" for port
    by (simp add: sendPort_def)
  then show ?thesis
    using assms HSendPort
    by (auto simp: sockets_kept_def unanswered_def hunter_main_def
        split: option.split sum.split signal_death.split bool.split)
qed (use assms in \<open>auto simp: sockets_kept_def unanswered_def hunter_main_def hunter_command_kept
    split_beta Let_def split: option.split bool.split\<close>)

lemma kept_step: "hunter_step s t \<Longrightarrow> sockets_kept nl c s \<Longrightarrow> sockets_kept nl c t"
proof (induction rule: hunter_step.induct)
  case (hmain_act s io)
  then show ?case using kept_main by blast
qed (simp_all add: sockets_kept_def unanswered_def hunter_signal_def hunter_rx_def split: prod.split)

interpretation kept: transition_invariant "\<lambda>s. s = hunter_init nl c" hunter_step "sockets_kept nl c" for nl c
  by unfold_locales (auto simp: sockets_kept_def unanswered_def hunter_init_def dest: kept_step)

section \<open>The whole life of the process\<close>

text \<open>
  C34: The hunter's sockets. From the construction of the two clients, through any interleaving of the
  threads and of signals, to the return from \<open>main\<close> and the destructors, no descriptor is closed
  that is not open, and the table ends as it began, with one exception: if the Unix socket was
  created and could not be connected, it is never closed. A hunter that is not connected
  shows no packet.
\<close>

theorem hunter_closes:
  assumes nl: "fd_result sock w" "NetLinkClient_ctor sock bind pid w = (nl, w1)"
    and cli: "fd_result r w1" "UnixSocketClient_ctor r q w1 = (c, w2)"
    and run: "hunter_step\<^sup>*\<^sup>* (hunter_init nl c) s" "hmain s = HExit i"
    and dtor: "UnixSocketClient_dtor (hclient s, w2) = (c', w3)" "NetLinkClient_dtor (hnl s) w3 = (nl', w4)"
  shows "set (open_fds w4) = (if 0 \<le> r \<and> q < 0 then insert r (set (open_fds w)) else set (open_fds w)) \<and>
    bad_closes w4 = bad_closes w \<and> (r < 0 \<or> q < 0 \<longrightarrow> hscreen s = [])"
proof -
  have keep: "hnl s = nl" "hclient s = c" "\<not> isConnected c \<longrightarrow> hscreen s = []"
    using kept.inv_reachable [OF refl run(1)] by (simp_all add: sockets_kept_def unanswered_def)
  have nl1: "fd_frame {} w (nlc_owned nl) w1" "-1 \<le> sock_fd nl"
    using nlc_ctor_frame [OF _ _ nl(2)] nl(1) by (auto simp: fd_result_def)
  have cli3: "set (open_fds w3) = (if 0 \<le> r \<and> q < 0 then insert r (set (open_fds w1)) else set (open_fds w1))"
      "bad_closes w3 = bad_closes w1" "isConnected c \<longleftrightarrow> 0 \<le> r \<and> 0 \<le> q"
    using unix_client_releases [OF cli] dtor(1) keep(2) by simp_all
  have "nlc_owned nl \<subseteq> set (open_fds w3)"
    using nl1(1) cli3(1) by (auto simp: fd_frame_def)
  then have "fd_frame (nlc_owned nl) w3 {} w4"
    using nlc_dtor_frame [OF nl1(2) _ dtor(2) [unfolded keep(1)]] by blast
  moreover have "0 \<le> r \<Longrightarrow> r \<notin> nlc_owned nl"
    using cli(1) nl1(1) by (auto simp: fd_result_def fresh_fd_def fd_frame_def)
  ultimately have "set (open_fds w4) = (if 0 \<le> r \<and> q < 0 then insert r (set (open_fds w)) else set (open_fds w))"
      "bad_closes w4 = bad_closes w"
    using nl1(1) cli3(1,2) by (auto simp: fd_frame_def)
  then show ?thesis
    using cli3(3) keep(3) by auto
qed

text \<open>No daemon: \<open>connect\<close> fails, the hunter gives up at the first poll, and descriptor 4 stays open.\<close>

definition alone :: hunter where
  "alone = hunter_init \<lparr>sock_fd = 3, src_addr = Some \<lparr>nl_pid = 2900, nl_groups = 0\<rparr>,
     dest_addr = Some \<lparr>nl_pid = 0, nl_groups = 0\<rparr>\<rparr> \<lparr>sockFd = 4, isConnected = False\<rparr>"

lemma run_alone:
  "\<exists>s. hrun ([HMain hio0, HMain hio0, HReceiver [] ReadError, HMain hio0, HMain hio0, HMain hio0, HMain hio0,
      HMain hio0, HReceiver [] ReadError, HReceiver [] ReadError, HMain hio0, HMain hio0, HMain hio0, HMain hio0])
      alone = Some s \<and> hmain s = HExit 0"
  by (simp add: alone_def hunter_init_def hio0_def hunter_exec heap_init_def nullptr_def
      receivePacketInfo_def)

theorem hunter_closes_witness:
  "\<exists>s w3 w4. hunter_step\<^sup>*\<^sup>* alone s \<and> hmain s = HExit 0 \<and>
     w3 = snd (UnixSocketClient_dtor (hclient s, \<lparr>open_fds = [4, 3], bad_closes = 0, sock_file = True\<rparr>)) \<and>
     w4 = snd (NetLinkClient_dtor (hnl s) w3) \<and> set (open_fds w4) = {4} \<and> hscreen s = []"
proof -
  let ?w = "\<lparr>open_fds = [], bad_closes = 0, sock_file = True\<rparr>"
  let ?w1 = "\<lparr>open_fds = [3], bad_closes = 0, sock_file = True\<rparr>"
  let ?w2 = "\<lparr>open_fds = [4, 3], bad_closes = 0, sock_file = True\<rparr>"
  have nl: "fd_result 3 ?w" "NetLinkClient_ctor 3 0 2900 ?w = (hnl alone, ?w1)"
    by (simp_all add: fd_result_def fresh_fd_def NetLinkClient_ctor_def os_open_def alone_def hunter_init_def)
  have cli: "fd_result 4 ?w1" "UnixSocketClient_ctor 4 (-1) ?w1 = (hclient alone, ?w2)"
    by (simp_all add: fd_result_def fresh_fd_def UnixSocketClient_ctor_def connectToServer_def
        disconnect_def os_open_def alone_def hunter_init_def)
  have start: "hunter_init (hnl alone) (hclient alone) = alone"
    by (simp add: alone_def hunter_init_def)
  obtain s where s: "hunter_step\<^sup>*\<^sup>* alone s" "hmain s = HExit 0"
    using run_alone hrun_reach by blast
  obtain c w3 n w4 where d: "UnixSocketClient_dtor (hclient s, ?w2) = (c, w3)"
      "NetLinkClient_dtor (hnl s) w3 = (n, w4)"
    by (metis surj_pair)
  have "set (open_fds w4) = {4} \<and> hscreen s = []"
    using hunter_closes [OF nl cli _ s(2) d] s(1) start by simp
  then show ?thesis
    using s d by (intro exI [of _ s] exI [of _ w3] exI [of _ w4]) simp
qed

end
