(* ===== verification/FairRuns.thy ===== *)
theory FairRuns
  imports HK_Prelude
begin

text \<open>
  Termination of threads under weak fairness. A program is a step relation. Of each thread \<open>ready\<close>
  says whether it can go on, that is, it has not ended and is not blocked in a call, and \<open>acts\<close>
  which steps are its own. A run is fair to a thread if the thread, when it stays ready from some
  point on, acts at some later point; nothing is assumed of a thread that is blocked. A rank counts
  what is left to do. If no step raises it and, as long as the program has not ended, some thread
  \<open>helps\<close>, which means that it is ready, that its next action lowers the rank, and that it goes on
  to help until the rank has changed, then every fair run ends.
\<close>

lemma eventually_least:
  fixes r :: "nat \<Rightarrow> nat"
  assumes "\<And>n. r (Suc n) \<le> r n"
  shows "\<exists>N. \<forall>n\<ge>N. r n = r N"
proof -
  obtain N where N: "\<forall>n. r N \<le> r n"
    using ex_has_least_nat [of "\<lambda>n. True" _ r] by auto
  have "r (N + k) \<le> r N" for k
    by (induction k) (auto intro: order_trans [OF assms])
  then have "r n = r N" if "N \<le> n" for n
    using N that by (metis le_Suc_ex le_antisym)
  then show ?thesis by blast
qed

text \<open>A run takes steps, and may pause.\<close>

definition is_run :: "('s \<Rightarrow> 's \<Rightarrow> bool) \<Rightarrow> (nat \<Rightarrow> 's) \<Rightarrow> bool" where
  "is_run step f \<longleftrightarrow> (\<forall>n. f (Suc n) = f n \<or> step (f n) (f (Suc n)))"

definition fair :: "('s \<Rightarrow> bool) \<Rightarrow> ('s \<Rightarrow> 's \<Rightarrow> bool) \<Rightarrow> (nat \<Rightarrow> 's) \<Rightarrow> bool" where
  "fair ready acts f \<longleftrightarrow> (\<forall>n. (\<forall>m\<ge>n. ready (f m)) \<longrightarrow> (\<exists>m\<ge>n. acts (f m) (f (Suc m))))"

lemma run_steps: "is_run step f \<Longrightarrow> step\<^sup>*\<^sup>* (f i) (f (i + n))"
proof (induction n)
  case (Suc n)
  then have "step\<^sup>*\<^sup>* (f (i + n)) (f (i + Suc n))"
    unfolding is_run_def by (metis add_Suc_right r_into_rtranclp rtranclp.rtrancl_refl)
  with Suc show ?case by (simp add: rtranclp_trans)
qed simp

lemma run_mono: "is_run step f \<Longrightarrow> (\<And>s t. step s t \<Longrightarrow> step' s t) \<Longrightarrow> is_run step' f"
  unfolding is_run_def by blast

lemma run_later: "is_run step f \<Longrightarrow> is_run step (\<lambda>n. f (i + n))"
  by (simp add: is_run_def)

lemma fair_later: "fair ready acts f \<Longrightarrow> fair ready acts (\<lambda>n. f (i + n))"
proof -
  assume f: "fair ready acts f"
  have "\<exists>m\<ge>n. acts (f (i + m)) (f (i + Suc m))" if "\<forall>m\<ge>n. ready (f (i + m))" for n
  proof -
    have "ready (f m)" if "i + n \<le> m" for m
      using that \<open>\<forall>m\<ge>n. ready (f (i + m))\<close> by (metis add.commute le_Suc_ex le_add2 add.assoc)
    then obtain m where "i + n \<le> m" "acts (f m) (f (Suc m))"
      using f unfolding fair_def by blast
    then show ?thesis
      by (intro exI [of _ "m - i"]) simp
  qed
  then show ?thesis by (simp add: fair_def)
qed

text \<open>A run that comes to a rest: the states of a list, and its last one for ever.\<close>

definition rest_run :: "'s list \<Rightarrow> nat \<Rightarrow> 's" where
  "rest_run ss n = (if n < length ss then ss ! n else last ss)"

lemma rest_run_step:
  assumes "ss \<noteq> []"
  shows "rest_run ss (Suc n) = rest_run ss n \<or>
    (Suc n < length ss \<and> rest_run ss n = ss ! n \<and> rest_run ss (Suc n) = ss ! Suc n)"
proof (cases "Suc n < length ss")
  case False
  then show ?thesis using assms by (cases "n = length ss - 1") (auto simp: rest_run_def last_conv_nth)
qed (simp add: rest_run_def)

lemma rest_runI: "ss \<noteq> [] \<Longrightarrow> successively step ss \<Longrightarrow> is_run step (rest_run ss)"
  using rest_run_step [of ss] unfolding is_run_def by (metis successively_nth)

lemma rest_run_last: "ss \<noteq> [] \<Longrightarrow> length ss \<le> Suc n \<Longrightarrow> rest_run ss n = last ss"
proof -
  assume ss: "ss \<noteq> []" "length ss \<le> Suc n"
  then have "n < length ss \<Longrightarrow> n = length ss - 1" by arith
  with ss(1) show ?thesis by (auto simp: rest_run_def last_conv_nth)
qed

lemma rest_run_fair: "ss \<noteq> [] \<Longrightarrow> \<not> ready (last ss) \<Longrightarrow> fair ready acts (rest_run ss)"
  unfolding fair_def using rest_run_last [of ss "max n (length ss)" for n] by (metis le_SucI max.cobounded1 max.cobounded2)

locale fair_threads =
  fixes step :: "'s \<Rightarrow> 's \<Rightarrow> bool"
    and ready :: "'t \<Rightarrow> 's \<Rightarrow> bool" and acts :: "'t \<Rightarrow> 's \<Rightarrow> 's \<Rightarrow> bool"
    and helps :: "'t \<Rightarrow> 's \<Rightarrow> bool"
    and threads :: "'t set"
    and stop :: "'s \<Rightarrow> bool" and good :: "'s \<Rightarrow> bool" and rank :: "'s \<Rightarrow> nat"
  assumes good_step: "step s t \<Longrightarrow> good s \<Longrightarrow> good t"
    and rank_step: "step s t \<Longrightarrow> good s \<Longrightarrow> rank t \<le> rank s"
    and some_helps: "good s \<Longrightarrow> \<not> stop s \<Longrightarrow> \<exists>T \<in> threads. helps T s"
    and helps_ready: "good s \<Longrightarrow> helps T s \<Longrightarrow> ready T s"
    and helps_acts: "good s \<Longrightarrow> helps T s \<Longrightarrow> step s t \<or> t = s \<Longrightarrow> acts T s t \<Longrightarrow> rank t < rank s"
    and helps_stays: "good s \<Longrightarrow> helps T s \<Longrightarrow> step s t \<Longrightarrow> rank t = rank s \<Longrightarrow> helps T t"
begin

lemma good_reachable: "step\<^sup>*\<^sup>* s t \<Longrightarrow> good s \<Longrightarrow> good t"
  by (induction rule: rtranclp_induct) (auto intro: good_step)

theorem run_ends:
  assumes run: "is_run step f" and "good (f 0)" and fair: "\<forall>T \<in> threads. fair (ready T) (acts T) f"
  shows "\<exists>n. stop (f n)"
proof (rule ccontr)
  assume never: "\<nexists>n. stop (f n)"
  have good: "good (f n)" for n
    using good_reachable [OF run_steps [OF run, of 0 n]] assms(2) by simp
  have "rank (f (Suc n)) \<le> rank (f n)" for n
    using run rank_step [OF _ good] unfolding is_run_def by (metis order_refl)
  then obtain N where N: "\<forall>n\<ge>N. rank (f n) = rank (f N)"
    using eventually_least [of "\<lambda>n. rank (f n)"] by blast
  obtain T where T: "T \<in> threads" "helps T (f N)"
    using some_helps [OF good] never by blast
  have helps: "helps T (f n)" if "N \<le> n" for n
    using that
  proof (induction n rule: dec_induct)
    case base
    then show ?case by (simp add: T)
  next
    case (step n)
    have "rank (f (Suc n)) = rank (f n)"
      using spec [OF N, of "Suc n"] spec [OF N, of n] step(1) by simp
    then show ?case
      using run helps_stays [OF good step(3)] step(3) unfolding is_run_def by metis
  qed
  then obtain m where m: "N \<le> m" "acts T (f m) (f (Suc m))"
    using fair T(1) helps_ready [OF good] unfolding fair_def by blast
  have "step (f m) (f (Suc m)) \<or> f (Suc m) = f m"
    using run unfolding is_run_def by blast
  then show False
    using m(1) helps_acts [OF good helps [OF m(1)] _ m(2)] spec [OF N, of m] spec [OF N, of "Suc m"] by simp
qed

end

end
