(* ===== verification/SystemFair.thy ===== *)
theory SystemFair
  imports SystemWake FairRuns
begin

text \<open>
  The threads of the two programs in the whole system: which steps are theirs, and when they can go on.
  A thread that waits in a call is not ready: \<open>recv\<close> waits for a message in the netlink socket,
  \<open>accept\<close> for a connection, \<open>read\<close> of the daemon for bytes of the hunter or for the \<open>shutdown\<close> of the
  connection, \<open>recv\<close> of the hunter for bytes of the daemon or for the end of the connection, \<open>join\<close>
  for the end of a thread. Also here: what the module's subscription table holds while the programs
  go through their phases, and the terminate message it answers an unsubscription with.
\<close>

section \<open>The actions of the threads\<close>

definition d_main_action :: "u32 \<Rightarrow> daemon_io \<Rightarrow> knl_env \<Rightarrow> system \<Rightarrow> system \<Rightarrow> bool" where
  "d_main_action dp io env S T \<longleftrightarrow>
     \<not> ended (dmain (dproc S)) \<and> io_valid io (dproc S) \<and> io_pid io = dp \<and>
     (\<exists>k'. commands_done env
         (drop (length (dcommands (dproc S))) (dcommands (main_step io (dproc S)))) (kern S) k' \<and>
       T = S\<lparr>kern := k', dproc := main_step io (dproc S)\<rparr>)"

definition d_client_action :: "daemon_io \<Rightarrow> system \<Rightarrow> system \<Rightarrow> bool" where
  "d_client_action io S T \<longleftrightarrow>
     \<not> ended (dmain (dproc S)) \<and> io_valid io (dproc S) \<and>
     (\<exists>u d c. client_streams io S u d c \<and>
       T = S\<lparr>dproc := client_thread io (dproc S), up := u, down := d, accepted := c\<rparr>)"

definition d_recv_action :: "u32 \<Rightarrow> system \<Rightarrow> system \<Rightarrow> bool" where
  "d_recv_action dp S T \<longleftrightarrow>
     \<not> ended (dmain (dproc S)) \<and>
     (\<exists>g r n. net_recv (delivered dp (kern S)) (d_taken S) (drx (dproc S)) r n \<and>
       T = S\<lparr>dproc := rx_thread g r (dproc S), d_taken := n\<rparr>)"

definition h_main_action :: "u32 \<Rightarrow> hunter_io \<Rightarrow> knl_env \<Rightarrow> system \<Rightarrow> system \<Rightarrow> bool" where
  "h_main_action hp io env S T \<longleftrightarrow>
     \<not> hunter_ended (hmain (hproc S)) \<and> valid_iter (hio_ord io) (hmap (hproc S)) \<and> hio_pid io = hp \<and>
     (\<exists>k' u d. commands_done env
         (drop (length (hcommands (hproc S))) (hcommands (hunter_main io (hproc S)))) (kern S) k' \<and>
       hunter_streams io S u d \<and>
       T = S\<lparr>kern := k', hproc := hunter_main io (hproc S), up := u, down := d\<rparr>)"

definition h_recv_action :: "u32 \<Rightarrow> system \<Rightarrow> system \<Rightarrow> bool" where
  "h_recv_action hp S T \<longleftrightarrow>
     \<not> hunter_ended (hmain (hproc S)) \<and>
     (\<exists>g r n. net_recv (delivered hp (kern S)) (h_taken S) (hrx (hproc S)) r n \<and>
       T = S\<lparr>hproc := hunter_rx g r (hproc S), h_taken := n\<rparr>)"

lemmas actions_def =
  d_main_action_def d_client_action_def d_recv_action_def h_main_action_def h_recv_action_def

datatype thread = DaemonMain | DaemonRecv | DaemonServe | HunterMain | HunterRecv

fun acts :: "u32 \<Rightarrow> u32 \<Rightarrow> thread \<Rightarrow> system \<Rightarrow> system \<Rightarrow> bool" where
  "acts dp hp DaemonMain S T = (\<exists>io env. d_main_action dp io env S T)"
| "acts dp hp DaemonRecv S T = d_recv_action dp S T"
| "acts dp hp DaemonServe S T = (\<exists>io. d_client_action io S T)"
| "acts dp hp HunterMain S T = (\<exists>io env. h_main_action hp io env S T)"
| "acts dp hp HunterRecv S T = h_recv_action hp S T"

lemma acts_step: "acts dp hp t S T \<Longrightarrow> sys_step dp hp S T"
  by (cases t) (auto simp: actions_def intro: sys_step.intros)

section \<open>When they can go on\<close>

text \<open>The daemon has ended, or its client thread has left the connection: the hunter's \<open>recv\<close> returns.\<close>

definition hung_up :: "system \<Rightarrow> bool" where
  "hung_up S \<longleftrightarrow> ended (dmain (dproc S)) \<or> accepted S \<and> \<not> in_session (dclient (dproc S))"

fun rx_ready :: "mem list \<Rightarrow> nat \<Rightarrow> rx_pc \<Rightarrow> bool" where
  "rx_ready ms n RxRecv = (n < length ms)"
| "rx_ready ms n RxTop = True"
| "rx_ready ms n (RxHave a) = True"
| "rx_ready ms n pc = False"

fun client_ready :: "system \<Rightarrow> client_pc \<Rightarrow> bool" where
  "client_ready S CAccept = (dwake (dproc S) \<or> \<not> accepted S \<and> isConnected (hclient (hproc S)))"
| "client_ready S (CRead port) = (up S \<noteq> [] \<or> dshut (dproc S))"
| "client_ready S CEnd = False"
| "client_ready S pc = True"

fun ready :: "u32 \<Rightarrow> u32 \<Rightarrow> thread \<Rightarrow> system \<Rightarrow> bool" where
  "ready dp hp DaemonMain S = (\<not> ended (dmain (dproc S)) \<and>
     (dmain (dproc S) = MJoinRx \<longrightarrow> drx (dproc S) = RxEnd) \<and>
     (dmain (dproc S) = MJoinClient \<longrightarrow> dclient (dproc S) = CEnd))"
| "ready dp hp DaemonRecv S = (\<not> ended (dmain (dproc S)) \<and>
     rx_ready (delivered dp (kern S)) (d_taken S) (drx (dproc S)))"
| "ready dp hp DaemonServe S = (\<not> ended (dmain (dproc S)) \<and> client_ready S (dclient (dproc S)))"
| "ready dp hp HunterMain S = (\<not> hunter_ended (hmain (hproc S)) \<and>
     (hmain (hproc S) = HJoin \<longrightarrow> hrx (hproc S) = RxEnd) \<and>
     (\<forall>a. hmain (hproc S) = HReceive a \<longrightarrow> down S \<noteq> [] \<or> hung_up S))"
| "ready dp hp HunterRecv S = (\<not> hunter_ended (hmain (hproc S)) \<and>
     rx_ready (delivered hp (kern S)) (h_taken S) (hrx (hproc S)))"

section \<open>One step of the system is at most one step of each program\<close>

lemma sys_step_daemon: "sys_step dp hp S T \<Longrightarrow> dproc T = dproc S \<or> daemon_step (dproc S) (dproc T)"
  by (induction rule: sys_step.induct) (auto intro: daemon_step.intros)

lemma sys_step_hunter: "sys_step dp hp S T \<Longrightarrow> hproc T = hproc S \<or> hunter_step (hproc S) (hproc T)"
  by (induction rule: sys_step.induct) (auto intro: hunter_step.intros)

section \<open>The subscription table\<close>

lemma exit_subs: "subs_of (sniffer_exit k) = subs_of k"
  by (rule subs_of_eqI) (simp_all add: sniffer_exit_def Let_def pr_def)

lemma sub_spec_other:
  "parse_command msg \<in> {Subscribe c, Unsubscribe c} \<Longrightarrow> c' \<noteq> c \<Longrightarrow> sub_spec (parse_command msg) pid t c' = t c'"
  by auto

lemma commands_parse:
  "parse_command ''daemon_subscribe'' = Subscribe DaemonClient"
  "parse_command ''daemon_unsubscribe'' = Unsubscribe DaemonClient"
  "parse_command ''packet_hunter_subscribe'' = Subscribe HunterClient"
  "parse_command ''packet_hunter_unsubscribe'' = Unsubscribe HunterClient"
  by (simp_all add: parse_command_def)

lemma command_subs:
  assumes "kernel_inv k"
  shows "commands_done env [message_bytes pid ''daemon_subscribe''] k k' \<Longrightarrow>
      subs_of k' = sub_spec (Subscribe DaemonClient) pid (subs_of k)"
    and "commands_done env [message_bytes pid ''daemon_unsubscribe''] k k' \<Longrightarrow>
      subs_of k' = sub_spec (Unsubscribe DaemonClient) pid (subs_of k)"
    and "commands_done env [message_bytes pid ''packet_hunter_subscribe''] k k' \<Longrightarrow>
      subs_of k' = sub_spec (Subscribe HunterClient) pid (subs_of k)"
    and "commands_done env [message_bytes pid ''packet_hunter_unsubscribe''] k k' \<Longrightarrow>
      subs_of k' = sub_spec (Unsubscribe HunterClient) pid (subs_of k)"
  using commands_one [OF _ _ assms, of env pid _ k'] by (simp_all add: program_commands_def commands_parse)

text \<open>A step changes the daemon's entry only when the daemon's main thread has sent its command.\<close>

lemma step_daemon_sub:
  assumes "sys_step dp hp S T" and "kernel_inv (kern S)"
  shows "subs_of (kern T) DaemonClient =
    (if dmain (dproc S) = MSubscribe \<and> dmain (dproc T) = MSetRunning
     then (case subs_of (kern S) DaemonClient of None \<Rightarrow> Some dp | Some p \<Rightarrow> Some p)
     else if dmain (dproc S) = MUnsubscribe \<and> dmain (dproc T) = MJoinRx then None
     else subs_of (kern S) DaemonClient)"
  using assms(1)
proof (cases rule: sys_step.cases)
  case (arrive e1 e2 skb v k')
  then have "subs_of k' = subs_of (kern S)"
    using hook_accepts [of e1 e2 "Some skb" "kern S"] subs_of_cong by auto
  then show ?thesis using arrive(1) by (auto simp del: subs_of.simps)
next
  case unload_module
  then show ?thesis using exit_subs by (auto simp del: subs_of.simps)
next
  case (d_main io env k')
  note c = d_main(5) [unfolded main_commands [OF d_main(4)]]
  show ?thesis
    using d_main(1) c command_subs [OF assms(2), of env dp k']
    by (auto simp del: subs_of.simps split: if_splits option.split)
next
  case (d_client io u d c)
  then show ?thesis using client_frame [of io "dproc S"] by (auto simp del: subs_of.simps)
next
  case (h_main io env k' u d)
  note c = h_main(5) [unfolded hunter_commands [OF h_main(4)]]
  show ?thesis
    using h_main(1) c command_subs [OF assms(2), of env hp k']
    by (auto simp del: subs_of.simps split: if_splits option.split)
qed (use rx_frame in \<open>auto simp: on_signal_def simp del: subs_of.simps\<close>)

lemma step_hunter_sub:
  assumes "sys_step dp hp S T" and "kernel_inv (kern S)"
  shows "subs_of (kern T) HunterClient =
    (if hmain (hproc S) = HSubscribe \<and> hmain (hproc T) = HSpawn
     then (case subs_of (kern S) HunterClient of None \<Rightarrow> Some hp | Some p \<Rightarrow> Some p)
     else if hmain (hproc S) = HUnsubscribe \<and> hmain (hproc T) = HJoin then None
     else subs_of (kern S) HunterClient)"
  using assms(1)
proof (cases rule: sys_step.cases)
  case (arrive e1 e2 skb v k')
  then have "subs_of k' = subs_of (kern S)"
    using hook_accepts [of e1 e2 "Some skb" "kern S"] subs_of_cong by auto
  then show ?thesis using arrive(1) by (auto simp del: subs_of.simps)
next
  case unload_module
  then show ?thesis using exit_subs by (auto simp del: subs_of.simps)
next
  case (h_main io env k' u d)
  note c = h_main(5) [unfolded hunter_commands [OF h_main(4)]]
  show ?thesis
    using h_main(1) c command_subs [OF assms(2), of env hp k']
    by (auto simp del: subs_of.simps split: if_splits option.split)
next
  case (d_main io env k')
  note c = d_main(5) [unfolded main_commands [OF d_main(4)]]
  show ?thesis
    using d_main(1) c command_subs [OF assms(2), of env dp k']
    by (auto simp del: subs_of.simps split: if_splits option.split)
qed (auto simp: hunter_signal_def hunter_rx_def simp del: subs_of.simps split: prod.split)

section \<open>The terminate message\<close>

definition stop_sent :: "u32 \<Rightarrow> kernel \<Rightarrow> bool" where
  "stop_sent pid k \<longleftrightarrow> (\<exists>m \<in> set (delivered pid k). stop_message m)"

lemma stop_sent_step:
  "sys_step dp hp S T \<Longrightarrow> parts_ok S \<Longrightarrow> stop_sent pid (kern S) \<Longrightarrow> stop_sent pid (kern T)"
  using step_delivered [of dp hp S T pid] by (auto simp: stop_sent_def)

text \<open>An unsubscription that the module answers, with allocations and delivery in order.\<close>

definition answers_env :: "knl_env \<Rightarrow> bool" where
  "answers_env env \<longleftrightarrow> env_ok env \<and> 0 \<le> env_unicast env"

lemma unsubscribed_stop:
  assumes c: "commands_done env [message_bytes pid msg] k k'" and msg: "parse_command msg = Unsubscribe c"
    and mem: "msg \<in> set program_commands"
    and sub: "subs_of k c = Some pid" and env: "answers_env env"
  shows "stop_sent pid k'"
proof -
  have r: "nl_recv_msg env (Some (message_bytes pid msg)) k = Inr k'"
    using c by (auto simp: commands_done_def split: sum.splits)
  obtain m where m: "unicasts k' = unicasts k @ [(slot_pid c k, m, env_unicast env)]"
      "is_stop_pckt (pckt_of_mem (nlmsg_data m))"
    using nl_recv_stop [OF command_text [OF mem] msg, of env pid k] env r by (auto simp: answers_env_def)
  moreover have "slot_pid c k = pid"
    using sub by (cases c) (auto simp: slot_pid_def split: if_splits)
  ultimately have "m \<in> set (delivered pid k')"
    using env by (simp add: delivered_def answers_env_def)
  then show ?thesis
    using m(2) by (auto simp: stop_sent_def stop_message_def)
qed

text \<open>A receiving thread with a terminate message in its socket is not blocked.\<close>

lemma stop_not_blocked:
  assumes "taken_ok ms n pc h" and "\<exists>m \<in> set ms. stop_message m" and "pc \<notin> {RxIdle, RxEnd, RxFault}"
  shows "rx_ready ms n pc"
proof (cases pc)
  case RxRecv
  then have "\<not> (\<exists>m \<in> set (take n ms). stop_message m)"
    using assms(1) by (simp add: taken_ok_def done_or_holds_def)
  then have "take n ms \<noteq> ms"
    using assms(2) by auto
  then show ?thesis
    using RxRecv assms(1) by (auto simp: taken_ok_def)
qed (use assms(3) in simp_all)

end
