(* ===== verification/DaemonEnds.thy ===== *)
theory DaemonEnds
  imports SystemFair DaemonShutdown DaemonDescriptors
begin

text \<open>
  A daemon that is told to stop ends. Its main thread joins the receiving thread, which may be
  blocked in \<open>recv\<close>, and the client thread, which may be blocked in \<open>accept\<close> or in \<open>read\<close>. Before each
  \<open>join\<close> the code does what wakes the thread: it unsubscribes, so that the module sends the terminate
  message, and it calls \<open>shutdown\<close> on the client's connection and makes the dummy connection. The
  invariants say that this is done for every thread that may be blocked, whatever the interleaving,
  and the rank of \<open>DaemonShutdown\<close> that the thread which can go on then brings the end closer.
\<close>

section \<open>What the main thread has done for the client thread\<close>












section \<open>What it has done for both\<close>










section \<open>The run ends\<close>










section \<open>A run with both threads blocked\<close>

text \<open>
  The daemon subscribes and starts its threads, the receiver blocks in \<open>recv\<close> and the client thread
  in \<open>accept\<close>; then a signal arrives.
\<close>

definition quit_io :: daemon_io where
  "quit_io = io0\<lparr>io_socket := 7\<rparr>"

definition qd :: "main_pc \<Rightarrow> rx_pc \<Rightarrow> client_pc \<Rightarrow> bool \<Rightarrow> packet_heap \<Rightarrow> mem list \<Rightarrow> fd \<Rightarrow> fd list \<Rightarrow> bool \<Rightarrow> daemon" where
  "qd pc rx c run h cs n fds w = \<lparr>dsh = \<lparr>running = run, heap = h, mqueue = mq_init\<rparr>,
     dports = \<lparr>pmap = (\<lambda>_. None)\<rparr>, dserver = \<lparr>serverFd = 4, clientFd = n, isShuttingDown = w\<rparr>,
     dos = \<lparr>open_fds = fds, bad_closes = 0, sock_file = True\<rparr>,
     dnl = \<lparr>sock_fd = 3, src_addr = None, dest_addr = None\<rparr>, drx = rx, dmain = pc, dclient = c,
     dcommands = cs, danswers = [], dshut = False, dwake = w\<rparr>"

definition qs :: "kernel \<Rightarrow> nat \<Rightarrow> bool \<Rightarrow> daemon \<Rightarrow> system" where
  "qs k n a d = \<lparr>kern = k, dproc = d, hproc = hunter0, d_taken = n, h_taken = 0, up = [], down = [],
     accepted = a, seen = []\<rparr>"








lemma qd_sel [simp]:
  "dmain (qd pc rx c r h cs n f w) = pc" "drx (qd pc rx c r h cs n f w) = rx"
  "dclient (qd pc rx c r h cs n f w) = c" "dcommands (qd pc rx c r h cs n f w) = cs"
  "io_valid quit_io (qd pc rx c r h cs n f w) \<longleftrightarrow> -1 \<notin> set f \<and> 7 \<notin> set f"
  "io_valid io0 (qd pc rx c r h cs n f w) \<longleftrightarrow> -1 \<notin> set f"
  "io_valid (io0\<lparr>io_accept := 5\<rparr>) (qd pc rx c r h cs n f w) \<longleftrightarrow> -1 \<notin> set f \<and> 5 \<notin> set f"
  "isShuttingDown (dserver (qd pc rx c r h cs n f w)) = w" "on_signal (qd pc rx c r h cs n f w) = qd pc rx c False h cs n f w"
  by (auto simp: qd_def io_valid_def quit_io_def io0_def fd_result_def fresh_fd_def on_signal_def handleSignal_def)

lemma qs_sel [simp]: "dproc (qs k n a d) = d" "accepted (qs k n a d) = a" "up (qs k n a d) = []" "down (qs k n a d) = []"
    "kern (qs k n a d) = k" "d_taken (qs k n a d) = n"
  by (simp_all add: qs_def)








end
