(* ===== verification/HunterEnds.thy ===== *)
theory HunterEnds
  imports SystemFair SystemSession HunterShutdown
begin

text \<open>
  A packet hunter that is told to stop ends. Its main thread may be blocked in \<open>join\<close>, while the
  receiving thread is blocked in \<open>recv\<close>, and before that in \<open>receivePid\<close>, while the daemon has not
  answered. For the first the code unsubscribes, so that the module sends the terminate message. The
  second depends on the daemon: its client thread accepts the connection, reads the port and answers,
  or leaves the connection, or the daemon ends.
\<close>

section \<open>What the module has been told\<close>

fun h_registered :: "hunter_pc \<Rightarrow> bool" where
  "h_registered HSubscribe = False" | "h_registered HJoin = False" | "h_registered HClean = False"
| "h_registered HAsk = False" | "h_registered HSave = False" | "h_registered HFreeAll = False"
| "h_registered pc = (\<not> hunter_ended pc)"

definition h_woken :: "u32 \<Rightarrow> system \<Rightarrow> bool" where
  "h_woken hp S \<longleftrightarrow>
     (hmain (hproc S) = HSubscribe \<longrightarrow> subs_of (kern S) HunterClient = None) \<and>
     (h_registered (hmain (hproc S)) \<longrightarrow> subs_of (kern S) HunterClient = Some hp) \<and>
     (hmain (hproc S) = HJoin \<longrightarrow> stop_sent hp (kern S))"

text \<open>
  The calls that the end depends on. If the unsubscription is sent, the module can allocate and
  deliver its answer. While the hunter waits for an answer, the daemon's \<open>accept\<close> gets its connection
  and the daemon's \<open>write\<close> writes something (or finds the hunter gone).
\<close>

definition h_calls_ok :: "u32 \<Rightarrow> system \<Rightarrow> system \<Rightarrow> bool" where
  "h_calls_ok hp S T \<longleftrightarrow>
     (hmain (hproc S) = HUnsubscribe \<and> hmain (hproc T) = HJoin \<longrightarrow>
       (\<exists>io env. h_main_action hp io env S T \<and> answers_env env)) \<and>
     ((\<exists>a. hmain (hproc S) = HReceive a) \<and> dclient (dproc T) \<noteq> dclient (dproc S) \<longrightarrow>
       (\<exists>io. d_client_action io S T \<and>
         (dclient (dproc S) = CAccept \<and> \<not> accepted S \<longrightarrow> 0 \<le> io_accept io) \<and>
         ((\<exists>port pid. dclient (dproc S) = CSend port pid) \<longrightarrow> io_write io \<notin> {WriteError, Wrote 0})))"

definition h_orderly :: "u32 \<Rightarrow> u32 \<Rightarrow> system \<Rightarrow> system \<Rightarrow> bool" where
  "h_orderly dp hp S T \<longleftrightarrow> sys_step dp hp S T \<and> h_calls_ok hp S T"

lemma hunter_moves:
  "hmain (hunter_main io h) = HSubscribe \<longrightarrow> hmain h = HSubscribe"
  "h_registered (hmain (hunter_main io h)) \<longrightarrow> h_registered (hmain h) \<or>
     hmain h = HSubscribe \<and> hmain (hunter_main io h) = HSpawn"
  "hmain (hunter_main io h) = HJoin \<longrightarrow> hmain h \<in> {HUnsubscribe, HJoin}"
  "hclient (hunter_main io h) = hclient h"
  by (cases "hmain h"; simp add: hunter_main_def split_beta Let_def
      split: option.split sum.split signal_death.split bool.split)+

lemma sys_step_hmain:
  assumes "sys_step dp hp S T"
  shows "(\<exists>io. hproc T = hunter_main io (hproc S)) \<or>
    (hmain (hproc T) = hmain (hproc S) \<and> hclient (hproc T) = hclient (hproc S))"
  using assms
  by (cases rule: sys_step.cases) (auto simp: hunter_signal_def hunter_rx_def split: prod.split)

lemma h_unsubscribe_sends:
  assumes act: "h_main_action hp io env S T" and pc: "hmain (hproc S) = HUnsubscribe" "hmain (hproc T) = HJoin"
    and sub: "subs_of (kern S) HunterClient = Some hp" and env: "answers_env env"
  shows "stop_sent hp (kern T)"
proof -
  obtain k' u d where k: "commands_done env (drop (length (hcommands (hproc S)))
        (hcommands (hunter_main io (hproc S)))) (kern S) k'"
      "T = S\<lparr>kern := k', hproc := hunter_main io (hproc S), up := u, down := d\<rparr>" and io: "hio_pid io = hp"
    using act by (auto simp: h_main_action_def)
  have "commands_done env [message_bytes hp ''packet_hunter_unsubscribe''] (kern S) k'"
    using k pc by (simp add: hunter_commands [OF io])
  then show ?thesis
    using unsubscribed_stop [OF _ commands_parse(4) _ sub env] k(2) by (simp add: program_commands_def)
qed

lemma h_woken_step:
  assumes st: "h_orderly dp hp S T" and parts: "parts_ok S" and ok: "h_woken hp S"
  shows "h_woken hp T"
proof -
  have sys: "sys_step dp hp S T" and calls: "h_calls_ok hp S T"
    using st by (simp_all add: h_orderly_def)
  have k: "kernel_inv (kern S)" using parts by (simp add: parts_ok_def)
  note sub = step_hunter_sub [OF sys k]
  consider (move) io where "hproc T = hunter_main io (hproc S)"
    | (rest) "hmain (hproc T) = hmain (hproc S)"
    using sys_step_hmain [OF sys] by blast
  then show ?thesis
  proof cases
    case (move io)
    note m = hunter_moves [where io = io and h = "hproc S", folded move]
    have "stop_sent hp (kern T)" if pc: "hmain (hproc T) = HJoin"
    proof (cases "hmain (hproc S) = HJoin")
      case True
      then show ?thesis using ok stop_sent_step [OF sys parts] by (simp add: h_woken_def)
    next
      case False
      then have u: "hmain (hproc S) = HUnsubscribe" using m(3) pc by simp
      then show ?thesis
        using calls pc ok h_unsubscribe_sends [of hp _ _ S T] by (auto simp: h_calls_ok_def h_woken_def)
    qed
    then show ?thesis
      using ok m(1,2) sub by (auto simp: h_woken_def simp del: subs_of.simps)
  next
    case rest
    then show ?thesis
      using ok sub stop_sent_step [OF sys parts] by (auto simp: h_woken_def simp del: subs_of.simps)
  qed
qed

section \<open>An open question\<close>

text \<open>
  While the hunter waits and nothing has come back, the daemon has left the connection, or the
  question is on its way, or the daemon is about to answer.
\<close>

definition open_ok :: "system \<Rightarrow> bool" where
  "open_ok S \<longleftrightarrow> (\<forall>a. hmain (hproc S) = HReceive a \<longrightarrow> isConnected (hclient (hproc S)) \<and>
     (down S = [] \<longrightarrow> hung_up S \<or> up S \<noteq> [] \<or> serving (dclient (dproc S))))"

lemma hung_up_step:
  assumes "sys_step dp hp S T" and "hung_up S"
  shows "hung_up T"
  using assms(1)
proof (cases rule: sys_step.cases)
  case (d_main io env k')
  have "dclient (main_step io (dproc S)) = dclient (dproc S)"
    by (cases "dmain (dproc S)")
      (auto simp: main_step_def split_beta Let_def split: option.split sum.split)
  then show ?thesis using d_main assms(2) by (auto simp: hung_up_def)
next
  case (d_client io u d c)
  then show ?thesis using assms(2) client_gone [OF d_client(4)] by (auto simp: hung_up_def)
qed (use assms(2) rx_frame in \<open>auto simp: hung_up_def on_signal_def\<close>)

text \<open>What the client thread's action does to it.\<close>

lemma client_open:
  assumes str: "client_streams io S u d c" and q: "up S \<noteq> [] \<or> serving (dclient (dproc S))"
    and acc: "in_session (dclient (dproc S)) \<longrightarrow> accepted S"
    and w: "(\<exists>port pid. dclient (dproc S) = CSend port pid) \<longrightarrow> io_write io \<notin> {WriteError, Wrote 0}"
    and T: "T = S\<lparr>dproc := client_thread io (dproc S), up := u, down := d, accepted := c\<rparr>"
  shows "down T \<noteq> [] \<or> hung_up T \<or> up T \<noteq> [] \<or> serving (dclient (dproc T))"
proof (cases "dclient (dproc S)")
  case (CRead port)
  obtain ok port' where "receivePort port (io_read io) = (ok, port')" by fastforce
  then show ?thesis
    using CRead T str acc by (auto simp: client_thread_def client_streams_def hung_up_def)
next
  case (CSend port pid)
  then show ?thesis
    using T str w
    by (cases "io_write io") (auto simp: client_thread_def client_streams_def sendPid_def hung_up_def word_bytes_some)
qed (use str q T in \<open>auto simp: client_streams_def client_thread_def\<close>)

lemma open_step:
  assumes st: "h_orderly dp hp S T" and inv: "sys_inv S" and ok: "open_ok S"
  shows "open_ok T"
proof -
  have sys: "sys_step dp hp S T" and calls: "h_calls_ok hp S T"
    using st by (simp_all add: h_orderly_def)
  have acc: "in_session (dclient (dproc S)) \<longrightarrow> accepted S"
    using inv by (simp add: sys_inv_def dialogue_def)
  show ?thesis
    using sys
  proof (cases rule: sys_step.cases)
    case (h_main io env k' u d)
    show ?thesis
    proof (cases "\<exists>a. hmain (hproc S) = HSendPort a")
      case True
      then show ?thesis
        using h_main sendPort_ok
        by (auto simp: open_ok_def hunter_main_def hunter_streams_def word_bytes_some
            split: option.splits sum.splits signal_death.splits bool.splits)
    next
      case False
      then have "\<exists>a. hmain (hproc S) = HReceive a" if "hmain (hproc T) = HReceive b" for b
        using hunter_quiet_moves [of "hproc S" io b] h_main(1) that by auto
      then have "hmain (hproc T) \<noteq> HReceive b" for b
        using receive_moves [of "hproc S" _ io] h_main(1) by fastforce
      then show ?thesis by (simp add: open_ok_def)
    qed
  next
    case (d_client io u d c)
    show ?thesis
      unfolding open_ok_def
    proof (intro allI impI conjI)
      fix a
      assume a: "hmain (hproc T) = HReceive a"
      then have a': "hmain (hproc S) = HReceive a" using d_client(1) by simp
      then show "isConnected (hclient (hproc T))" using ok d_client(1) by (simp add: open_ok_def)
      assume dn: "down T = []"
      show "hung_up T \<or> up T \<noteq> [] \<or> serving (dclient (dproc T))"
      proof (cases "hung_up S")
        case True
        then show ?thesis using hung_up_step [OF sys] by blast
      next
        case False
        have "down S = []" using dn d_client(1,4) by (auto simp: client_streams_def split: client_pc.splits)
        then have q: "up S \<noteq> [] \<or> serving (dclient (dproc S))"
          using ok a' False by (simp add: open_ok_def)
        show ?thesis
        proof (cases "dclient (dproc T) = dclient (dproc S)")
          case True
          then show ?thesis
            using d_client(1,4) q dn
            by (auto simp: client_streams_def client_thread_def hung_up_def split: client_pc.splits prod.splits sum.splits signal_death.splits if_splits)
        next
          case False
          then obtain io' where io': "d_client_action io' S T"
              "(\<exists>port pid. dclient (dproc S) = CSend port pid) \<longrightarrow> io_write io' \<notin> {WriteError, Wrote 0}"
            using calls a' unfolding h_calls_ok_def by blast
          then show ?thesis
            using client_open [OF _ q acc io'(2)] dn by (auto simp: d_client_action_def)
        qed
      qed
    qed
  next
    case (d_main io env k')
    have "dclient (main_step io (dproc S)) = dclient (dproc S)"
      by (cases "dmain (dproc S)")
        (auto simp: main_step_def split_beta Let_def split: option.split sum.split)
    then show ?thesis
      using ok d_main hung_up_step [OF sys] by (auto simp: open_ok_def)
  qed (use ok hung_up_step [OF sys] rx_frame in
      \<open>auto simp: open_ok_def on_signal_def hunter_signal_def hunter_rx_def split: prod.split\<close>)
qed

section \<open>The daemon's way to an answer\<close>

text \<open>
  The daemon runs, and its client thread with it, or it has ended. As long as a question is open,
  \<open>to_answer\<close> is the number of actions of the client thread until it has answered or hung up.
\<close>

definition daemon_up :: "system \<Rightarrow> bool" where
  "daemon_up S \<longleftrightarrow> ended (dmain (dproc S)) \<or> running (dsh (dproc S)) \<and> dclient (dproc S) \<noteq> CEnd"

fun client_dist :: "client_pc \<Rightarrow> nat" where
  "client_dist CCloseTest = 10" | "client_dist (CCloseCall _) = 9" | "client_dist CCloseSet = 8"
| "client_dist CTop = 7" | "client_dist CAccept = 6" | "client_dist CHandle = 5"
| "client_dist (CLoop _) = 4" | "client_dist (CRead _) = 3" | "client_dist (CLookup _) = 2"
| "client_dist (CSend _ _) = 1" | "client_dist CEnd = 11"

lemma client_dist_pos: "0 < client_dist pc \<and> client_dist pc < 16"
  by (cases pc) simp_all

definition to_answer :: "system \<Rightarrow> nat" where
  "to_answer S = (if (\<exists>a. hmain (hproc S) = HReceive a) \<and> down S = [] \<and> \<not> hung_up S
     then client_dist (dclient (dproc S)) else 0)"

definition end_rank :: "system \<Rightarrow> nat" where
  "end_rank S = 16 * hunter_rank (hproc S) + to_answer S"

lemma to_answer_less: "to_answer S < 16"
  using client_dist_pos by (simp add: to_answer_def)

lemma to_answer_pos:
  "0 < to_answer S \<longleftrightarrow> (\<exists>a. hmain (hproc S) = HReceive a) \<and> down S = [] \<and> \<not> hung_up S"
  using client_dist_pos by (simp add: to_answer_def)

lemma client_answers_soon:
  assumes act: "d_client_action io S T" and calls: "h_calls_ok hp S T" and up: "daemon_up S"
    and acc: "in_session (dclient (dproc S)) \<longrightarrow> accepted S" and pos: "0 < to_answer S"
  shows "to_answer T < to_answer S"
proof -
  have S: "\<exists>a. hmain (hproc S) = HReceive a" "down S = []" "\<not> hung_up S" "\<not> ended (dmain (dproc S))"
      "running (dsh (dproc S))" "dclient (dproc S) \<noteq> CEnd"
      "accepted S \<longrightarrow> in_session (dclient (dproc S))"
    using pos up by (auto simp: to_answer_pos daemon_up_def hung_up_def)
  have less: "to_answer T < to_answer S"
    if "down T \<noteq> [] \<or> hung_up T \<or> client_dist (dclient (dproc T)) < client_dist (dclient (dproc S))"
    using that S(1-3) client_dist_pos by (auto simp: to_answer_def)
  obtain io' u d c where io': "client_streams io' S u d c"
      "T = S\<lparr>dproc := client_thread io' (dproc S), up := u, down := d, accepted := c\<rparr>"
      "dclient (dproc S) = CAccept \<and> \<not> accepted S \<longrightarrow> 0 \<le> io_accept io' \<or> dclient (dproc T) = CAccept"
      "(\<exists>port pid. dclient (dproc S) = CSend port pid) \<longrightarrow>
        io_write io' \<notin> {WriteError, Wrote 0} \<or> (\<exists>port pid. dclient (dproc T) = CSend port pid)"
  proof (cases "dclient (dproc T) = dclient (dproc S)")
    case True
    then show ?thesis using act that by (auto simp: d_client_action_def)
  next
    case False
    then obtain io2 where "d_client_action io2 S T"
        "dclient (dproc S) = CAccept \<and> \<not> accepted S \<longrightarrow> 0 \<le> io_accept io2"
        "(\<exists>port pid. dclient (dproc S) = CSend port pid) \<longrightarrow> io_write io2 \<notin> {WriteError, Wrote 0}"
      using calls S(1) unfolding h_calls_ok_def by blast
    then show ?thesis using that by (auto simp: d_client_action_def)
  qed
  show ?thesis
  proof (rule less, cases "dclient (dproc S)")
    case (CSend port pid)
    then show "down T \<noteq> [] \<or> hung_up T \<or> client_dist (dclient (dproc T)) < client_dist (dclient (dproc S))"
      using io' S(2)
      by (cases "io_write io'")
        (auto simp: client_thread_def client_streams_def sendPid_def hung_up_def word_bytes_some)
  qed (use io' S acc in \<open>auto simp: client_thread_def client_streams_def connectToClient_def hung_up_def Let_def split: prod.splits if_splits\<close>)
qed

section \<open>The run ends\<close>

definition h_going :: "u32 \<Rightarrow> u32 \<Rightarrow> system \<Rightarrow> bool" where
  "h_going dp hp S \<longleftrightarrow> sys_inv S \<and> awake_inv dp hp S \<and> spawned (hproc S) \<and> h_woken hp S \<and> open_ok S"

lemma h_going_started: "sys_started S \<Longrightarrow> h_going dp hp S"
proof -
  assume s: "sys_started S"
  then have "hmain (hproc S) = HSubscribe" "hunter_started (hproc S)" "kernel_loaded (kern S)"
    by (auto simp: sys_started_def hunter_started_def hunter_init_def)
  moreover from this have "subs_of (kern S) HunterClient = None"
    by (auto simp: kernel_loaded_def sniffer_init_def kernel_static_def pr_def)
  ultimately show ?thesis
    using sysi.inv_init [OF s] wakes.inv_init [OF s] htr_rx.inv_init
    by (simp add: h_going_def h_woken_def open_ok_def)
qed

lemma h_going_step: "h_orderly dp hp S T \<Longrightarrow> h_going dp hp S \<Longrightarrow> h_going dp hp T"
proof -
  assume st: "h_orderly dp hp S T" and ok: "h_going dp hp S"
  then have sys: "sys_step dp hp S T" by (simp add: h_orderly_def)
  have "spawned (hproc T)"
    using sys_step_hunter [OF sys] htr_rx.inv_step ok by (auto simp: h_going_def)
  then show ?thesis
    using ok h_woken_step [OF st] open_step [OF st] sysi.inv_step [OF sys] wakes.inv_step [OF sys]
    by (simp add: h_going_def awake_inv_def)
qed

definition h_steady :: "u32 \<Rightarrow> u32 \<Rightarrow> system \<Rightarrow> system \<Rightarrow> bool" where
  "h_steady dp hp S T \<longleftrightarrow> h_orderly dp hp S T \<and> daemon_up T"

definition h_good :: "u32 \<Rightarrow> u32 \<Rightarrow> system \<Rightarrow> bool" where
  "h_good dp hp S \<longleftrightarrow> h_going dp hp S \<and> daemon_up S \<and> \<not> running (hsh (hproc S))"

lemma good_stopping: "h_good dp hp S \<Longrightarrow> hunter_stopping (hproc S)"
  by (simp add: h_good_def h_going_def sys_inv_def parts_ok_def hunter_stopping_def)

lemma h_good_step: "h_steady dp hp S T \<Longrightarrow> h_good dp hp S \<Longrightarrow> h_good dp hp T"
  using sys_step_hunter [of dp hp S T] hunter_stays_stopped [of "hproc S" "hproc T"] h_going_step
  by (auto simp: h_steady_def h_good_def h_orderly_def)

text \<open>No step makes the way longer.\<close>

lemma to_answer_keeps:
  assumes st: "h_steady dp hp S T" and good: "h_good dp hp S" and same: "hproc T = hproc S"
  shows "to_answer T \<le> to_answer S"
proof (cases "0 < to_answer S")
  case True
  have sys: "sys_step dp hp S T" and calls: "h_calls_ok hp S T"
    using st by (simp_all add: h_steady_def h_orderly_def)
  show ?thesis
    using sys
  proof (cases rule: sys_step.cases)
    case (d_client io u d c)
    then have "d_client_action io S T" by (auto simp: d_client_action_def)
    then have "to_answer T < to_answer S"
      using client_answers_soon [OF _ calls _ _ True] good
      by (simp add: h_good_def h_going_def sys_inv_def dialogue_def)
    then show ?thesis by simp
  next
    case (h_main io env k' u d)
    then show ?thesis
      using True same receive_moves [of "hproc S" _ io] by (auto simp: to_answer_pos)
  next
    case (d_main io env k')
    have "dclient (main_step io (dproc S)) = dclient (dproc S)"
      by (cases "dmain (dproc S)")
        (auto simp: main_step_def split_beta Let_def split: option.split sum.split)
    then show ?thesis using d_main True hung_up_step [OF sys] by (auto simp: to_answer_def)
  qed (use True same rx_frame in \<open>auto simp: to_answer_def hung_up_def on_signal_def\<close>)
next
  case False
  have sys: "sys_step dp hp S T"
    using st by (simp add: h_steady_def h_orderly_def)
  have "down T = [] \<Longrightarrow> (\<exists>a. hmain (hproc S) = HReceive a) \<Longrightarrow> down S = []"
    using sys
  proof (cases rule: sys_step.cases)
    case (h_main io env k' u d)
    then show "(\<exists>a. hmain (hproc S) = HReceive a) \<Longrightarrow> down S = []"
      using same receive_moves [of "hproc S" _ io] by auto
  next
    case (d_client io u d c)
    then show "down T = [] \<Longrightarrow> down S = []"
      by (auto simp: client_streams_def split: client_pc.splits)
  qed simp_all
  then have "\<not> 0 < to_answer T"
    using False hung_up_step [OF sys] same by (auto simp: to_answer_pos)
  then show ?thesis by simp
qed

lemma end_rank_step:
  assumes st: "h_steady dp hp S T" and good: "h_good dp hp S"
  shows "end_rank T < end_rank S \<or> hproc T = hproc S \<and> to_answer T \<le> to_answer S"
proof (cases "hproc T = hproc S")
  case True
  then show ?thesis using to_answer_keeps [OF st good] by simp
next
  case False
  then have "hunter_step (hproc S) (hproc T)"
    using sys_step_hunter st by (auto simp: h_steady_def h_orderly_def)
  then have "hunter_rank (hproc T) < hunter_rank (hproc S)"
    using hunter_rank_step good_stopping [OF good] False by blast
  then show ?thesis
    using to_answer_less [of T] by (simp add: end_rank_def)
qed

text \<open>The thread that brings the end closer.\<close>

fun h_helps :: "thread \<Rightarrow> system \<Rightarrow> bool" where
  "h_helps HunterMain S = (\<not> hunter_ended (hmain (hproc S)) \<and>
     (hmain (hproc S) = HJoin \<longrightarrow> hrx (hproc S) = RxEnd) \<and> to_answer S = 0)"
| "h_helps HunterRecv S = (hmain (hproc S) = HJoin \<and> hrx (hproc S) \<noteq> RxEnd)"
| "h_helps DaemonServe S = (0 < to_answer S)"
| "h_helps t S = False"

lemma h_helps_ready:
  assumes good: "h_good dp hp S" and hlp: "h_helps t S"
  shows "ready dp hp t S"
proof (cases t)
  case HunterMain
  then show ?thesis using hlp to_answer_pos [of S] by auto
next
  case HunterRecv
  then have pc: "hmain (hproc S) = HJoin" "hrx (hproc S) \<noteq> RxEnd" using hlp by simp_all
  have "hrx (hproc S) \<notin> {RxIdle, RxEnd, RxFault}" "\<exists>m \<in> set (delivered hp (kern S)). stop_message m"
    using good_stopping [OF good] good pc
    by (auto simp: hunter_stopping_def hunter_inv_def hunter_ok_def spawned_def h_good_def h_going_def
        h_woken_def stop_sent_def)
  moreover have "taken_ok (delivered hp (kern S)) (h_taken S) (hrx (hproc S)) (heap (hsh (hproc S)))"
    using good by (simp add: h_good_def h_going_def awake_inv_def awake_def)
  ultimately show ?thesis
    using pc HunterRecv stop_not_blocked [of "delivered hp (kern S)"] by simp
next
  case DaemonServe
  then obtain a where S: "hmain (hproc S) = HReceive a" "down S = []" "\<not> hung_up S"
    using hlp by (auto simp: to_answer_pos)
  then have o: "isConnected (hclient (hproc S))" "up S \<noteq> [] \<or> serving (dclient (dproc S))"
      "\<not> ended (dmain (dproc S))" "accepted S \<longrightarrow> in_session (dclient (dproc S))" "dclient (dproc S) \<noteq> CEnd"
    using good by (auto simp: h_good_def h_going_def open_ok_def hung_up_def daemon_up_def)
  then show ?thesis
    using DaemonServe by (cases "dclient (dproc S)") simp_all
qed (use hlp in simp_all)

lemma h_helps_acts:
  assumes good: "h_good dp hp S" and hlp: "h_helps t S" and act: "acts dp hp t S T"
    and calls: "h_calls_ok hp S T"
  shows "end_rank T < end_rank S"
proof (cases t)
  case HunterMain
  then obtain io where "hproc T = hunter_main io (hproc S)"
    using act by (auto simp: h_main_action_def)
  then have "hunter_rank (hproc T) < hunter_rank (hproc S)"
    using hunter_main_progress [of "hproc S" io] good_stopping [OF good] hlp HunterMain
    by (auto simp: hunter_stopping_def hunter_inv_def)
  then show ?thesis using to_answer_less [of T] by (simp add: end_rank_def)
next
  case HunterRecv
  then obtain g r where "hproc T = hunter_rx g r (hproc S)"
    using act by (auto simp: h_recv_action_def)
  moreover have "hrx (hproc S) \<notin> {RxIdle, RxEnd, RxFault}" "\<not> running (hsh (hproc S))"
    using good_stopping [OF good] hlp HunterRecv
    by (auto simp: hunter_stopping_def hunter_inv_def hunter_ok_def spawned_def)
  ultimately have "hunter_rank (hproc T) < hunter_rank (hproc S)"
    using hunter_rx_progress by simp
  then show ?thesis using to_answer_less [of T] by (simp add: end_rank_def)
next
  case DaemonServe
  then obtain io where io: "d_client_action io S T" using act by auto
  have "to_answer T < to_answer S"
    using client_answers_soon [OF io calls] good hlp DaemonServe
    by (simp add: h_good_def h_going_def sys_inv_def dialogue_def)
  moreover have "hproc T = hproc S" using io by (auto simp: d_client_action_def)
  ultimately show ?thesis by (simp add: end_rank_def)
qed (use hlp in simp_all)

lemma h_calls_pause: "h_calls_ok hp S S"
  by (auto simp: h_calls_ok_def)

interpretation htr_ends: fair_threads "h_steady dp hp" "ready dp hp" "acts dp hp" h_helps
    "{HunterMain, HunterRecv, DaemonServe}" "\<lambda>S. hunter_ended (hmain (hproc S))" "h_good dp hp" end_rank for dp hp
proof
  fix S T t
  show "h_good dp hp T" if "h_steady dp hp S T" "h_good dp hp S"
    using h_good_step that .
  show "end_rank T \<le> end_rank S" if "h_steady dp hp S T" "h_good dp hp S"
    using end_rank_step [OF that] by (auto simp: end_rank_def)
  show "\<exists>t \<in> {HunterMain, HunterRecv, DaemonServe}. h_helps t S" if "\<not> hunter_ended (hmain (hproc S))"
    using that by auto
  show "ready dp hp t S" if "h_good dp hp S" "h_helps t S"
    using h_helps_ready that .
  show "end_rank T < end_rank S"
    if "h_good dp hp S" "h_helps t S" "h_steady dp hp S T \<or> T = S" "acts dp hp t S T"
    using h_helps_acts [OF that(1,2,4)] that(3) h_calls_pause by (auto simp: h_steady_def h_orderly_def)
  show "h_helps t T" if "h_good dp hp S" "h_helps t S" "h_steady dp hp S T" "end_rank T = end_rank S"
    using end_rank_step [OF that(3,1)] that(2,4) by (cases t) (auto simp: end_rank_def)
qed

text \<open>The daemon is up from the start, or has ended from some point on.\<close>

lemma daemon_gone_stays: "sys_step dp hp S T \<Longrightarrow> ended (dmain (dproc S)) \<Longrightarrow> ended (dmain (dproc T))"
  by (cases rule: sys_step.cases) auto

lemma client_never_ends:
  assumes "sys_step dp hp S T" and "running (dsh (dproc S))" and "dclient (dproc S) \<noteq> CEnd"
  shows "dclient (dproc T) \<noteq> CEnd"
  using assms(1)
proof (cases rule: sys_step.cases)
  case (d_main io env k')
  have "dclient (main_step io (dproc S)) = dclient (dproc S)"
    by (cases "dmain (dproc S)")
      (auto simp: main_step_def split_beta Let_def split: option.split sum.split)
  then show ?thesis using d_main assms(3) by simp
next
  case (d_client io u d c)
  then show ?thesis
    using assms(2,3)
    by (cases "dclient (dproc S)")
      (auto simp: client_thread_def Let_def split: prod.split sum.split signal_death.split)
qed (use assms(3) rx_frame in \<open>auto simp: on_signal_def\<close>)

lemma eventually_up:
  assumes "sys_started (\<sigma> 0)" and run: "is_run (h_orderly dp hp) \<sigma>"
    and "(\<forall>n. running (dsh (dproc (\<sigma> n)))) \<or> (\<exists>n. ended (dmain (dproc (\<sigma> n))))"
  shows "\<exists>N. \<forall>n. daemon_up (\<sigma> (N + n))"
  using assms(3)
proof (elim disjE exE)
  assume up: "\<forall>n. running (dsh (dproc (\<sigma> n)))"
  have "dclient (dproc (\<sigma> n)) \<noteq> CEnd" for n
  proof (induction n)
    case 0
    then show ?case using assms(1) started_client by (simp add: sys_started_def)
  next
    case (Suc n)
    then show ?case
      using client_never_ends [of dp hp "\<sigma> n" "\<sigma> (Suc n)"] up run unfolding is_run_def h_orderly_def by metis
  qed
  then show ?thesis using up by (simp add: daemon_up_def)
next
  fix N
  assume e: "ended (dmain (dproc (\<sigma> N)))"
  have "ended (dmain (dproc (\<sigma> (N + n))))" for n
  proof (induction n)
    case (Suc n)
    then show ?case
      using daemon_gone_stays run unfolding is_run_def h_orderly_def by (metis add_Suc_right)
  qed (simp add: e)
  then show ?thesis by (auto simp: daemon_up_def)
qed

lemma flag_stays_down:
  assumes "is_run (h_orderly dp hp) \<sigma>" and "\<not> running (hsh (hproc (\<sigma> i)))"
  shows "\<not> running (hsh (hproc (\<sigma> (i + n))))"
proof (induction n)
  case (Suc n)
  have "\<sigma> (i + Suc n) = \<sigma> (i + n) \<or> sys_step dp hp (\<sigma> (i + n)) (\<sigma> (i + Suc n))"
    using assms(1) unfolding is_run_def h_orderly_def by (metis add_Suc_right)
  then show ?case
    using Suc sys_step_hunter hunter_stays_stopped by metis
qed (simp add: assms(2))

text \<open>
  C11: The packet hunter stops. In the whole system take any run in which the hunter's flag is down at
  some point, by a signal or because the daemon is gone, and that is fair in the weak sense to the
  hunter's two threads and the daemon's client thread: a thread that stays able to go on goes on
  at some time. Nothing is assumed of a thread that is blocked in \<open>recv\<close>, \<open>read\<close>, \<open>accept\<close> or \<open>join\<close>. If the
  daemon keeps running or ends, gets the connection and can write its answer when the
  hunter waits for one, and the module can allocate and deliver its answer to the unsubscription, then
  the hunter ends. The answers of the user at the end are taken to come.
\<close>

theorem hunter_stops:
  assumes "sys_started (\<sigma> 0)" and "is_run (h_orderly dp hp) \<sigma>"
    and "\<forall>t \<in> {HunterMain, HunterRecv, DaemonServe}. fair (ready dp hp t) (acts dp hp t) \<sigma>"
    and "(\<forall>n. running (dsh (dproc (\<sigma> n)))) \<or> (\<exists>n. ended (dmain (dproc (\<sigma> n))))"
    and "\<not> running (hsh (hproc (\<sigma> i)))"
  shows "\<exists>n. hunter_ended (hmain (hproc (\<sigma> n))) \<and> hmain (hproc (\<sigma> n)) \<noteq> HFault"
proof -
  obtain N where N: "\<And>n. daemon_up (\<sigma> (N + n))"
    using eventually_up [OF assms(1,2,4)] by blast
  have going: "h_going dp hp (\<sigma> n)" for n
  proof (induction n)
    case 0
    then show ?case using h_going_started assms(1) by blast
  next
    case (Suc n)
    then show ?case using assms(2) h_going_step unfolding is_run_def by metis
  qed
  let ?\<sigma> = "\<lambda>n. \<sigma> (N + i + n)"
  have up: "daemon_up (?\<sigma> n)" for n
    using N [of "i + n"] by (simp add: add.assoc)
  have "\<exists>n. hunter_ended (hmain (hproc (?\<sigma> n)))"
  proof (rule htr_ends.run_ends)
    show "is_run (h_steady dp hp) ?\<sigma>"
      using run_later [OF assms(2), of "N + i"] up up [of "Suc n" for n]
      by (simp add: is_run_def h_steady_def)
    show "h_good dp hp (?\<sigma> 0)"
      using going up [of 0] flag_stays_down [OF assms(2,5), of N] by (simp add: h_good_def add.commute)
    show "\<forall>t \<in> {HunterMain, HunterRecv, DaemonServe}. fair (ready dp hp t) (acts dp hp t) ?\<sigma>"
      using assms(3) fair_later by blast
  qed
  then obtain n where "hunter_ended (hmain (hproc (\<sigma> n)))" by blast
  moreover have "hmain (hproc (\<sigma> n)) \<noteq> HFault"
    using going [of n] by (simp add: h_going_def sys_inv_def parts_ok_def hunter_inv_def hunter_ok_def)
  ultimately show ?thesis by blast
qed

section \<open>A run with the receiver blocked\<close>

text \<open>
  The daemon's client thread accepts the hunter's connection and blocks in \<open>read\<close>; the hunter
  subscribes, its receiver blocks in \<open>recv\<close>, and a signal arrives.
\<close>

definition hq :: "hunter_pc \<Rightarrow> rx_pc \<Rightarrow> bool \<Rightarrow> packet_heap \<Rightarrow> mem list \<Rightarrow> hunter" where
  "hq pc rx run h cs = hunter0\<lparr>hsh := \<lparr>running = run, heap = h, mqueue = mq_init\<rparr>, hrx := rx,
     hmain := pc, hcommands := cs\<rparr>"

definition hs :: "kernel \<Rightarrow> nat \<Rightarrow> bool \<Rightarrow> daemon \<Rightarrow> hunter \<Rightarrow> system" where
  "hs k n a d h = \<lparr>kern = k, dproc = d, hproc = h, d_taken = 0, h_taken = n, up = [], down = [],
     accepted = a, seen = []\<rparr>"

definition hsub_cmd :: mem where
  "hsub_cmd = message_bytes 2900 ''packet_hunter_subscribe''"

definition hunsub_cmd :: mem where
  "hunsub_cmd = message_bytes 2900 ''packet_hunter_unsubscribe''"

lemma hs_sel [simp]:
  "kern (hs k n a d h) = k" "dproc (hs k n a d h) = d" "hproc (hs k n a d h) = h"
  "accepted (hs k n a d h) = a" "up (hs k n a d h) = []" "down (hs k n a d h) = []" "h_taken (hs k n a d h) = n"
  by (simp_all add: hs_def)

lemma hq_sel [simp]:
  "hmain (hq pc rx r h cs) = pc" "hrx (hq pc rx r h cs) = rx" "hcommands (hq pc rx r h cs) = cs"
  "running (hsh (hq pc rx r h cs)) = r" "hunter_signal (hq pc rx r h cs) = hq pc rx False h cs"
  "valid_iter (hio_ord hio0) (hmap (hq pc rx r h cs))" "hio_pid hio0 = 2900"
  by (simp_all add: hq_def hunter0_def hunter_init_def hunter_signal_def handleSignal_def hio0_def
      valid_iter_def ptpi_init_def)

lemma h_orderly_other:
  "sys_step dp hp S T \<Longrightarrow> \<forall>a. hmain (hproc S) \<noteq> HReceive a \<Longrightarrow> hmain (hproc S) \<noteq> HUnsubscribe \<Longrightarrow> h_orderly dp hp S T"
  by (simp add: h_orderly_def h_calls_ok_def)

lemma hq_step:
  assumes "hunter_main hio0 (hq pc rx r h cs) = t" and "\<not> hunter_ended pc"
    and "pc \<notin> range HSendPort \<union> range HReceive"
    and "commands_done good_env (drop (length cs) (hcommands t)) k k'"
  shows "h_orderly 812 2900 (hs k n a d (hq pc rx r h cs)) (hs k' n a d t)"
proof -
  let ?S = "hs k n a d (hq pc rx r h cs)"
  have "hunter_streams hio0 ?S [] []"
    using assms(3) by (cases pc) (auto simp: hunter_streams_def)
  then have act: "h_main_action 2900 hio0 good_env ?S (hs k' n a d t)"
    using assms by (auto simp: h_main_action_def hs_def)
  then have "sys_step 812 2900 ?S (hs k' n a d t)"
    using acts_step [of 812 2900 HunterMain] by auto
  moreover have "answers_env good_env"
    using env_ok_good by (simp add: answers_env_def good_env_def)
  ultimately show ?thesis
    using act assms(3) unfolding h_orderly_def h_calls_ok_def by auto
qed

lemma hq_quiet:
  assumes "hunter_main hio0 (hq pc rx r h cs) = hq pc' rx' r h' cs" and "\<not> hunter_ended pc"
    and "pc \<notin> range HSendPort \<union> range HReceive"
  shows "h_orderly 812 2900 (hs k n a d (hq pc rx r h cs)) (hs k n a d (hq pc' rx' r h' cs))"
  using hq_step [OF assms, of k k] by (simp add: env_sized_def good_env_def)

lemma hq_rx:
  assumes "hunter_rx [] r (hq pc rx b h cs) = hq pc rx' b h' cs" and "\<not> hunter_ended pc"
    and "pc \<notin> range HReceive" and "pc \<noteq> HUnsubscribe" and "net_recv (delivered 2900 k) n rx r n'"
  shows "h_orderly 812 2900 (hs k n a d (hq pc rx b h cs)) (hs k n' a d (hq pc rx' b h' cs))"
  using h_recv [of "hs k n a d (hq pc rx b h cs)" 2900 r n' 812 "[]"] assms
  by (intro h_orderly_other) (auto simp: hs_def)

lemma hq_client:
  assumes "client_thread io d = t" and "\<not> ended (dmain d)" and "io_valid io d"
    and "client_streams io (hs k n a d h) [] [] a'"
    and "\<forall>b. hmain h \<noteq> HReceive b" and "hmain h \<noteq> HUnsubscribe"
  shows "h_orderly 812 2900 (hs k n a d h) (hs k n a' t h)"
  using d_client [of "hs k n a d h" io "[]" "[]" a' 812 2900] assms
  by (intro h_orderly_other) (auto simp: hs_def)

lemma hq_main:
  "hunter_main hio0 hunter0 = hq HSpawn RxIdle True heap_init [hsub_cmd]"
  "hunter_main hio0 (hq HSpawn rx r h cs) = hq HTop RxTop r h cs"
  "hunter_main hio0 (hq HTop rx False h cs) = hq HUnsubscribe rx False h cs"
  "hunter_main hio0 (hq HUnsubscribe rx r h [hsub_cmd]) = hq HJoin rx r h [hsub_cmd, hunsub_cmd]"
  "hunter_main hio0 (hq HJoin RxEnd r h cs) = hq HClean RxEnd r h cs"
  "hunter_main hio0 (hq HClean rx r h cs) = hq HAsk rx r h cs"
  "hunter_main hio0 (hq HAsk rx r h cs) = hq HFreeAll rx r h cs"
  "hunter_main hio0 (hq HFreeAll rx r h cs) = hq (HExit 0) rx r h cs"
  by (simp_all add: hq_def hsub_cmd_def hunsub_cmd_def hunter0_def hunter_init_def hio0_def hunter_exec
      mq_init_def cleanMessageQueue_eq getMap_def ptpi_init_def)

definition serve_states :: "system list" where
  "serve_states = [hs kernel1 0 False daemon1 hunter0, hs kernel1 0 False (dae CAccept (-1) []) hunter0,
     hs kernel1 0 True (dae CHandle 5 []) hunter0, hs kernel1 0 True (dae (CLoop 0) 5 []) hunter0,
     hs kernel1 0 True (dae (CRead 0) 5 []) hunter0]"

definition hunt_states :: "kernel \<Rightarrow> system list" where
  "hunt_states k =
     (let h = \<lambda>pc rx r. hs k 0 True (dae (CRead 0) 5 []) (hq pc rx r heap_init [hsub_cmd])
      in [h HSpawn RxIdle True, h HTop RxTop True, h HTop RxRecv True, h HTop RxRecv False,
        h HUnsubscribe RxRecv False])"

definition quit_states :: "kernel \<Rightarrow> packet_heap \<Rightarrow> system list" where
  "quit_states k h' =
     (let h = \<lambda>n pc rx h. hs k n True (dae (CRead 0) 5 []) (hq pc rx False h [hsub_cmd, hunsub_cmd])
      in [h 0 HJoin RxRecv heap_init, h 1 HJoin (RxHave 1) h', h 1 HJoin RxEnd h', h 1 HClean RxEnd h',
        h 1 HAsk RxEnd h', h 1 HFreeAll RxEnd h', h 1 (HExit 0) RxEnd h'])"

lemma serve_orderly: "successively (h_orderly 812 2900) serve_states"
proof -
  have h0: "hmain hunter0 = HSubscribe" by (simp add: hunter0_def hunter_init_def)
  have io: "io_socket io0 = -1" "io_accept io0 = -1" "io_uninit io0 = 0" by (simp_all add: io0_def)
  show ?thesis
    unfolding serve_states_def successively.simps
  proof (intro conjI TrueI)
    show "h_orderly 812 2900 (hs kernel1 0 False daemon1 hunter0) (hs kernel1 0 False (dae CAccept (-1) []) hunter0)"
      unfolding dae_start
      by (rule hq_client [where io = io0]) (simp_all add: h0 io client_thread_def client_streams_def dae_valid)
    show "h_orderly 812 2900 (hs kernel1 0 False (dae CAccept (-1) []) hunter0)
        (hs kernel1 0 True (dae CHandle 5 []) hunter0)"
      by (rule hq_client [where io = "io0\<lparr>io_accept := 5\<rparr>"])
        (simp_all add: h0 io client_thread_def client_streams_def connectToClient_def os_open_def
          dae_def daemon1_def daemon0_def io_valid_def fd_result_def fresh_fd_def)
  qed (rule hq_client [where io = io0];
      simp add: h0 io client_thread_def client_streams_def getClientFd_def dae_valid)+
qed

lemma hunt_orderly: "successively (h_orderly 812 2900) (hunt_states k)"
  unfolding hunt_states_def Let_def successively.simps
proof (intro conjI TrueI)
  let ?h = "\<lambda>pc rx r. hs k 0 True (dae (CRead 0) 5 []) (hq pc rx r heap_init [hsub_cmd])"
  show "h_orderly 812 2900 (?h HSpawn RxIdle True) (?h HTop RxTop True)"
    by (rule hq_step [where k = k and k' = k]) (auto simp: hq_main env_sized_def good_env_def)
  show "h_orderly 812 2900 (?h HTop RxTop True) (?h HTop RxRecv True)"
    by (rule hq_rx [where r = ReadError]) (auto simp: hunter_rx_def hq_def net_recv_def)
  show "h_orderly 812 2900 (?h HTop RxRecv True) (?h HTop RxRecv False)"
    using h_signal [of "?h HTop RxRecv True" 812 2900]
    by (intro h_orderly_other) (simp_all, simp add: hs_def)
  show "h_orderly 812 2900 (?h HTop RxRecv False) (?h HUnsubscribe RxRecv False)"
    by (rule hq_quiet) (auto simp: hq_main)
qed

lemma quit_orderly:
  assumes m: "delivered 2900 k = [m]" "length m = 36" "nlmsg_len (hdr_of_mem m) = 36"
    and p: "is_stop_pckt (pckt_of_mem (nlmsg_data m))"
    and h: "h = snd (heap_new (pckt_of_mem (nlmsg_data m)) heap_init)"
  shows "successively (h_orderly 812 2900) (quit_states k h)"
proof -
  have r: "receivePacketInfo c g (GotBytes m) heap_init = (1, h)" for c g
    using receive_wire [OF m(2,3)] h first_heap(2) by (simp add: prod_eq_iff)
  have cell: "cells h 1 = Some (pckt_of_mem (nlmsg_data m))" using h first_heap(1) by simp
  let ?h = "\<lambda>n pc rx h. hs k n True (dae (CRead 0) 5 []) (hq pc rx False h [hsub_cmd, hunsub_cmd])"
  show ?thesis
    unfolding quit_states_def Let_def successively.simps
  proof (intro conjI TrueI)
    show "h_orderly 812 2900 (?h 0 HJoin RxRecv heap_init) (?h 1 HJoin (RxHave 1) h)"
      by (rule hq_rx [where r = "GotBytes m"])
        (auto simp: hunter_rx_def hq_def net_recv_def m(1) r nullptr_def)
    show "h_orderly 812 2900 (?h 1 HJoin (RxHave 1) h) (?h 1 HJoin RxEnd h)"
      by (rule hq_rx [where r = ReadError])
        (use cell p in \<open>auto simp: hunter_rx_def hq_def net_recv_def\<close>)
  qed (rule hq_quiet; auto simp: hq_main)+
qed

lemma hunt_kernels:
  "\<exists>k1 k2 m. commands_done good_env [hsub_cmd] kernel1 k1 \<and> commands_done good_env [hunsub_cmd] k1 k2 \<and>
     delivered 2900 k2 = [m] \<and> is_stop_pckt (pckt_of_mem (nlmsg_data m)) \<and> length m = 36 \<and>
     nlmsg_len (hdr_of_mem m) = 36"
proof -
  let ?sub = "''packet_hunter_subscribe''" and ?uns = "''packet_hunter_unsubscribe''"
  have k0: "nl_sock_open kernel1" "\<not> packet_hunter_subscribed kernel1" "unicasts kernel1 = []"
    by (simp_all add: kernel1_def sniffer_init_def kernel_static_def pr_def)
  have mem: "?sub \<in> set program_commands" "?uns \<in> set program_commands"
    by (simp_all add: program_commands_def)
  obtain k1 where k1: "nl_recv_msg good_env (Some hsub_cmd) kernel1 = Inr k1" "nl_sock_open k1"
      "packet_hunter_pid k1 = 2900" "unicasts k1 = []"
    using k0 message_bytes_command [of 2900 ?sub]
    by (auto simp: hsub_cmd_def nl_recv_cases [OF command_text [OF mem(1)]] parse_command_def pr_def)
  obtain k2 m where k2: "nl_recv_msg good_env (Some hunsub_cmd) k1 = Inr k2"
      "unicasts k2 = [(2900, m, 36)]" "is_stop_pckt (pckt_of_mem (nlmsg_data m)) \<and> length m = 36 \<and>
        nlmsg_len (hdr_of_mem m) = 36"
    using nl_recv_stop [OF command_text [OF mem(2)] commands_parse(4) env_ok_good, of 2900 k1] k1(3,4)
    by (auto simp: hunsub_cmd_def slot_pid_def good_env_def)
  then have "delivered 2900 k2 = [m]" by (simp add: delivered_def)
  then show ?thesis
    using k0(1) k1(1,2) k2 by (intro exI [of _ k1] exI [of _ k2] exI [of _ m])
      (simp add: commands_done_def env_sized_def good_env_def)
qed

theorem hunter_stops_witness:
  "\<exists>\<sigma> n. sys_started (\<sigma> 0) \<and> is_run (sys_step 812 2900) \<sigma> \<and> hmain (hproc (\<sigma> 10)) = HJoin \<and>
     hrx (hproc (\<sigma> 10)) = RxRecv \<and> dclient (dproc (\<sigma> 10)) = CRead 0 \<and>
     hunter_ended (hmain (hproc (\<sigma> n)))"
proof -
  obtain k1 k2 m where k: "commands_done good_env [hsub_cmd] kernel1 k1" "commands_done good_env [hunsub_cmd] k1 k2"
      "delivered 2900 k2 = [m]" "is_stop_pckt (pckt_of_mem (nlmsg_data m))" "length m = 36"
      "nlmsg_len (hdr_of_mem m) = 36"
    using hunt_kernels by blast
  let ?h = "snd (heap_new (pckt_of_mem (nlmsg_data m)) heap_init)" and ?d = "dae (CRead 0) 5 []"
  let ?ss = "serve_states @ hunt_states k1 @ quit_states k2 ?h"
  have len: "?ss \<noteq> []" "last ?ss = hs k2 1 True ?d (hq (HExit 0) RxEnd False ?h [hsub_cmd, hunsub_cmd])"
    by (simp_all add: quit_states_def Let_def serve_states_def)
  have start: "hunter0 = hq HSubscribe RxIdle True heap_init []"
    by (simp add: hq_def hunter0_def hunter_init_def)
  have "h_orderly 812 2900 (hs kernel1 0 True ?d hunter0) (hs k1 0 True ?d (hq HSpawn RxIdle True heap_init [hsub_cmd]))"
    unfolding start by (rule hq_step) (use k(1) in \<open>auto simp: hq_main(1) [unfolded start]\<close>)
  moreover have "h_orderly 812 2900 (hs k1 0 True ?d (hq HUnsubscribe RxRecv False heap_init [hsub_cmd]))
      (hs k2 0 True ?d (hq HJoin RxRecv False heap_init [hsub_cmd, hunsub_cmd]))"
    by (rule hq_step) (use k(2) in \<open>auto simp: hq_main\<close>)
  ultimately have run: "is_run (h_orderly 812 2900) (rest_run ?ss)"
    using serve_orderly hunt_orderly [of k1] quit_orderly [OF k(3,5,6,4) refl]
    by (intro rest_runI)
      (simp_all add: successively_append_iff serve_states_def hunt_states_def quit_states_def Let_def)
  have s: "rest_run ?ss 0 = hs kernel1 0 False daemon1 hunter0"
    "rest_run ?ss 10 = hs k2 0 True ?d (hq HJoin RxRecv False heap_init [hsub_cmd, hunsub_cmd])"
    by (simp_all add: rest_run_def serve_states_def hunt_states_def quit_states_def Let_def)
  have "running (dsh (dproc S))" if "S \<in> set ?ss" for S
    using that by (auto simp: serve_states_def hunt_states_def quit_states_def Let_def dae_start)
  then have up: "running (dsh (dproc (rest_run ?ss n)))" for n
    by (cases "n < length ?ss") (simp_all only: rest_run_def nth_mem last_in_set [OF len(1)] if_True if_False)
  have "\<forall>t \<in> {HunterMain, HunterRecv, DaemonServe}. fair (ready 812 2900 t) (acts 812 2900 t) (rest_run ?ss)"
    using rest_run_fair [OF len(1)] unfolding len(2) by (auto simp: dae_def daemon1_def daemon0_def)
  moreover have "is_run (sys_step 812 2900) (rest_run ?ss)"
    using run by (rule run_mono) (simp add: h_orderly_def)
  moreover have "sys_started (hs kernel1 0 False daemon1 hunter0)"
    using sys1_started by (simp add: sys1_def hs_def)
  ultimately show ?thesis
    using hunter_stops [of "rest_run ?ss" 812 2900 10] run s up
    by (intro exI [of _ "rest_run ?ss"]) auto
qed

end
