(* ===== verification/Spec2Isabelle.thy ===== *)
theory Spec2Isabelle
  imports ThreadSafeMap Daemonize SystemWake SystemSession SystemOwner SnifferRaces DaemonDescriptors HunterDescriptors
    DaemonEnds HunterEnds
begin

text \<open>
  A port monitor, verified.

  \<^bold>\<open>The program.\<close> A kernel module (\<^verbatim>\<open>kernel_module/sniffer.c\<close>) looks at every IPv4 packet delivered to
  the host and reports the TCP and UDP ones over netlink to at most two subscribed processes. The
  daemon (\<^verbatim>\<open>daemon/src/main.cpp\<close>) keeps a table from ports to the processes that use them: it scans
  \<open>/proc\<close> at startup (\<^verbatim>\<open>ScanFiles.cpp\<close>, \<^verbatim>\<open>PortToPidMap.cpp\<close>), scans again for the port of every
  reported packet, and answers questions about ports over a Unix domain socket
  (\<^verbatim>\<open>UnixSocketServer.cpp\<close>). The packet hunter (\<^verbatim>\<open>packet_hunter/src/main.cpp\<close>) receives the same
  reports, asks the daemon for the process of each port (\<^verbatim>\<open>UnixSocketClient.cpp\<close>), prints each new
  packet, keeps it (\<^verbatim>\<open>PidToPacketsInfoMap.cpp\<close>) and saves the packets at the end. Both programs share
  the netlink client (\<^verbatim>\<open>NetLinkClient.cpp\<close>), a queue of packet pointers (\<^verbatim>\<open>MessageQueue.cpp\<close>), a map
  with a lock (\<^verbatim>\<open>ThreadSafeUnorderedMap.h\<close>), and the receiving thread and the signal handler
  (\<^verbatim>\<open>UserSpaceConfig.h\<close>). All paths are below \<^verbatim>\<open>src/\<close>.

  \<^bold>\<open>Theories, in the order of the imports.\<close>

  \<^item> HK_Prelude: machine integers (\<open>u8\<close>, \<open>u16\<close>, \<open>u32\<close> and the signed types as words), memory as byte
    lists, little-endian storage, C strings, C++ exceptions; the locales \<open>transition_invariant\<close> (an
    invariant of a step relation holds in every reachable state) and \<open>byte_codec\<close> (fixed-width
    encodings), and the collections \<open>bytes_simps\<close>, \<open>os_simps\<close>, \<open>heap_simps\<close>.
  \<^item> PacketInfo: \<^verbatim>\<open>shared/config/NetLinkConfig.h\<close>: the struct \<open>pckt_info\<close> with its layout and padding,
    the netlink header and the terminate message.
  \<^item> PacketHeap: \<open>new\<close> and \<open>delete\<close> of packets; a second free of a block is counted in \<open>bad_frees\<close>.
  \<^item> MessageQueue, ThreadSafeMap: the two containers, each with a locale of its promises
    (\<open>packet_queue\<close>, \<open>key_map\<close>) interpreted on the code's model. Every method holds the lock for its
    whole body, so an interleaving of threads is a sequence of method calls.
  \<^item> Sniffer: all of \<^verbatim>\<open>kernel_module/sniffer.c\<close>: \<open>kernel\<close> is the module's static state with what it has
    allocated, sent and logged; one function per C function; \<open>kstep\<close> is the run of the loaded module.
  \<^item> Posix: descriptor table, outcomes of reads and writes, SIGPIPE; the locale \<open>fd_component\<close> for
    objects that own descriptors.
  \<^item> NetLinkClient, SharedThreads: \<open>sendMessage\<close>, \<open>receivePacketInfo\<close>, the receiving thread as atomic
    actions (\<open>recvPacketInfoThread\<close>) and run to its end (\<open>recv_loop\<close>), \<open>cleanMessageQueue\<close>.
  \<^item> RegexSearch: the part of \<open>std::regex\<close> the scanner uses, as a backtracking matcher, with the
    language of a pattern beside it. ScanFiles: the scanner on the texts of the tables and the
    listing of \<open>/proc\<close>. PortToPidMap: the table, with the locale \<open>pid_directory\<close>.
  \<^item> UnixSocketServer, UnixSocketClient: the two ends of the socket (\<open>server_step\<close> and \<open>client_step\<close>
    are the runs of an object between constructor and destructor; interpretations of
    \<open>fd_component\<close>).
  \<^item> Daemon: \<open>main\<close>, \<open>clientConnectionThread\<close> with \<open>handleClientConnection\<close>, the receiving thread and
    the signal handler, interleaved by \<open>daemon_step\<close>. DaemonDescriptors: its
    descriptors, from the constructors to the destructors at the end of \<open>main\<close>. Daemonize: the function of
    that name.
  \<^item> PidToPacketsInfoMap, PacketLog, PacketHunter: the hunter's store, its output, and its two threads
    and handler, interleaved by \<open>hunter_step\<close>. HunterLog: its screen against its file.
    HunterDescriptors: its two sockets, from the constructors to the destructors.
  \<^item> FairRuns: runs, weak fairness, and the locale \<open>fair_threads\<close>: a rank that no step raises and a thread
    that is not blocked and whose next action lowers it end every fair run. DaemonShutdown and
    HunterShutdown: the ranks of the two programs, which no thread raises once the flag is down.
  \<^item> SnifferMessages: what one call of the module can add to the messages it has sent. SnifferCpus: any
    number of calls of the hook and the input function at once (\<open>smp_step\<close>), interleaved between any
    two accesses to the shared variables; \<open>ctx\<close> is a call in progress, \<open>cpu_step\<close> its next action.
    SnifferRaces: the runs in which messages are handled one at a time, and two runs that fail.
  \<^item> System: module, daemon and hunter as one transition system (\<open>sys_step\<close>), with the netlink
    sockets and the stream connection between them as channels. SystemRun is a concrete run of it,
    SystemLog follows packets and answers through it to the screen and the file, SystemOwner
    traces the process ids in them to the daemon's scans, SystemSession gives the connection of
    hunter and daemon a session type, and SystemStop and SystemWake follow the
    terminate messages. SystemFair says which steps are whose thread's (\<open>acts\<close>) and when a thread can go
    on and when it is blocked (\<open>ready\<close>); DaemonEnds and HunterEnds interpret \<open>fair_threads\<close> on the
    system and show that each program, told to stop, ends.

  \<^bold>\<open>What the lemmas show.\<close> Sniffer: the input function implements an abstract subscription table
  (\<open>sub_spec\<close>) and faults on exactly the messages named; the hook reports each TCP or UDP packet
  once per subscriber, accepts every packet and keeps an invariant of the module state. SnifferCpus and
  SnifferRaces: the fine-grained calls, run alone, are the functions of Sniffer; what is sent and to
  whom stays right under every interleaving, the subscription table as long as messages are handled one at
  a time.
  Containers: first in, first out, and refinement of a plain map. ScanFiles: on any line the program's
  pattern finds the first row of a socket table in it (RegexSearch has the matcher's own lemmas), and on tables of the
  kernel's format the regular expression, the loop over lines and the search of \<open>/proc\<close> compute
  declarative specifications. PortToPidMap: which answer each port has after any sequence of
  scans. Sockets and client: descriptors are returned, messages have the stated bytes, each
  error has its result. Daemon and PacketHunter: an ownership invariant for every interleaving (each
  packet in use is held by one of receiver, queue, main thread and store and by no other), from which the
  absence of double frees and of reads after a free follows; the state at exit, of both programs with
  their descriptors. HunterLog: the saved file is the log on the screen, less the packets of
  unknown process. SystemLog: everything the hunter prints or saves is a packet the
  kernel was called with, under an answer the daemon gave for its port. SystemOwner: that answer is
  -1 or was found, at startup or by a scan for this port. SystemSession: question and
  answer alternate and never get out of step. SystemStop: a receiving thread returns only when its
  program goes down. SystemWake: after an unsubscription it is not left
  blocked. DaemonEnds and HunterEnds: a program whose flag is down ends, as each thread that is blocked
  is woken by what the code does for it, the unsubscription, the \<open>shutdown\<close> of the connection and the dummy
  connection; without one of these calls the proofs fail. This theory joins pairs of the programs: commands take
  effect in the module, packets reach the receiving thread unchanged, the stop handshake, and a
  hunter's question.

  \<^bold>\<open>Conventions and bounds.\<close> What a call returns (system calls, allocation, the kernel's services) is an
  argument of the definition that makes the call, so the theorems hold for all results that the
  named hypotheses admit. \<open>env_ok\<close> says that kernel allocations succeed and yield blocks of the
  size asked for; \<open>env_sized\<close> only the latter; \<open>io_valid\<close> that a new descriptor is an unused number;
  \<open>fair\<close> that a thread which stays able to go on (\<open>ready\<close>) goes on at some time, with nothing assumed of a
  blocked one; \<open>answers_env\<close> that the module can also deliver its answer; \<open>d_calls_ok\<close> and \<open>h_calls_ok\<close> name
  the calls whose failure would leave a thread blocked. In \<open>System\<close>
  the results of netlink and stream calls are not free but come from the other programs. No definition
  uses fuel (the number of \<open>cpu_run\<close> counts actions, and thirteen are enough for any call): the loops are recursions over data with termination proofs, and \<open>recv_loop\<close> recurses
  over the sequence of results of \<open>recv\<close>. Integers keep their width; a port is 16 bits, a pid 32.
  The byte order of the host is little-endian, as on the x86 machines the module is built for.

  \<^bold>\<open>Not modelled.\<close> The lines written to
  \<open>syslog\<close> by the user programs (the module's \<open>printk\<close> lines are kept), the notices and prompts the hunter
  writes to its terminal (its screen here holds the lines of packets), the pauses of the polling
  loops, scripts, Makefiles and the service file, and \<^verbatim>\<open>UnixSocketConfig.h\<close>, which is a list of
  includes and one path. In \<open>Sniffer\<close>, and in \<open>System\<close>, which is built on it, the calls of the module are
  atomic towards each other; \<open>SnifferCpus\<close> interleaves them, with each access to a shared variable
  atomic and in the order of the source. In the hunter and the daemon the memory
  model is sequential consistency, which \<open>std::atomic\<close> and the locks give for all shared data but
  the descriptor numbers of the server. Of these, an access is an action of its own where threads
  can collide, with two exceptions: in \<open>closeClientFd\<close> the test of \<open>clientFd\<close> and the argument of \<open>close\<close> are one
  read, and \<open>stopListeningForNewClients\<close>, which works on its own new descriptor, is one action. In \<open>System\<close>
  no process but the two programs sends to the module or to the programs' sockets, the hunter's is
  the only client the daemon accepts, a fault of the module ends the run, and the module runs on one
  CPU: its calls with several CPUs are the subject of \<open>SnifferCpus\<close> and \<open>SnifferRaces\<close> alone.
  What the threads wait for in \<open>recv\<close>, \<open>accept\<close>, \<open>read\<close> and \<open>join\<close> is modelled in \<open>SystemFair\<close>; only the
  answers of the user at the hunter's prompts are taken to come. A packet has the transport header its
  record gives, so a read past the end of a truncated one, which the module does not check for, cannot be
  expressed: that the hook does not fault means that it does not use a null pointer. Exceptions of the
  listing of \<open>/proc\<close> itself (those of a process's \<open>fd\<close> directory are modelled) and of \<open>fs::canonical\<close>, and
  errors of writing to a log file that could be opened, are left out.
\<close>

section \<open>Commands from the programs to the kernel module\<close>

text \<open>
  A command that one of the programs has sent takes effect in the kernel module: it never
  makes the module read past the message, and unless the module faults for lack of memory the
  subscription table changes as the command says, for the sender's process id.
\<close>

theorem command_takes_effect:
  assumes "msg \<in> set program_commands" and "sendMessage c ok pid res msg = (True, Some d)"
  shows "nl_recv_msg env (Some d) k \<noteq> Inl OverRead \<and>
    (\<forall>k'. nl_recv_msg env (Some d) k = Inr k' \<longrightarrow>
      subs_of k' = sub_spec (parse_command msg) pid (subs_of k)) \<and>
    (env_kmalloc env \<noteq> None \<longrightarrow> (\<exists>k'. nl_recv_msg env (Some d) k = Inr k'))"
proof -
  have d: "d = message_bytes pid msg"
    using sent_datagram [OF assms(2)] .
  have s: "c_string (nlmsg_data d) = Some msg"
    using command_text [OF assms(1)] d by simp
  have p: "nlmsg_pid (hdr_of_mem d) = pid"
    by (simp add: d message_bytes_command)
  have f: "nl_recv_msg env (Some d) k = Inl f \<Longrightarrow> f = NullDeref \<and> env_kmalloc env = None" for f
    using nl_recv_faults [of env d k f] s by simp
  show ?thesis
    using f nl_recv_subs [OF s, of env k] p by (cases "nl_recv_msg env (Some d) k") auto
qed

section \<open>Packets from the kernel module to the programs\<close>

text \<open>
  C8: What the hook sends is what the programs receive: for a TCP or UDP packet, in any reachable
  state of the module and when its allocations succeed, the new messages go to the subscribed
  processes, and each of them, received by \<open>receivePacketInfo\<close>, becomes one new packet with the
  addresses, ports and protocol of the packet on the network.
\<close>

theorem hook_to_receiver:
  assumes "kernel_loaded k0" and "kstep\<^sup>*\<^sup>* k0 k" and "env_ok env_d" and "env_ok env_h"
    and "packet_report skb = Some key"
  shows "\<exists>k' us. packet_sniffer_hook env_d env_h skb k = Inr (NF_ACCEPT, k') \<and>
    unicasts k' = unicasts k @ us \<and> map fst us = recipients k \<and>
    (\<forall>(pid, m, r) \<in> set us. \<forall>c g h. \<exists>p.
      receivePacketInfo c g (GotBytes m) h = heap_new p h \<and> pckt_key p = key)"
proof -
  obtain k' us where hook: "packet_sniffer_hook env_d env_h skb k = Inr (NF_ACCEPT, k')"
      "unicasts k' = unicasts k @ us" "map unicast_key us = map (\<lambda>pid. (pid, key)) (recipients k)"
    using hook_reports_eq [OF assms(3,4), of skb k] assms(5) by auto
  have "env_sized env_d" "env_sized env_h"
    using assms(3,4) by (auto simp: env_sized_def env_ok_def)
  then have "kernel_inv k'"
    using kernel_inv_hook hook(1) knl.inv_reachable [OF assms(1,2)] by blast
  then have "list_all well_formed_unicast (unicasts k')"
    by (simp add: kernel_inv_def)
  then have "well_formed_unicast u" if "u \<in> set us" for u
    using that hook(2) by (simp add: list_all_iff)
  then have wire: "length m = 36 \<and> nlmsg_len (hdr_of_mem m) = 36" if "(pid, m, r) \<in> set us" for pid m r
    using that by (fastforce simp: well_formed_unicast_def)
  have key: "pckt_key (pckt_of_mem (nlmsg_data m)) = key" if "(pid, m, r) \<in> set us" for pid m r
  proof -
    have "unicast_key (pid, m, r) \<in> set (map unicast_key us)" using that by simp
    then show ?thesis using hook(3) by (auto simp: unicast_key_def)
  qed
  have "map fst us = map (fst \<circ> unicast_key) us"
    by (simp add: unicast_key_def case_prod_beta comp_def)
  also have "\<dots> = recipients k"
    using hook(3) by (metis (no_types, lifting) map_map map_idI comp_apply fst_conv)
  finally have "map fst us = recipients k" .
  moreover have "\<forall>(pid, m, r) \<in> set us. \<forall>c g h. \<exists>p.
      receivePacketInfo c g (GotBytes m) h = heap_new p h \<and> pckt_key p = key"
    using wire key receive_wire by blast
  ultimately show ?thesis using hook(1,2) by blast
qed

section \<open>Stopping\<close>

text \<open>
  The stop handshake: the unsubscription a program sends frees its slot in the kernel module,
  the module answers the subscriber with one message, and on that message the receiving thread
  returns, without queueing anything, whatever else may still arrive.
\<close>

theorem stop_handshake:
  assumes "msg \<in> set program_commands" and "parse_command msg = Unsubscribe who"
    and "sendMessage c ok pid res msg = (True, Some d)" and "env_ok env"
    and "running s" and "owned_ok (heap s) as"
  shows "\<exists>k' m s'. nl_recv_msg env (Some d) k = Inr k' \<and> subs_of k' who = None \<and>
    unicasts k' = unicasts k @ [(slot_pid who k, m, env_unicast env)] \<and>
    recv_loop c ((g, GotBytes m) # rest) s = (RxEnd, s') \<and> mqueue s' = mqueue s"
proof -
  have s: "c_string (nlmsg_data d) = Some msg"
    using command_text [OF assms(1)] sent_datagram [OF assms(3)] by simp
  obtain k' m where k: "nl_recv_msg env (Some d) k = Inr k'" "subs_of k' who = None"
      "unicasts k' = unicasts k @ [(slot_pid who k, m, env_unicast env)]"
      "is_stop_pckt (pckt_of_mem (nlmsg_data m))" "length m = 36" "nlmsg_len (hdr_of_mem m) = 36"
    using nl_recv_stop [OF s assms(2,4), of k] by blast
  let ?p = "pckt_of_mem (nlmsg_data m)"
  obtain a h where a: "heap_new ?p (heap s) = (a, h)" by fastforce
  then have "a \<noteq> nullptr" "cells h a = Some ?p"
    using owned_new [OF assms(6)] by (auto simp: heap_new_def)
  then have "recv_loop c ((g, GotBytes m) # rest) s = (RxEnd, s\<lparr>heap := h\<rparr>)"
    using receive_wire [OF k(5,6)] a k(4) assms(5) by (simp add: recv_loop.simps(2))
  then show ?thesis using k by force
qed

section \<open>A hunter's question and its answer\<close>

lemma query_round_trip:
  assumes "sendPort uc port w1 = (b1, Inr True)" and "sendPid (answer m port) w2 = (b2, Inr True)"
  shows "receivePort p0 (GotBytes b1) = (True, port) \<and>
    receivePid uc q0 (GotBytes b2) = (True, answer m port)"
proof -
  have b1: "b1 = word_bytes port" "isConnected uc"
    using sendPort_ok [of uc port w1] assms(1) by simp_all
  have b2: "b2 = word_bytes (answer m port)"
    using sendPid_ok [of "answer m port" w2] assms(2) by simp
  have len: "length b1 = 2" "length b2 = 4"
    using codec_u16.enc_width codec_u32.enc_width b1(1) b2 by simp_all
  have 1: "receivePort p0 (GotBytes b1) = (True, bytes_word (take 2 b1))"
    using len(1) by (intro receivePort_full) simp
  have 2: "receivePid uc q0 (GotBytes b2) = (True, bytes_word (take 4 b2))"
    using len(2) b1(2) by (intro receivePid_full) simp_all
  have "bytes_word (take 2 b1) = port"
    unfolding b1(1) using codec_u16.dec_take [of port "[]"] by simp
  moreover have "bytes_word (take 4 b2) = answer m port"
    unfolding b2 using codec_u32.dec_take [of "answer m port" "[]"] by simp
  ultimately show ?thesis using 1 2 by simp
qed

text \<open>
  C7: The hunter learns the owner. When the daemon has processed a packet (port and protocol) and
  the tables of the system name an owner of that port, the daemon's table knows it; and when the
  hunter then asks for the port and no call fails, the daemon reads the port that was sent and the
  hunter reads that owner.
\<close>

theorem hunter_learns_owner:
  assumes "wf_table hdr_t tcp" and "wf_table hdr_u udp" and "wf_proc ds"
    and "find (\<lambda>x. lport x = port \<and> inode_col x \<noteq> ''0'') (if ch = PROTO_TCP then tcp else udp) = Some x"
    and "inode_owner ds (inode_col x) = Some q" and "q \<noteq> 0" and "port \<noteq> 0"
    and "addPidMapping \<lparr>env_tcp = Some (sock_table hdr_t tcp), env_udp = Some (sock_table hdr_u udp),
      env_procs = ds\<rparr> port ch m = Inr (found, m')"
    and "sendPort uc port w1 = (b1, Inr True)"
    and "sendPid (answer m' port) w2 = (b2, Inr True)"
  shows "found \<and> receivePort p0 (GotBytes b1) = (True, port) \<and>
    receivePid uc q0 (GotBytes b2) = (True, q)"
proof -
  have "scanForPidByPort (Some (sock_table hdr_t tcp)) (Some (sock_table hdr_u udp)) ds port ch = Inr q"
    using scanForPidByPort_eq [OF assms(1-3), of port ch] assms(4,5,7) by (simp add: PROTO_TCP_def)
  then have "Inr (found, m') = Inr (store_pid port q m)"
    using assms(8) by (simp add: addPidMapping_def)
  then have st: "(found, m') = store_pid port q m" by simp
  have q: "q \<noteq> -1"
    using inode_owner_not_minus_1 [OF assms(3,5)] .
  then have "found" "getPid m' port = q"
    using st ptp.put_result [of port q m] ptp.look_put [of port q m port] by (auto simp: prod_eq_iff)
  moreover from this(2) have "answer m' port = q"
    using assms(6) by (simp add: answer_def)
  ultimately show ?thesis
    using query_round_trip [OF assms(9,10), of p0 q0] by simp
qed

section \<open>Concrete instances\<close>

lemma example_client: "sendMessage \<lparr>sock_fd = 3, src_addr = None, dest_addr = None\<rparr> True 812 1040 msg =
    (True, Some (message_bytes 812 msg))"
  by (simp add: sendMessage_def)

theorem command_takes_effect_witness:
  "\<exists>k'. nl_recv_msg good_env (Some (message_bytes 812 ''daemon_subscribe'')) kernel_static = Inr k' \<and>
     subs_of k' DaemonClient = Some 812"
proof -
  have "''daemon_subscribe'' \<in> set program_commands"
    by (simp add: program_commands_def)
  from command_takes_effect [OF this example_client, of good_env kernel_static] obtain k' where
    "nl_recv_msg good_env (Some (message_bytes 812 ''daemon_subscribe'')) kernel_static = Inr k'"
    "subs_of k' = sub_spec (parse_command ''daemon_subscribe'') 812 (subs_of kernel_static)"
    by (auto simp: good_env_def)
  moreover have "subs_of kernel_static DaemonClient = None"
    by (simp add: kernel_static_def)
  ultimately show ?thesis by (simp add: parse_command_def del: subs_of.simps)
qed

theorem stop_handshake_witness:
  "\<exists>k' m s'. nl_recv_msg good_env (Some (message_bytes 812 ''daemon_unsubscribe''))
      (kernel_static\<lparr>daemon_subscribed := True, daemon_pid := 812\<rparr>) = Inr k' \<and>
    unicasts k' = [(812, m, 36)] \<and>
    recv_loop \<lparr>sock_fd = 3, src_addr = None, dest_addr = None\<rparr> [([], GotBytes m)]
      \<lparr>running = True, heap = heap_init, mqueue = mq_init\<rparr> = (RxEnd, s')"
proof -
  have "''daemon_unsubscribe'' \<in> set program_commands"
      "parse_command ''daemon_unsubscribe'' = Unsubscribe DaemonClient"
    by (simp_all add: program_commands_def parse_command_def)
  from stop_handshake [OF this example_client env_ok_good,
      of "\<lparr>running = True, heap = heap_init, mqueue = mq_init\<rparr>" "[]"
        "kernel_static\<lparr>daemon_subscribed := True, daemon_pid := 812\<rparr>" "[]" "[]"] owned_init
  show ?thesis by (auto simp: slot_pid_def kernel_static_def good_env_def)
qed

theorem hook_to_receiver_witness:
  "\<exists>k k' m r p. daemon_pid k = 812 \<and>
     packet_sniffer_hook good_env good_env (Some dns_reply) k = Inr (NF_ACCEPT, k') \<and>
     unicasts k' = unicasts k @ [(812, m, r)] \<and>
     receivePacketInfo \<lparr>sock_fd = 3, src_addr = None, dest_addr = None\<rparr> [] (GotBytes m) heap_init =
       heap_new p heap_init \<and>
     dst_port p = 44280"
proof -
  let ?k0 = "snd (sniffer_init True True kernel_static)"
  have l: "kernel_loaded ?k0" by (simp add: kernel_loaded_def)
  have k0: "nl_sock_open ?k0" "\<not> daemon_subscribed ?k0" "\<not> packet_hunter_subscribed ?k0"
    by (simp_all add: sniffer_init_def kernel_static_def pr_def)
  have s: "c_string (nlmsg_data (cmd_bytes 812 ''daemon_subscribe'')) = Some ''daemon_subscribe''"
    by (simp add: c_string_def nul_def)
  obtain k where k: "nl_recv_msg good_env (Some (cmd_bytes 812 ''daemon_subscribe'')) ?k0 = Inr k"
      "daemon_subscribed k" "daemon_pid k = 812" "\<not> packet_hunter_subscribed k"
    using k0(2,3) by (auto simp: nl_recv_cases [OF s] parse_command_def pr_def)
  have "env_sized good_env" by (simp add: env_sized_def good_env_def)
  then have run: "kstep\<^sup>*\<^sup>* ?k0 k"
    using kstep.recv [OF k0(1) _ k(1)] by blast
  have key: "packet_report (Some dns_reply) = Some (0x0302000A, 0x0F02000A, 53, 44280, PROTO_UDP)"
    by (simp add: packet_report_def dns_reply_def sizeof_iphdr_def IPPROTO_TCP_def IPPROTO_UDP_def be16_dns)
  obtain k' us where h: "packet_sniffer_hook good_env good_env (Some dns_reply) k = Inr (NF_ACCEPT, k')"
      "unicasts k' = unicasts k @ us" "map fst us = recipients k"
      "\<forall>(pid, m, r) \<in> set us. \<forall>c g h. \<exists>p. receivePacketInfo c g (GotBytes m) h = heap_new p h \<and>
        pckt_key p = (0x0302000A, 0x0F02000A, 53, 44280, PROTO_UDP)"
    using hook_to_receiver [OF l run env_ok_good env_ok_good key] by blast
  have "map fst us = [812]" using h(3) k by (simp add: recipients_def)
  then obtain m r where us: "us = [(812, m, r)]" by (auto simp: map_eq_Cons_conv)
  then have "\<forall>c g h. \<exists>p. receivePacketInfo c g (GotBytes m) h = heap_new p h \<and>
      pckt_key p = (0x0302000A, 0x0F02000A, 53, 44280, PROTO_UDP)"
    using h(4) by simp
  then obtain p where "receivePacketInfo \<lparr>sock_fd = 3, src_addr = None, dest_addr = None\<rparr> [] (GotBytes m)
      heap_init = heap_new p heap_init" "pckt_key p = (0x0302000A, 0x0F02000A, 53, 44280, PROTO_UDP)"
    by blast
  then have "receivePacketInfo \<lparr>sock_fd = 3, src_addr = None, dest_addr = None\<rparr> [] (GotBytes m)
      heap_init = heap_new p heap_init" "dst_port p = 44280"
    by (simp_all add: pckt_key_def)
  then show ?thesis
    using h(1,2) us k(3) by blast
qed

theorem hunter_learns_owner_witness:
  "receivePort 0 (GotBytes (word_bytes (39774 :: u16))) = (True, 39774) \<and>
   receivePid \<lparr>sockFd = 6, isConnected = True\<rparr> 0 (GotBytes (word_bytes (2897 :: pid_t))) = (True, 2897)"
proof -
  let ?m = "\<lparr>pmap = (\<lambda>_. None)\<rparr>" and ?uc = "\<lparr>sockFd = 6, isConnected = True\<rparr>"
  have f: "find (\<lambda>x. lport x = 39774 \<and> inode_col x \<noteq> ''0'') (if PROTO_TCP = PROTO_TCP then example_tcp else example_udp) =
      Some (example_sock 39774 ''01'' ''31337'')"
    by (simp add: example_tcp_def example_sock_def)
  have o: "inode_owner example_proc (inode_col (example_sock 39774 ''01'' ''31337'')) = Some 2897"
    using example_owner by (simp add: example_sock_def)
  have add: "addPidMapping \<lparr>env_tcp = Some (sock_table proc_net_header example_tcp),
      env_udp = Some (sock_table proc_net_header example_udp), env_procs = example_proc\<rparr>
      39774 PROTO_TCP ?m = Inr (True, snd (store_pid 39774 2897 ?m))"
    using example_add [of ?m] by (simp add: example_env_def PROTO_TCP_def store_pid_def)
  have ans: "answer (snd (store_pid 39774 2897 ?m)) 39774 = 2897"
    by (simp add: answer_def getPid_def store_pid_def)
  have p: "sendPort ?uc 39774 (Wrote 2) = (word_bytes (39774 :: u16), Inr True)"
    by (simp add: sendPort_def)
  have q: "sendPid (answer (snd (store_pid 39774 2897 ?m)) 39774) (Wrote 4) =
      (word_bytes (2897 :: pid_t), Inr True)"
    by (simp add: sendPid_def ans)
  show ?thesis
    using hunter_learns_owner [OF example_tables_wf example_proc_wf_proc f o _ _ add p q, of 0 0] by simp
qed

end
